(* ===== verification/Prelude.thy ===== *)
theory Prelude
  imports Complex_Main "HOL-Library.Word" "HOL-Library.Multiset" "HOL-Library.AList"
begin

text \<open>
  Shared vocabulary of the development: the collections of rewrite rules the component
  proofs use, the fallible-computation type of Go's \<^verbatim>\<open>(T, error)\<close> results, bounded
  suffixes of slices (\<^verbatim>\<open>xs[len(xs)-n:]\<close>), comparator sorting (\<^verbatim>\<open>sort.Slice\<close>,
  \<^verbatim>\<open>sort.SliceStable\<close>) and the 64-bit integers of Go.
\<close>

named_theorems go_simps \<open>evaluation rules for the helpers that model the Go library\<close>
named_theorems wf_intros \<open>preservation of the well-formedness invariants\<close>

subsection \<open>Integers of fixed width\<close>

type_synonym uint64 = "64 word"

text \<open>Go's \<^verbatim>\<open>int\<close> and \<^verbatim>\<open>int64\<close> wrap around at 64 bits.\<close>

definition wrap64 :: "int \<Rightarrow> int" where
  "wrap64 n = signed_take_bit 63 n"

lemma wrap64_id [simp]: "- (2 ^ 63) \<le> n \<Longrightarrow> n < 2 ^ 63 \<Longrightarrow> wrap64 n = n"
  by (simp add: wrap64_def signed_take_bit_int_eq_self)

lemma wrap64_range: "- (2 ^ 63) \<le> wrap64 n" "wrap64 n < 2 ^ 63"
  using signed_take_bit_int_greater_eq_minus_exp [of 63 n] signed_take_bit_int_less_exp [of 63 n]
  by (simp_all add: wrap64_def)

subsection \<open>Fallible computations\<close>

type_synonym ('e, 'a) result = "'e + 'a"

definition is_ok :: "('e, 'a) result \<Rightarrow> bool" where
  "is_ok r \<longleftrightarrow> (case r of Inl _ \<Rightarrow> False | Inr _ \<Rightarrow> True)"

lemma is_ok_simps [simp]: "is_ok (Inr x)" "\<not> is_ok (Inl e)"
  by (simp_all add: is_ok_def)

subsection \<open>Bounded suffixes\<close>

text \<open>\<^verbatim>\<open>if len(xs) > n { xs = xs[len(xs)-n:] }\<close>\<close>

definition keep_last :: "nat \<Rightarrow> 'a list \<Rightarrow> 'a list" where
  "keep_last n xs = (if length xs > n then drop (length xs - n) xs else xs)"

lemma keep_last_alt: "keep_last n xs = drop (length xs - n) xs"
  by (simp add: keep_last_def)

lemma length_keep_last [simp]: "length (keep_last n xs) = min n (length xs)"
  by (simp add: keep_last_alt)

lemma set_keep_last_subset: "set (keep_last n xs) \<subseteq> set xs"
  by (simp add: keep_last_alt set_drop_subset)

lemma keep_last_short [simp]: "length xs \<le> n \<Longrightarrow> keep_last n xs = xs"
  by (simp add: keep_last_def)

lemma keep_last_Nil [simp]: "keep_last n [] = []"
  by (simp add: keep_last_def)

lemma keep_last_snoc: "keep_last n (keep_last n xs @ [x]) = keep_last n (xs @ [x])"
proof (cases "length xs < n")
  case True
  then show ?thesis by (simp add: keep_last_alt)
next
  case False
  then have "length xs - (length xs - n) = n" by simp
  with False show ?thesis by (cases n) (simp_all add: keep_last_alt Suc_diff_Suc)
qed

lemma keep_last_last: "n \<noteq> 0 \<Longrightarrow> xs \<noteq> [] \<Longrightarrow> last (keep_last n xs) = last xs"
  by (simp add: keep_last_alt)

lemma keep_last_append_ge: "n \<le> length ys \<Longrightarrow> keep_last n (xs @ ys) = keep_last n ys"
  by (simp add: keep_last_alt)

lemma sorted_wrt_keep_last: "sorted_wrt P xs \<Longrightarrow> sorted_wrt P (keep_last n xs)"
  by (simp add: keep_last_alt sorted_wrt_drop)

subsection \<open>Sorting with a comparator\<close>

text \<open>
  \<^verbatim>\<open>sort.SliceStable\<close> with the comparator \<open>lt\<close>: the stable insertion sort (the
  elements of a run of equals keep their order, which determines the result). For
  \<^verbatim>\<open>sort.Slice\<close> the library does not fix the order of equal elements; slices of at
  most twelve elements are sorted by the same insertion sort.
\<close>

fun insert_by :: "('a \<Rightarrow> 'a \<Rightarrow> bool) \<Rightarrow> 'a \<Rightarrow> 'a list \<Rightarrow> 'a list" where
  "insert_by lt x [] = [x]"
| "insert_by lt x (y # ys) = (if lt x y then x # y # ys else y # insert_by lt x ys)"

fun sort_by :: "('a \<Rightarrow> 'a \<Rightarrow> bool) \<Rightarrow> 'a list \<Rightarrow> 'a list \<Rightarrow> 'a list" where
  "sort_by lt acc [] = acc"
| "sort_by lt acc (x # xs) = sort_by lt (insert_by lt x acc) xs"

definition slice_sort :: "('a \<Rightarrow> 'a \<Rightarrow> bool) \<Rightarrow> 'a list \<Rightarrow> 'a list" where
  "slice_sort lt xs = sort_by lt [] xs"

lemma mset_insert_by [simp]: "mset (insert_by lt x ys) = add_mset x (mset ys)"
  by (induction ys) auto

lemma mset_sort_by: "mset (sort_by lt acc xs) = mset acc + mset xs"
  by (induction xs arbitrary: acc) auto

lemma mset_slice_sort [simp]: "mset (slice_sort lt xs) = mset xs"
  by (simp add: slice_sort_def mset_sort_by)

lemma set_slice_sort [simp]: "set (slice_sort lt xs) = set xs"
  by (metis mset_slice_sort set_mset_mset)

lemma length_slice_sort [simp]: "length (slice_sort lt xs) = length xs"
  by (metis mset_slice_sort size_mset)

lemma set_insert_by [simp]: "set (insert_by lt x ys) = insert x (set ys)"
  by (induction ys) auto

text \<open>
  The comparators of the program are strict weak orders: the contract \<^verbatim>\<open>sort\<close> asks of
  them, from which the result is sorted.
\<close>

locale weak_order =
  fixes lt :: "'a \<Rightarrow> 'a \<Rightarrow> bool"
  assumes asym: "lt x y \<Longrightarrow> \<not> lt y x"
    and neg_trans: "\<not> lt x y \<Longrightarrow> \<not> lt y z \<Longrightarrow> \<not> lt x z"
begin

lemma sorted_insert_by:
  assumes "sorted_wrt (\<lambda>x y. \<not> lt y x) ys"
  shows "sorted_wrt (\<lambda>x y. \<not> lt y x) (insert_by lt x ys)"
  using assms
proof (induction ys)
  case Nil
  then show ?case by simp
next
  case (Cons y ys)
  show ?case
  proof (cases "lt x y")
    case True
    then have "\<not> lt z x" if "z \<in> set (y # ys)" for z
      using that Cons.prems asym neg_trans by (metis set_ConsD sorted_wrt.simps(2))
    with True Cons.prems show ?thesis by auto
  next
    case False
    with Cons show ?thesis by auto
  qed
qed

lemma sorted_sort_by:
  "sorted_wrt (\<lambda>x y. \<not> lt y x) acc \<Longrightarrow> sorted_wrt (\<lambda>x y. \<not> lt y x) (sort_by lt acc xs)"
  by (induction xs arbitrary: acc) (auto intro: sorted_insert_by)

lemma sorted_slice_sort: "sorted_wrt (\<lambda>x y. \<not> lt y x) (slice_sort lt xs)"
  by (simp add: slice_sort_def sorted_sort_by)

end

interpretation int_order: weak_order "(<) :: int \<Rightarrow> int \<Rightarrow> bool"
  by unfold_locales auto

lemma sorted_slice_sort_int: "sorted (slice_sort (<) (xs :: int list))"
  using int_order.sorted_slice_sort [of xs] by (simp add: sorted_wrt_iff_nth_less not_less)

lemma slice_sort_sorted_int:
  fixes xs :: "int list"
  shows "slice_sort (<) xs = sort xs"
  by (rule properties_for_sort [symmetric]) (simp_all add: sorted_slice_sort_int)

subsection \<open>Maps as association lists\<close>

lemma set_AList_update: "set (AList.update k v al) \<subseteq> insert (k, v) (set al)"
  by (induction al) auto

subsection \<open>Transition systems\<close>

text \<open>
  The contract of an inductive invariant: it holds of the initial states and every step keeps
  it, so it holds of every state reached.
\<close>

locale transition_system =
  fixes init :: "'s \<Rightarrow> bool"
    and step :: "'s \<Rightarrow> 's \<Rightarrow> bool"
    and inv :: "'s \<Rightarrow> bool"
  assumes init_inv: "init s \<Longrightarrow> inv s"
    and step_inv: "step s t \<Longrightarrow> inv s \<Longrightarrow> inv t"
begin

lemma steps_inv: "step\<^sup>*\<^sup>* s t \<Longrightarrow> inv s \<Longrightarrow> inv t"
  by (induction rule: rtranclp_induct) (auto intro: step_inv)

lemma reachable_inv: "init s \<Longrightarrow> step\<^sup>*\<^sup>* s t \<Longrightarrow> inv t"
  using init_inv steps_inv by blast

end

subsection \<open>Reducers with checkpoints\<close>

text \<open>
  The contract of a reducer that is saved and loaded: \<open>sim\<close> relates states that no further
  input can tell apart, and loading what a good state saved gives such a state. Then
  restoring a checkpoint and replaying the inputs since amounts to never having stopped.
\<close>

locale checkpointed =
  fixes step :: "'s \<Rightarrow> 'i \<Rightarrow> 's"
    and save :: "'s \<Rightarrow> ('e, 'd) result"
    and load :: "'s \<Rightarrow> 'd \<Rightarrow> ('e, 's) result"
    and compatible :: "'s \<Rightarrow> 's \<Rightarrow> bool"
    and good :: "'s \<Rightarrow> bool"
    and sim :: "'s \<Rightarrow> 's \<Rightarrow> bool"
  assumes sim_step: "sim s t \<Longrightarrow> sim (step s x) (step t x)"
    and load_save: "good s \<Longrightarrow> compatible fresh s \<Longrightarrow> save s = Inr d \<Longrightarrow> \<exists>t. load fresh d = Inr t \<and> sim s t"
begin

lemma sim_replay: "sim s t \<Longrightarrow> sim (foldl step s xs) (foldl step t xs)"
  by (induction xs arbitrary: s t) (auto intro: sim_step)

lemma recover_replay:
  assumes "good s" and "compatible fresh s" and "save s = Inr d"
  shows "\<exists>t. load fresh d = Inr t \<and> sim (foldl step s xs) (foldl step t xs)"
  using load_save [OF assms] sim_replay by blast

end

end
