(* ===== verification/Float64.thy ===== *)
theory Float64
  imports Prelude "HOL-Library.Log_Nat"
begin

text \<open>
  Go's \<^verbatim>\<open>float64\<close>: IEEE 754 binary64 with round-to-nearest-even. A finite nonzero value
  is the rational it denotes; each operation computes the exact rational result and
  rounds it once (\<open>rnd\<close>). The order of the arithmetic operators is the one of the
  source, without fusing a product into a sum.
\<close>

datatype f64 = NaN | PInf | NInf | NZero | Fin rat

subsection \<open>Rounding\<close>

text \<open>The exponent of a positive rational: \<open>2 powi ilog2 q \<le> q < 2 powi (ilog2 q + 1)\<close>.\<close>

definition ilog2 :: "rat \<Rightarrow> int" where
  "ilog2 q = (let (n, d) = quotient_of q; k = bitlen n - bitlen d
              in if 2 powi k \<le> q then k else k - 1)"

definition round_half_even :: "rat \<Rightarrow> int" where
  "round_half_even q = (let n = \<lfloor>q\<rfloor>; r = q - of_int n
     in if r < 1 / 2 then n else if 1 / 2 < r then n + 1 else if even n then n else n + 1)"

text \<open>The spacing of the floats of the binade of \<open>q\<close>; below the least normal exponent it is constant.\<close>

definition ulp_exp :: "rat \<Rightarrow> int" where
  "ulp_exp q = max (ilog2 q) (-1022) - 52"

definition rnd_pos :: "rat \<Rightarrow> rat" where
  "rnd_pos q = of_int (round_half_even (q / 2 powi ulp_exp q)) * 2 powi ulp_exp q"

definition f64_limit :: rat where
  "f64_limit = 2 ^ 1024"

definition rnd :: "rat \<Rightarrow> f64" where
  "rnd q =
     (if q = 0 then Fin 0
      else if 0 < q then (let r = rnd_pos q in if f64_limit \<le> r then PInf else Fin r)
      else (let r = rnd_pos (- q) in
            if f64_limit \<le> r then NInf else if r = 0 then NZero else Fin (- r)))"

text \<open>A constant of the source: the exact decimal, rounded.\<close>

abbreviation lit :: "rat \<Rightarrow> f64" where
  "lit q \<equiv> rnd q"

subsection \<open>Classification\<close>

fun fval :: "f64 \<Rightarrow> rat" where
  "fval (Fin q) = q"
| "fval _ = 0"

fun isNaN :: "f64 \<Rightarrow> bool" where
  "isNaN NaN = True"
| "isNaN _ = False"

fun isInf :: "f64 \<Rightarrow> bool" where
  "isInf PInf = True"
| "isInf NInf = True"
| "isInf _ = False"

definition finite64 :: "f64 \<Rightarrow> bool" where
  "finite64 x \<longleftrightarrow> \<not> isNaN x \<and> \<not> isInf x"

fun signbit :: "f64 \<Rightarrow> bool" where
  "signbit NInf = True"
| "signbit NZero = True"
| "signbit (Fin q) = (q < 0)"
| "signbit _ = False"

definition fzero :: "bool \<Rightarrow> f64" where
  "fzero s = (if s then NZero else Fin 0)"

definition finf :: "bool \<Rightarrow> f64" where
  "finf s = (if s then NInf else PInf)"

subsection \<open>Operators\<close>

fun fneg :: "f64 \<Rightarrow> f64" where
  "fneg NaN = NaN"
| "fneg PInf = NInf"
| "fneg NInf = PInf"
| "fneg NZero = Fin 0"
| "fneg (Fin q) = (if q = 0 then NZero else Fin (- q))"

definition fadd :: "f64 \<Rightarrow> f64 \<Rightarrow> f64" where
  "fadd x y =
     (if isNaN x \<or> isNaN y then NaN
      else if isInf x then (if isInf y \<and> x \<noteq> y then NaN else x)
      else if isInf y then y
      else if fval x + fval y = 0 then fzero (x = NZero \<and> y = NZero)
      else rnd (fval x + fval y))"

definition fmul :: "f64 \<Rightarrow> f64 \<Rightarrow> f64" where
  "fmul x y =
     (if isNaN x \<or> isNaN y then NaN
      else if isInf x then (if finite64 y \<and> fval y = 0 then NaN else finf (signbit x \<noteq> signbit y))
      else if isInf y then (if fval x = 0 then NaN else finf (signbit x \<noteq> signbit y))
      else if fval x * fval y = 0 then fzero (signbit x \<noteq> signbit y)
      else rnd (fval x * fval y))"

definition fdiv :: "f64 \<Rightarrow> f64 \<Rightarrow> f64" where
  "fdiv x y =
     (if isNaN x \<or> isNaN y then NaN
      else if isInf x then (if isInf y then NaN else finf (signbit x \<noteq> signbit y))
      else if isInf y then fzero (signbit x \<noteq> signbit y)
      else if fval y = 0 then (if fval x = 0 then NaN else finf (signbit x \<noteq> signbit y))
      else if fval x = 0 then fzero (signbit x \<noteq> signbit y)
      else rnd (fval x / fval y))"

fun fabs :: "f64 \<Rightarrow> f64" where
  "fabs NaN = NaN"
| "fabs PInf = PInf"
| "fabs NInf = PInf"
| "fabs NZero = Fin 0"
| "fabs (Fin q) = Fin \<bar>q\<bar>"

fun flt :: "f64 \<Rightarrow> f64 \<Rightarrow> bool" where
  "flt NaN _ = False"
| "flt _ NaN = False"
| "flt PInf _ = False"
| "flt _ NInf = False"
| "flt NInf _ = True"
| "flt _ PInf = True"
| "flt x y = (fval x < fval y)"

text \<open>The operator \<^verbatim>\<open>==\<close>: a NaN equals nothing, the two zeros are equal.\<close>

definition feq :: "f64 \<Rightarrow> f64 \<Rightarrow> bool" where
  "feq x y \<longleftrightarrow> \<not> isNaN x \<and> \<not> isNaN y \<and>
     (if isInf x \<or> isInf y then x = y else fval x = fval y)"

definition fle :: "f64 \<Rightarrow> f64 \<Rightarrow> bool" where
  "fle x y \<longleftrightarrow> flt x y \<or> feq x y"

instantiation f64 :: "{zero, one, plus, uminus, minus, times, inverse, ord, abs}"
begin

definition zero_f64 :: f64 where "0 = Fin 0"
definition one_f64 :: f64 where "1 = Fin 1"
definition plus_f64 :: "f64 \<Rightarrow> f64 \<Rightarrow> f64" where "plus_f64 = fadd"
definition uminus_f64 :: "f64 \<Rightarrow> f64" where "uminus_f64 = fneg"
definition minus_f64 :: "f64 \<Rightarrow> f64 \<Rightarrow> f64" where "minus_f64 x y = fadd x (fneg y)"
definition times_f64 :: "f64 \<Rightarrow> f64 \<Rightarrow> f64" where "times_f64 = fmul"
definition divide_f64 :: "f64 \<Rightarrow> f64 \<Rightarrow> f64" where "divide_f64 = fdiv"
definition inverse_f64 :: "f64 \<Rightarrow> f64" where "inverse_f64 x = fdiv (Fin 1) x"
definition less_f64 :: "f64 \<Rightarrow> f64 \<Rightarrow> bool" where "less_f64 = flt"
definition less_eq_f64 :: "f64 \<Rightarrow> f64 \<Rightarrow> bool" where "less_eq_f64 = fle"
definition abs_f64 :: "f64 \<Rightarrow> f64" where "abs_f64 = fabs"

instance ..

end

text \<open>The built-in \<^verbatim>\<open>max\<close> and \<^verbatim>\<open>min\<close>: a NaN argument wins, and \<^verbatim>\<open>-0\<close> is below \<^verbatim>\<open>0\<close>.\<close>

definition fmax :: "f64 \<Rightarrow> f64 \<Rightarrow> f64" where
  "fmax x y = (if isNaN x \<or> isNaN y then NaN else if x < y then y else if y < x then x
               else if x = NZero then y else x)"

definition fmin :: "f64 \<Rightarrow> f64 \<Rightarrow> f64" where
  "fmin x y = (if isNaN x \<or> isNaN y then NaN else if x < y then x else if y < x then y
               else if x = NZero then x else y)"

text \<open>\<^verbatim>\<open>float64(n)\<close> of an integer.\<close>

definition of_int64 :: "int \<Rightarrow> f64" where
  "of_int64 n = rnd (of_int n)"


subsection \<open>Exponents\<close>

lemma powi2_pos [simp]: "(0::rat) < 2 powi e"
  by (simp add: zero_less_power_int)

lemma powi2_add: "(2::rat) powi (a + b) = 2 powi a * 2 powi b"
  by (simp add: power_int_add)

lemma powi2_le_iff [simp]: "(2::rat) powi a \<le> 2 powi b \<longleftrightarrow> a \<le> b"
  by (meson not_le power_int_increasing power_int_strict_increasing one_le_numeral one_less_numeral_iff
      semiring_norm(76))

lemma powi2_less_iff [simp]: "(2::rat) powi a < 2 powi b \<longleftrightarrow> a < b"
  by (metis linorder_not_le powi2_le_iff)

lemma bitlen_powi:
  assumes "0 < n"
  shows "2 powi (bitlen n - 1) \<le> (of_int n :: rat)" "(of_int n :: rat) < 2 powi bitlen n"
proof -
  have pos: "0 < bitlen n"
    using assms by (auto simp: bitlen_def floorlog_def intro: add_pos_nonneg)
  have b: "2 ^ nat (bitlen n - 1) \<le> n" "n < 2 ^ nat (bitlen n)"
    using bitlen_bounds [OF assms] by auto
  then have "(2::rat) ^ nat (bitlen n - 1) \<le> of_int n" "(of_int n :: rat) < 2 ^ nat (bitlen n)"
    by (metis of_int_le_iff of_int_numeral of_int_power, metis of_int_less_iff of_int_numeral of_int_power)
  with pos show "2 powi (bitlen n - 1) \<le> (of_int n :: rat)" "(of_int n :: rat) < 2 powi bitlen n"
    by (simp_all add: power_int_def)
qed

lemma ilog2_bounds:
  assumes "0 < q"
  shows "2 powi ilog2 q \<le> q" "q < 2 powi (ilog2 q + 1)"
proof -
  obtain n d where nd: "quotient_of q = (n, d)" by fastforce
  then have d: "0 < d" and q: "q = of_int n / of_int d"
    by (auto intro: quotient_of_denom_pos quotient_of_div)
  with assms have n: "0 < n" by (simp add: zero_less_divide_iff)
  define k where "k = bitlen n - bitlen d"
  have "q < 2 powi bitlen n / 2 powi (bitlen d - 1)"
    unfolding q using bitlen_powi [OF n] bitlen_powi [OF d] d
    using n by (intro frac_less) auto
  also have "\<dots> = 2 powi (k + 1)"
    by (simp add: k_def algebra_simps flip: power_int_diff)
  finally have up: "q < 2 powi (k + 1)" .
  have "2 powi (k - 1) = (2 powi (bitlen n - 1) / 2 powi bitlen d :: rat)"
    by (simp add: k_def algebra_simps flip: power_int_diff)
  also have "\<dots> \<le> q"
    unfolding q using bitlen_powi [OF n] bitlen_powi [OF d] d
    using n by (intro frac_le) auto
  finally have lo: "2 powi (k - 1) \<le> q" .
  have e: "ilog2 q = (if 2 powi k \<le> q then k else k - 1)"
    by (simp add: ilog2_def nd k_def)
  show "2 powi ilog2 q \<le> q" "q < 2 powi (ilog2 q + 1)"
    using up lo unfolding e by (auto simp: not_le)
qed

lemma ilog2_mono: "0 < x \<Longrightarrow> x \<le> y \<Longrightarrow> ilog2 x \<le> ilog2 y"
proof -
  assume "0 < x" "x \<le> y"
  then have "2 powi ilog2 x < (2::rat) powi (ilog2 y + 1)"
    using ilog2_bounds(1) [of x] ilog2_bounds(2) [of y] by linarith
  then show "ilog2 x \<le> ilog2 y" by simp
qed

lemma ulp_exp_mono: "0 < x \<Longrightarrow> x \<le> y \<Longrightarrow> ulp_exp x \<le> ulp_exp y"
  using ilog2_mono [of x y] by (simp add: ulp_exp_def)

subsection \<open>Rounding is monotone\<close>

lemma round_half_even_of_int [simp]: "round_half_even (of_int n) = n"
  by (simp add: round_half_even_def)

lemma round_half_even_mono:
  assumes "x \<le> y"
  shows "round_half_even x \<le> round_half_even y"
proof -
  have "\<lfloor>x\<rfloor> \<le> \<lfloor>y\<rfloor>" using assms by (rule floor_mono)
  then consider "\<lfloor>x\<rfloor> = \<lfloor>y\<rfloor>" | "\<lfloor>x\<rfloor> + 1 \<le> \<lfloor>y\<rfloor>" by linarith
  then show ?thesis
    by cases (use assms in \<open>auto simp: round_half_even_def Let_def\<close>)
qed

lemma round_half_even_le_int: "x \<le> of_int n \<Longrightarrow> round_half_even x \<le> n"
  using round_half_even_mono [of x "of_int n"] by simp

lemma round_half_even_ge_int: "of_int n \<le> x \<Longrightarrow> n \<le> round_half_even x"
  using round_half_even_mono [of "of_int n" x] by simp

lemma powi2_int: "0 \<le> k \<Longrightarrow> (2::rat) powi k = of_int (2 ^ nat k)"
  by (simp add: power_int_def)

lemma rnd_pos_le_powi:
  assumes "q \<le> 2 powi j" and "ulp_exp q \<le> j"
  shows "rnd_pos q \<le> 2 powi j"
proof -
  let ?u = "ulp_exp q"
  have "q / 2 powi ?u \<le> 2 powi (j - ?u)"
    using assms(1) by (simp add: power_int_diff divide_right_mono)
  then have "round_half_even (q / 2 powi ?u) \<le> 2 ^ nat (j - ?u)"
    using assms(2) by (intro round_half_even_le_int) (simp add: powi2_int)
  then have "(of_int (round_half_even (q / 2 powi ?u)) :: rat) \<le> 2 powi (j - ?u)"
    using assms(2) by (simp only: powi2_int of_int_le_iff diff_ge_0_iff_ge)
  then show ?thesis
    by (simp add: rnd_pos_def power_int_diff pos_le_divide_eq)
qed

lemma rnd_pos_ge_powi:
  assumes "2 powi j \<le> q" and "ulp_exp q \<le> j"
  shows "2 powi j \<le> rnd_pos q"
proof -
  let ?u = "ulp_exp q"
  have "2 powi (j - ?u) \<le> q / 2 powi ?u"
    using assms(1) by (simp add: power_int_diff divide_right_mono)
  then have "2 ^ nat (j - ?u) \<le> round_half_even (q / 2 powi ?u)"
    using assms(2) by (intro round_half_even_ge_int) (simp add: powi2_int)
  then have "2 powi (j - ?u) \<le> (of_int (round_half_even (q / 2 powi ?u)) :: rat)"
    using assms(2) by (simp only: powi2_int of_int_le_iff diff_ge_0_iff_ge)
  then show ?thesis
    by (simp add: rnd_pos_def power_int_diff pos_divide_le_eq)
qed

lemma rnd_pos_nonneg: "0 < q \<Longrightarrow> 0 \<le> rnd_pos q"
  using round_half_even_ge_int [of 0 "q / 2 powi ulp_exp q"] by (simp add: rnd_pos_def)

lemma rnd_pos_mono:
  assumes "0 < x" and "x \<le> y"
  shows "rnd_pos x \<le> rnd_pos y"
proof (cases "ulp_exp x = ulp_exp y")
  case True
  have "round_half_even (x / 2 powi ulp_exp y) \<le> round_half_even (y / 2 powi ulp_exp y)"
    using assms(2) by (intro round_half_even_mono divide_right_mono) auto
  then show ?thesis by (simp add: rnd_pos_def True)
next
  case False
  with ulp_exp_mono [OF assms] have lt: "ulp_exp x < ulp_exp y" by simp
  then have y: "-1022 < ilog2 y" "ulp_exp y = ilog2 y - 52" and xy: "ilog2 x < ilog2 y"
    by (auto simp: ulp_exp_def max_def split: if_splits)
  have "x < 2 powi (ilog2 x + 1)" using assms(1) by (rule ilog2_bounds)
  also have "\<dots> \<le> 2 powi ilog2 y" using xy by simp
  finally have "rnd_pos x \<le> 2 powi ilog2 y"
    using lt y by (intro rnd_pos_le_powi) auto
  also have "\<dots> \<le> rnd_pos y"
    using assms y by (intro rnd_pos_ge_powi ilog2_bounds) auto
  finally show ?thesis .
qed

lemma rnd_not_NaN [simp]: "\<not> isNaN (rnd q)"
  by (simp add: rnd_def Let_def)


subsection \<open>The order of the non-NaN values\<close>

lemmas f64_ops = plus_f64_def minus_f64_def times_f64_def divide_f64_def less_f64_def
  less_eq_f64_def abs_f64_def uminus_f64_def zero_f64_def one_f64_def

lemma fle_refl: "\<not> isNaN x \<Longrightarrow> fle x x"
  by (cases x) (simp_all add: fle_def feq_def)

lemma fle_trans: "fle x y \<Longrightarrow> fle y z \<Longrightarrow> fle x z"
  by (cases x; cases y; cases z) (auto simp: fle_def feq_def)

lemma fle_total: "\<not> isNaN x \<Longrightarrow> \<not> isNaN y \<Longrightarrow> fle x y \<or> fle y x"
  by (cases x; cases y) (auto simp: fle_def feq_def)

lemma fle_not_NaN: "fle x y \<Longrightarrow> \<not> isNaN x \<and> \<not> isNaN y"
  by (cases x; cases y) (auto simp: fle_def feq_def)

lemma flt_imp_fle: "flt x y \<Longrightarrow> fle x y"
  by (simp add: fle_def)

lemma not_fle_iff: "\<not> isNaN x \<Longrightarrow> \<not> isNaN y \<Longrightarrow> \<not> fle x y \<longleftrightarrow> flt y x"
  by (cases x; cases y) (auto simp: fle_def feq_def)

lemma not_flt_iff: "\<not> isNaN x \<Longrightarrow> \<not> isNaN y \<Longrightarrow> \<not> flt x y \<longleftrightarrow> fle y x"
  by (cases x; cases y) (auto simp: fle_def feq_def)

lemma flt_irrefl [simp]: "\<not> flt x x"
  by (cases x) simp_all

lemma flt_fle_trans: "flt x y \<Longrightarrow> fle y z \<Longrightarrow> flt x z"
  by (cases x; cases y; cases z) (auto simp: fle_def feq_def)

lemma fle_flt_trans: "fle x y \<Longrightarrow> flt y z \<Longrightarrow> flt x z"
  by (cases x; cases y; cases z) (auto simp: fle_def feq_def)

lemma flt_not_NaN: "flt x y \<Longrightarrow> \<not> isNaN x \<and> \<not> isNaN y"
  by (cases x; cases y) auto

lemma finite64_cases: "finite64 x \<longleftrightarrow> x = NZero \<or> (\<exists>q. x = Fin q)"
  by (cases x) (auto simp: finite64_def)

lemma fle_finite_iff: "finite64 x \<Longrightarrow> finite64 y \<Longrightarrow> fle x y \<longleftrightarrow> fval x \<le> fval y"
  by (auto simp: finite64_cases fle_def feq_def)

lemma flt_finite_iff: "finite64 x \<Longrightarrow> finite64 y \<Longrightarrow> flt x y \<longleftrightarrow> fval x < fval y"
  by (auto simp: finite64_cases)

subsection \<open>Rounding and the order\<close>

lemma f64_limit_pos [simp]: "0 < f64_limit"
  by (simp add: f64_limit_def)

lemma rnd_pos_case: "0 < q \<Longrightarrow> rnd q = (if f64_limit \<le> rnd_pos q then PInf else Fin (rnd_pos q))"
  by (simp add: rnd_def Let_def)

lemma rnd_neg_case:
  "q < 0 \<Longrightarrow> rnd q = (if f64_limit \<le> rnd_pos (- q) then NInf
     else if rnd_pos (- q) = 0 then NZero else Fin (- rnd_pos (- q)))"
  by (simp add: rnd_def Let_def)

lemma rnd_0 [simp]: "rnd 0 = Fin 0"
  by (simp add: rnd_def)

lemma rnd_mono:
  assumes "x \<le> y"
  shows "fle (rnd x) (rnd y)"
proof -
  consider "x < 0" "0 \<le> y" | "x < 0" "y < 0" | "x = 0" | "0 < x" using assms by linarith
  then show ?thesis
  proof cases
    case 1
    then show ?thesis
      using rnd_pos_nonneg [of "- x"] rnd_pos_nonneg [of y]
      by (cases "y = 0") (auto simp: rnd_neg_case rnd_pos_case fle_def feq_def)
  next
    case 2
    then have "rnd_pos (- y) \<le> rnd_pos (- x)" using assms by (intro rnd_pos_mono) auto
    then show ?thesis
      using 2 rnd_pos_nonneg [of "- x"] rnd_pos_nonneg [of "- y"]
      by (auto simp: rnd_neg_case fle_def feq_def)
  next
    case 3
    then show ?thesis
      using assms rnd_pos_nonneg [of y]
      by (cases "y = 0") (auto simp: rnd_pos_case fle_def feq_def)
  next
    case 4
    then have "rnd_pos x \<le> rnd_pos y" using assms by (intro rnd_pos_mono)
    then show ?thesis
      using 4 assms by (auto simp: rnd_pos_case fle_def feq_def)
  qed
qed

text \<open>A multiple of the spacing of its binade is its own rounding; so are the integers below \<open>2 ^ 53\<close>.\<close>

lemma rnd_pos_exact:
  assumes q: "q = of_int n * 2 powi j" and "ulp_exp q \<le> j"
  shows "rnd_pos q = q"
proof -
  let ?u = "ulp_exp q"
  have "q / 2 powi ?u = of_int n * (2 powi j / 2 powi ?u)"
    using q by (metis times_divide_eq_right)
  also have "\<dots> = of_int n * 2 powi (j - ?u)"
    by (simp add: power_int_diff)
  also have "\<dots> = of_int (n * 2 ^ nat (j - ?u))"
    using assms(2) by (simp only: powi2_int diff_ge_0_iff_ge of_int_mult)
  finally have eq: "q / 2 powi ?u = of_int (n * 2 ^ nat (j - ?u))" .
  then have "round_half_even (q / 2 powi ?u) = n * 2 ^ nat (j - ?u)"
    by (metis round_half_even_of_int)
  then have "rnd_pos q = q / 2 powi ?u * 2 powi ?u"
    by (simp only: rnd_pos_def eq)
  then show ?thesis by simp
qed

lemma ulp_exp_le:
  assumes "0 < q" and "q < 2 powi k"
  shows "ulp_exp q \<le> max (k - 1) (- 1022) - 52"
proof -
  have "2 powi ilog2 q < (2::rat) powi k"
    using ilog2_bounds(1) [OF assms(1)] assms(2) by linarith
  then have "ilog2 q \<le> k - 1" by simp
  then show ?thesis by (simp add: ulp_exp_def)
qed

lemma rnd_pos_int:
  assumes "0 < n" and "n < 2 ^ 53"
  shows "rnd_pos (of_int n) = of_int n"
proof (rule rnd_pos_exact [where j = 0])
  have "(of_int n :: rat) < of_int (2 ^ 53)" using assms(2) by (simp only: of_int_less_iff)
  moreover have "(of_int (2 ^ 53) :: rat) = 2 powi 53" by (simp add: power_int_def)
  ultimately show "ulp_exp (of_int n) \<le> 0"
    using assms(1) ulp_exp_le [of "of_int n" 53] by simp
qed simp

lemma rnd_of_int:
  assumes "\<bar>n\<bar> < 2 ^ 53"
  shows "rnd (of_int n) = Fin (of_int n)"
proof -
  have lim: "(of_int m :: rat) < f64_limit" if "m < 2 ^ 53" for m :: int
  proof -
    have "(of_int m :: rat) < of_int (2 ^ 53)" using that by (simp only: of_int_less_iff)
    also have "\<dots> \<le> f64_limit"
      unfolding f64_limit_def of_int_power of_int_numeral by (rule power_increasing) simp_all
    finally show ?thesis .
  qed
  consider "n = 0" | "0 < n" | "n < 0" by linarith
  then show ?thesis
  proof cases
    case 2
    with assms lim [of n] show ?thesis by (simp add: rnd_pos_case rnd_pos_int)
  next
    case 3
    then have "rnd_pos (- of_int n) = - (of_int n :: rat)"
      using assms rnd_pos_int [of "- n"] by simp
    moreover have "- (of_int n :: rat) < f64_limit" using lim [of "- n"] assms by simp
    ultimately show ?thesis using 3 by (simp add: rnd_neg_case)
  qed simp
qed

lemma rnd_numeral [simp]:
  "(numeral n :: int) < 2 ^ 53 \<Longrightarrow> rnd (numeral n) = Fin (numeral n)"
  "rnd 1 = Fin 1"
  using rnd_of_int [of "numeral n"] rnd_of_int [of 1] by simp_all


subsection \<open>Monotone operators\<close>

lemma feq_imp_fle: "feq x y \<Longrightarrow> fle x y" "feq x y \<Longrightarrow> fle y x"
  by (auto simp: fle_def feq_def)

lemma feq_fzero: "feq (fzero s) (Fin 0)"
  by (simp add: fzero_def feq_def)

lemma feq_rnd_refl: "feq (rnd q) (rnd q)"
  using rnd_not_NaN [of q] by (auto simp: feq_def)

lemma fadd_finite: "finite64 x \<Longrightarrow> finite64 y \<Longrightarrow> feq (fadd x y) (rnd (fval x + fval y))"
  by (auto simp: fadd_def finite64_def feq_rnd_refl feq_fzero)

lemma fmul_finite: "finite64 x \<Longrightarrow> finite64 y \<Longrightarrow> feq (fmul x y) (rnd (fval x * fval y))"
  by (auto simp: fmul_def finite64_def feq_rnd_refl feq_fzero)

lemma fdiv_finite:
  "finite64 x \<Longrightarrow> finite64 y \<Longrightarrow> fval y \<noteq> 0 \<Longrightarrow> feq (fdiv x y) (rnd (fval x / fval y))"
  by (auto simp: fdiv_def finite64_def feq_rnd_refl feq_fzero)

lemma feq_sandwich: "feq a (rnd p) \<Longrightarrow> feq b (rnd q) \<Longrightarrow> p \<le> q \<Longrightarrow> fle a b"
  by (meson feq_imp_fle fle_trans rnd_mono)

lemma not_NaN_cases: "\<not> isNaN x \<Longrightarrow> x = PInf \<or> x = NInf \<or> finite64 x"
  by (cases x) (auto simp: finite64_def)

lemma fle_PInf: "\<not> isNaN x \<Longrightarrow> fle x PInf" and fle_NInf: "\<not> isNaN x \<Longrightarrow> fle NInf x"
  by (cases x; simp add: fle_def feq_def)+

lemma fle_PInf_D: "fle PInf x \<Longrightarrow> x = PInf" and fle_NInf_D: "fle x NInf \<Longrightarrow> x = NInf"
  by (cases x; simp add: fle_def feq_def)+

lemma feq_not_NaN: "feq x y \<Longrightarrow> \<not> isNaN x"
  by (simp add: feq_def)

text \<open>An operation that keeps the infinities and rounds a monotone function is monotone.\<close>

lemma rounded_mono:
  assumes inf: "f PInf = PInf" "f NInf = NInf"
    and fin: "\<And>z. finite64 z \<Longrightarrow> feq (f z) (rnd (g (fval z)))"
    and g: "\<And>a b. a \<le> b \<Longrightarrow> g a \<le> g b"
    and le: "fle x x'"
  shows "fle (f x) (f x')"
proof -
  have nn: "\<not> isNaN x" "\<not> isNaN x'" using fle_not_NaN [OF le] by auto
  have nf: "\<not> isNaN (f z)" if "\<not> isNaN z" for z
    using not_NaN_cases [OF that] inf fin feq_not_NaN by (metis isNaN.simps(2,3))
  consider "x' = PInf" | "x = NInf" | "finite64 x" "finite64 x'"
    using not_NaN_cases [OF nn(1)] not_NaN_cases [OF nn(2)] le fle_PInf_D fle_NInf_D by blast
  then show ?thesis
  proof cases
    case 1
    with inf nf [OF nn(1)] show ?thesis by (simp add: fle_PInf)
  next
    case 2
    with inf nf [OF nn(2)] show ?thesis by (simp add: fle_NInf)
  next
    case 3
    then have "fval x \<le> fval x'" using le by (simp add: fle_finite_iff)
    with fin [OF 3(1)] fin [OF 3(2)] show ?thesis by (meson feq_sandwich g)
  qed
qed

lemma fadd_mono_left: "fle x x' \<Longrightarrow> finite64 y \<Longrightarrow> fle (fadd x y) (fadd x' y)"
  by (rule rounded_mono [where g = "\<lambda>a. a + fval y"])
    (auto simp: fadd_finite, auto simp: fadd_def finite64_def)

lemma fadd_commute: "fadd x y = fadd y x"
  by (cases x; cases y) (auto simp: fadd_def add.commute)

lemma fadd_mono_right:
  assumes "fle y y'" and y: "finite64 y" "finite64 y'" and "\<not> isNaN x"
  shows "fle (fadd x y) (fadd x y')"
proof (cases "finite64 x")
  case True
  then have "fval x + fval y \<le> fval x + fval y'"
    using assms by (simp add: fle_finite_iff)
  with fadd_finite [OF True y(1)] fadd_finite [OF True y(2)] show ?thesis by (rule feq_sandwich)
next
  case False
  then have "fadd x y = x" "fadd x y' = x"
    using assms by (auto simp: fadd_def finite64_def)
  with assms(4) show ?thesis by (simp add: fle_refl)
qed

lemma fadd_mono:
  "fle x x' \<Longrightarrow> fle y y' \<Longrightarrow> finite64 y \<Longrightarrow> finite64 y' \<Longrightarrow> fle (fadd x y) (fadd x' y')"
  by (meson fadd_mono_left fadd_mono_right fle_not_NaN fle_trans)

lemma finite64_Fin [simp]: "finite64 (Fin q)" "finite64 NZero" "\<not> finite64 PInf" "\<not> finite64 NInf"
    "\<not> finite64 NaN"
  by (simp_all add: finite64_def)

lemma fmul_mono:
  assumes "fle x x'" and "0 < k"
  shows "fle (fmul x (Fin k)) (fmul x' (Fin k))"
proof (rule rounded_mono [where g = "\<lambda>a. a * k", OF _ _ _ _ assms(1)])
  show "fmul PInf (Fin k) = PInf" "fmul NInf (Fin k) = NInf"
    using assms(2) by (simp_all add: fmul_def finf_def)
  show "feq (fmul z (Fin k)) (rnd (fval z * k))" if "finite64 z" for z
    using fmul_finite [OF that, of "Fin k"] by simp
qed (use assms(2) in \<open>simp add: mult_right_mono\<close>)

lemma fdiv_mono:
  assumes "fle x x'" and "0 < k"
  shows "fle (fdiv x (Fin k)) (fdiv x' (Fin k))"
proof (rule rounded_mono [where g = "\<lambda>a. a / k", OF _ _ _ _ assms(1)])
  show "fdiv PInf (Fin k) = PInf" "fdiv NInf (Fin k) = NInf"
    using assms(2) by (simp_all add: fdiv_def finf_def)
  show "feq (fdiv z (Fin k)) (rnd (fval z / k))" if "finite64 z" for z
    using fdiv_finite [OF that, of "Fin k"] assms(2) by simp
qed (use assms(2) in \<open>simp add: divide_right_mono\<close>)


subsection \<open>Representable values\<close>

text \<open>The finite values of the format: the rationals that rounding leaves alone, and \<^verbatim>\<open>-0\<close>.\<close>

definition rep64 :: "f64 \<Rightarrow> bool" where
  "rep64 x \<longleftrightarrow> finite64 x \<and> (case x of Fin q \<Rightarrow> rnd q = Fin q | _ \<Rightarrow> True)"

lemma rep64_numeral [simp]:
  "(numeral n :: int) < 2 ^ 53 \<Longrightarrow> rep64 (Fin (numeral n))" "rep64 (Fin 1)" "rep64 (Fin 0)"
  by (simp_all add: rep64_def)

lemma rep64_scaled_finite:
  assumes "rep64 c" and "0 < m" and "m \<le> 1"
  shows "finite64 (fmul c (Fin m))"
proof (cases c)
  case (Fin q)
  consider "q = 0" | "0 < q" | "q < 0" by linarith
  then show ?thesis
  proof cases
    case 1
    with Fin show ?thesis by (simp add: fmul_def fzero_def)
  next
    case 2
    then have "rnd_pos (q * m) \<le> rnd_pos q" using assms by (intro rnd_pos_mono) auto
    with 2 assms Fin show ?thesis
      by (auto simp: rep64_def fmul_def rnd_pos_case split: if_splits)
  next
    case 3
    then have "rnd_pos (- (q * m)) \<le> rnd_pos (- q)"
      using assms by (intro rnd_pos_mono) (auto simp: mult_neg_pos)
    with 3 assms Fin show ?thesis
      by (auto simp: rep64_def fmul_def rnd_neg_case mult_neg_pos split: if_splits)
  qed
qed (use assms in \<open>auto simp: rep64_def fmul_def fzero_def\<close>)

end
