(* ===== verification/GoStd.thy ===== *)
theory GoStd
  imports Float64
begin

text \<open>
  The functions of Go's standard library the program uses: \<^verbatim>\<open>strconv\<close> on decimal integers,
  the number formats \<^verbatim>\<open>%.12g\<close> and shortest \<^verbatim>\<open>%g\<close>, instants and \<^verbatim>\<open>time.RFC3339Nano\<close>,
  \<^verbatim>\<open>sha256.Sum256\<close> with \<^verbatim>\<open>hex.EncodeToString\<close>, and the binary search \<^verbatim>\<open>sort.Search\<close>.
  A Go string is its list of bytes.
\<close>

unbundle bit_operations_syntax

subsection \<open>Decimal integers\<close>

definition digit_char :: "nat \<Rightarrow> char" where
  "digit_char d = char_of (48 + d mod 10)"

fun dec_digits :: "nat \<Rightarrow> string" where
  "dec_digits n = (if n < 10 then [digit_char n] else dec_digits (n div 10) @ [digit_char n])"

declare dec_digits.simps [simp del]

text \<open>\<^verbatim>\<open>strconv.Itoa\<close>, \<^verbatim>\<open>strconv.FormatInt(_, 10)\<close>, \<^verbatim>\<open>fmt %d\<close>\<close>

definition itoa :: "int \<Rightarrow> string" where
  "itoa n = (if n < 0 then ''-'' @ dec_digits (nat (- n)) else dec_digits (nat n))"

definition format_uint :: "uint64 \<Rightarrow> string" where
  "format_uint w = dec_digits (unat w)"

definition format_bool :: "bool \<Rightarrow> string" where
  "format_bool b = (if b then ''true'' else ''false'')"

definition is_digit :: "char \<Rightarrow> bool" where
  "is_digit c \<longleftrightarrow> 48 \<le> (of_char c :: nat) \<and> (of_char c :: nat) \<le> 57"

fun parse_digits :: "nat \<Rightarrow> string \<Rightarrow> nat option" where
  "parse_digits acc [] = Some acc"
| "parse_digits acc (c # cs) =
     (if is_digit c then parse_digits (10 * acc + (of_char c - 48)) cs else None)"

text \<open>\<^verbatim>\<open>strconv.Atoi\<close> and \<^verbatim>\<open>strconv.ParseInt(_, 10, 64)\<close>: an optional sign, digits, the range of
  \<^verbatim>\<open>int64\<close>.\<close>

definition atoi :: "string \<Rightarrow> int option" where
  "atoi s =
     (let neg = (s \<noteq> [] \<and> hd s = CHR ''-''); signed = (s \<noteq> [] \<and> (hd s = CHR ''-'' \<or> hd s = CHR ''+''));
          ds = (if signed then tl s else s)
      in if ds = [] then None
         else case parse_digits 0 ds of
             None \<Rightarrow> None
           | Some n \<Rightarrow> (let v = (if neg then - int n else int n)
               in if - (2 ^ 63) \<le> v \<and> v < 2 ^ 63 then Some v else None))"

definition has_prefix :: "string \<Rightarrow> string \<Rightarrow> bool" where
  "has_prefix s p \<longleftrightarrow> take (length p) s = p"

subsection \<open>Formatting of float64\<close>

text \<open>
  The \<open>n\<close> leading decimal digits of a positive rational, correctly rounded: \<open>(d, e)\<close>
  stands for \<open>d * 10 powi (e - n + 1)\<close> with \<open>10 ^ (n - 1) \<le> d < 10 ^ n\<close>.
\<close>

fun ilog10_up :: "nat \<Rightarrow> rat \<Rightarrow> int \<Rightarrow> int" where
  "ilog10_up 0 q k = k"
| "ilog10_up (Suc fuel) q k = (if 10 \<le> q then ilog10_up fuel (q / 10) (k + 1) else k)"

fun ilog10_down :: "nat \<Rightarrow> rat \<Rightarrow> int \<Rightarrow> int" where
  "ilog10_down 0 q k = k"
| "ilog10_down (Suc fuel) q k = (if q < 1 then ilog10_down fuel (q * 10) (k - 1) else k)"

text \<open>The decimal exponents of the finite doubles lie between -324 and 308.\<close>

definition ilog10 :: "rat \<Rightarrow> int" where
  "ilog10 q = (if 1 \<le> q then ilog10_up 400 q 0 else ilog10_down 400 q 0)"

definition round_digits :: "nat \<Rightarrow> rat \<Rightarrow> nat \<times> int" where
  "round_digits n q =
     (let e = ilog10 q; d = nat (round_half_even (q / 10 powi (e - int n + 1)))
      in if 10 ^ n \<le> d then (d div 10, e + 1) else (d, e))"

fun strip_zeros :: "nat \<Rightarrow> nat \<Rightarrow> nat" where
  "strip_zeros 0 d = d"
| "strip_zeros (Suc fuel) d = (if d \<noteq> 0 \<and> d mod 10 = 0 then strip_zeros fuel (d div 10) else d)"

definition zeros :: "nat \<Rightarrow> string" where
  "zeros n = replicate n (CHR ''0'')"

definition pad_left :: "nat \<Rightarrow> string \<Rightarrow> string" where
  "pad_left n s = zeros (n - length s) @ s"

definition fmt_e :: "string \<Rightarrow> int \<Rightarrow> string" where
  "fmt_e ds e = take 1 ds @ (if length ds > 1 then ''.'' @ drop 1 ds else []) @ ''e'' @
     (if e < 0 then ''-'' else ''+'') @ pad_left 2 (dec_digits (nat \<bar>e\<bar>))"

definition fmt_f :: "string \<Rightarrow> int \<Rightarrow> string" where
  "fmt_f ds e =
     (if e < 0 then ''0.'' @ zeros (nat (- e - 1)) @ ds
      else if int (length ds) \<le> e + 1 then ds @ zeros (nat (e + 1 - int (length ds)))
      else take (nat (e + 1)) ds @ ''.'' @ drop (nat (e + 1)) ds)"

text \<open>\<^verbatim>\<open>%g\<close>: exponent form below \<^verbatim>\<open>1e-4\<close> and from the threshold on.\<close>

definition fmt_g_digits :: "nat option \<Rightarrow> nat \<Rightarrow> int \<Rightarrow> string" where
  "fmt_g_digits prec d e =
     (let ds = dec_digits d; nd = int (length ds);
          eprec = (case prec of None \<Rightarrow> 6
                   | Some p \<Rightarrow> if int p > nd \<and> nd \<ge> e + 1 then nd else int p)
      in if e < -4 \<or> e \<ge> eprec then fmt_e ds e else fmt_f ds e)"

definition signed_fmt :: "bool \<Rightarrow> string \<Rightarrow> string" where
  "signed_fmt neg s = (if neg then ''-'' @ s else s)"

text \<open>\<^verbatim>\<open>%.12g\<close>\<close>

fun fmt_g12 :: "f64 \<Rightarrow> string" where
  "fmt_g12 NaN = ''NaN''"
| "fmt_g12 PInf = ''+Inf''"
| "fmt_g12 NInf = ''-Inf''"
| "fmt_g12 NZero = ''-0''"
| "fmt_g12 (Fin q) =
     (if q = 0 then ''0''
      else let (d, e) = round_digits 12 \<bar>q\<bar> in
        signed_fmt (q < 0) (fmt_g_digits (Some 12) (strip_zeros 12 d) e))"

text \<open>
  Shortest formatting: the fewest digits that read back to the same value, the candidate
  nearest to the value first.
\<close>

definition shortest_at :: "nat \<Rightarrow> rat \<Rightarrow> (nat \<times> int) option" where
  "shortest_at n q =
     (let e = ilog10 q; u = 10 powi (e - int n + 1); lo = nat \<lfloor>q / u\<rfloor>;
          ok = (\<lambda>d. rnd (of_nat d * u) = Fin q);
          norm = (\<lambda>d. if 10 ^ n \<le> d then (d div 10, e + 1) else (d, e));
          near = (if q / u - of_nat lo \<le> 1 / 2 then (lo, lo + 1) else (lo + 1, lo))
      in if ok (fst near) then Some (norm (fst near))
         else if ok (snd near) then Some (norm (snd near)) else None)"

fun shortest_from :: "nat \<Rightarrow> nat \<Rightarrow> rat \<Rightarrow> nat \<times> int" where
  "shortest_from 0 n q = round_digits 17 q"
| "shortest_from (Suc fuel) n q =
     (case shortest_at n q of Some r \<Rightarrow> r | None \<Rightarrow> shortest_from fuel (Suc n) q)"

text \<open>\<^verbatim>\<open>strconv.FormatFloat(x, 'g', -1, 64)\<close>; \<^verbatim>\<open>%v\<close> of a float64\<close>

fun fmt_g :: "f64 \<Rightarrow> string" where
  "fmt_g NaN = ''NaN''"
| "fmt_g PInf = ''+Inf''"
| "fmt_g NInf = ''-Inf''"
| "fmt_g NZero = ''-0''"
| "fmt_g (Fin q) =
     (if q = 0 then ''0''
      else let (d, e) = shortest_from 17 1 \<bar>q\<bar> in
        signed_fmt (q < 0) (fmt_g_digits None (strip_zeros 17 d) e))"

subsection \<open>Instants\<close>

text \<open>
  A \<^verbatim>\<open>time.Time\<close> is the instant it denotes, in nanoseconds from the Unix epoch. The program
  always converts to UTC before it formats, so \<^verbatim>\<open>UTC()\<close> is the identity.
\<close>

type_synonym time = int

definition nanos :: int where "nanos = 1000000000"

text \<open>The zero \<^verbatim>\<open>time.Time\<close> is January 1 of year 1.\<close>

definition zero_time :: time where
  "zero_time = - 62135596800 * nanos"

text \<open>\<^verbatim>\<open>UnixNano()\<close> is an \<^verbatim>\<open>int64\<close>.\<close>

definition unix_nano :: "time \<Rightarrow> int" where
  "unix_nano t = wrap64 t"

definition civil_from_days :: "int \<Rightarrow> int \<times> int \<times> int" where
  "civil_from_days z0 =
     (let z = z0 + 719468; era = z div 146097; doe = z mod 146097;
          yoe = (doe - doe div 1460 + doe div 36524 - doe div 146096) div 365;
          doy = doe - (365 * yoe + yoe div 4 - yoe div 100);
          mp = (5 * doy + 2) div 153; d = doy - (153 * mp + 2) div 5 + 1;
          m = (if mp < 10 then mp + 3 else mp - 9); y = yoe + era * 400
      in (if m \<le> 2 then y + 1 else y, m, d))"

definition pad_int :: "nat \<Rightarrow> int \<Rightarrow> string" where
  "pad_int n v = (if v < 0 then ''-'' @ pad_left n (dec_digits (nat (- v)))
                  else pad_left n (dec_digits (nat v)))"

definition year_of :: "time \<Rightarrow> int" where
  "year_of t = fst (civil_from_days (t div nanos div 86400))"

definition frac_nano :: "nat \<Rightarrow> string" where
  "frac_nano n = (if n = 0 then [] else
     ''.'' @ rev (dropWhile (\<lambda>c. c = CHR ''0'') (rev (pad_left 9 (dec_digits n)))))"

text \<open>\<^verbatim>\<open>t.UTC().Format(time.RFC3339Nano)\<close>\<close>

definition rfc3339nano :: "time \<Rightarrow> string" where
  "rfc3339nano t =
     (let s = t div nanos; (y, m, d) = civil_from_days (s div 86400); r = s mod 86400
      in pad_int 4 y @ ''-'' @ pad_int 2 m @ ''-'' @ pad_int 2 d @ ''T'' @
         pad_int 2 (r div 3600) @ '':'' @ pad_int 2 (r div 60 mod 60) @ '':'' @ pad_int 2 (r mod 60) @
         frac_nano (nat (t mod nanos)) @ ''Z'')"

subsection \<open>SHA-256\<close>

type_synonym w32 = "32 word"

text \<open>The round constants and the initial hash value, as decimal numbers.\<close>

definition sha_k :: "w32 list" where
  "sha_k = [
    1116352408, 1899447441, 3049323471, 3921009573, 961987163, 1508970993, 2453635748, 2870763221,
    3624381080, 310598401, 607225278, 1426881987, 1925078388, 2162078206, 2614888103, 3248222580,
    3835390401, 4022224774, 264347078, 604807628, 770255983, 1249150122, 1555081692, 1996064986,
    2554220882, 2821834349, 2952996808, 3210313671, 3336571891, 3584528711, 113926993, 338241895,
    666307205, 773529912, 1294757372, 1396182291, 1695183700, 1986661051, 2177026350, 2456956037,
    2730485921, 2820302411, 3259730800, 3345764771, 3516065817, 3600352804, 4094571909, 275423344,
    430227734, 506948616, 659060556, 883997877, 958139571, 1322822218, 1537002063, 1747873779,
    1955562222, 2024104815, 2227730452, 2361852424, 2428436474, 2756734187, 3204031479, 3329325298]"

definition sha_init :: "w32 list" where
  "sha_init = [
    1779033703, 3144134277, 1013904242, 2773480762, 1359893119, 2600822924, 528734635, 1541459225]"

definition rotr :: "nat \<Rightarrow> w32 \<Rightarrow> w32" where
  "rotr n x = drop_bit n x OR push_bit (32 - n) x"

definition be32 :: "nat list \<Rightarrow> w32" where
  "be32 bs = of_nat (foldl (\<lambda>a b. 256 * a + b) 0 bs)"

fun sha_schedule :: "nat \<Rightarrow> w32 list \<Rightarrow> w32 list" where
  "sha_schedule 0 ws = ws"
| "sha_schedule (Suc n) ws =
     (let i = length ws; a = ws ! (i - 15); b = ws ! (i - 2);
          s0 = rotr 7 a XOR rotr 18 a XOR drop_bit 3 a;
          s1 = rotr 17 b XOR rotr 19 b XOR drop_bit 10 b
      in sha_schedule n (ws @ [ws ! (i - 16) + s0 + ws ! (i - 7) + s1]))"

fun sha_round :: "w32 list \<Rightarrow> w32 \<times> w32 \<Rightarrow> w32 list" where
  "sha_round [a, b, c, d, e, f, g, h] (k, w) =
     (let t1 = h + (rotr 6 e XOR rotr 11 e XOR rotr 25 e) + ((e AND f) XOR (NOT e AND g)) + k + w;
          t2 = (rotr 2 a XOR rotr 13 a XOR rotr 22 a) + ((a AND b) XOR (a AND c) XOR (b AND c))
      in [t1 + t2, a, b, c, d + t1, e, f, g])"
| "sha_round st _ = st"

definition sha_block :: "w32 list \<Rightarrow> nat list \<Rightarrow> w32 list" where
  "sha_block h block =
     (let ws = sha_schedule 48 (map (\<lambda>i. be32 (take 4 (drop (4 * i) block))) [0..<16])
      in map2 (+) h (foldl sha_round h (zip sha_k ws)))"

fun bytes_be :: "nat \<Rightarrow> nat \<Rightarrow> nat list" where
  "bytes_be 0 n = []"
| "bytes_be (Suc k) n = bytes_be k (n div 256) @ [n mod 256]"

definition sha_pad :: "nat list \<Rightarrow> nat list" where
  "sha_pad m = m @ [128] @ replicate ((119 - length m mod 64) mod 64) 0 @ bytes_be 8 (8 * length m)"

fun sha_blocks :: "nat \<Rightarrow> w32 list \<Rightarrow> nat list \<Rightarrow> w32 list" where
  "sha_blocks 0 h m = h"
| "sha_blocks (Suc n) h m = sha_blocks n (sha_block h (take 64 m)) (drop 64 m)"

definition hex_char :: "nat \<Rightarrow> char" where
  "hex_char d = (if d < 10 then char_of (48 + d) else char_of (87 + d))"

definition hex_encode :: "nat list \<Rightarrow> string" where
  "hex_encode bs = concat (map (\<lambda>b. [hex_char (b div 16), hex_char (b mod 16)]) bs)"

definition sha256_bytes :: "nat list \<Rightarrow> nat list" where
  "sha256_bytes m = (let p = sha_pad m in
     concat (map (\<lambda>w. bytes_be 4 (unat w)) (sha_blocks (length p div 64) sha_init p)))"

text \<open>\<^verbatim>\<open>sum := sha256.Sum256([]byte(s)); hex.EncodeToString(sum[:])\<close>\<close>

definition sha256_hex :: "string \<Rightarrow> string" where
  "sha256_hex s = hex_encode (sha256_bytes (map of_char s))"

subsection \<open>Bit patterns\<close>

text \<open>\<^verbatim>\<open>math.Float64bits\<close>; \<^verbatim>\<open>math.NaN()\<close> has the pattern of the first equation.\<close>

fun float64_bits :: "f64 \<Rightarrow> nat" where
  "float64_bits NaN = 9221120237041090561"
| "float64_bits PInf = 2047 * 2 ^ 52"
| "float64_bits NInf = 4095 * 2 ^ 52"
| "float64_bits NZero = 2 ^ 63"
| "float64_bits (Fin q) =
     (if q = 0 then 0
      else (if q < 0 then 2 ^ 63 else 0) +
        (let m = \<bar>q\<bar>; e = ilog2 m in
         if e < - 1022 then nat \<lfloor>m * 2 ^ 1074\<rfloor>
         else nat (e + 1023) * 2 ^ 52 + (nat \<lfloor>m * 2 powi (52 - e)\<rfloor> - 2 ^ 52)))"

text \<open>\<^verbatim>\<open>binary.BigEndian.PutUint64\<close>\<close>

definition put_uint64 :: "nat \<Rightarrow> nat list" where
  "put_uint64 n = bytes_be 8 n"

text \<open>The byte order of strings.\<close>

fun str_lt :: "string \<Rightarrow> string \<Rightarrow> bool" where
  "str_lt _ [] = False"
| "str_lt [] (y # ys) = True"
| "str_lt (x # xs) (y # ys) = ((of_char x :: nat) < of_char y \<or> (x = y \<and> str_lt xs ys))"

subsection \<open>Binary search\<close>

text \<open>
  \<^verbatim>\<open>sort.Search(n, f)\<close>: \<^verbatim>\<open>i, j := 0, n; for i < j { h := (i+j)/2; if !f(h) { i = h+1 } else
  { j = h } }; return i\<close>
\<close>

function search_loop :: "(nat \<Rightarrow> bool) \<Rightarrow> nat \<Rightarrow> nat \<Rightarrow> nat" where
  "search_loop f i j =
     (if i < j then (let h = (i + j) div 2 in
        if \<not> f h then search_loop f (h + 1) j else search_loop f i h)
      else i)"
  by pat_completeness auto
termination
  by (relation "measure (\<lambda>(f, i, j). j - i)") auto

declare search_loop.simps [simp del]

definition sort_search :: "nat \<Rightarrow> (nat \<Rightarrow> bool) \<Rightarrow> nat" where
  "sort_search n f = search_loop f 0 n"

text \<open>On a monotone predicate the result is the least index where it holds.\<close>

lemma search_loop_spec:
  assumes "i \<le> j"
    and "\<And>a b. a \<le> b \<Longrightarrow> f a \<Longrightarrow> f b"
    and "\<And>k. k < i \<Longrightarrow> \<not> f k" and "\<And>k. j \<le> k \<Longrightarrow> k < n \<Longrightarrow> f k" and "j \<le> n"
  shows "search_loop f i j \<le> n \<and> (\<forall>k < search_loop f i j. \<not> f k) \<and>
     (\<forall>k. search_loop f i j \<le> k \<longrightarrow> k < n \<longrightarrow> f k)"
  using assms
proof (induction f i j rule: search_loop.induct)
  case (1 f i j)
  define h where "h = (i + j) div 2"
  show ?case
  proof (cases "i < j")
    case False
    then have "search_loop f i j = i" by (simp add: search_loop.simps [of f i j])
    with False "1.prems" show ?thesis by (metis le_less_trans nat_less_le not_less)
  next
    case True
    then have h: "i \<le> h" "h < j" by (auto simp: h_def)
    show ?thesis
    proof (cases "f h")
      case fh: True
      then have "\<And>k. h \<le> k \<Longrightarrow> k < n \<Longrightarrow> f k" using "1.prems"(2) by blast
      with "1.IH"(2) [OF True h_def] fh h "1.prems" show ?thesis
        by (simp add: search_loop.simps [of f i j] h_def [symmetric] True Let_def)
    next
      case fh: False
      then have "\<And>k. k < h + 1 \<Longrightarrow> \<not> f k" using "1.prems"(2) by (metis less_Suc_eq_le Suc_eq_plus1)
      with "1.IH"(1) [OF True h_def] fh h "1.prems" show ?thesis
        by (simp add: search_loop.simps [of f i j] h_def [symmetric] True Let_def)
    qed
  qed
qed

subsection \<open>Decimal round trip\<close>

lemma digit_char_digit: "d < 10 \<Longrightarrow> is_digit (digit_char d) \<and> (of_char (digit_char d) :: nat) = 48 + d"
  by (simp add: is_digit_def digit_char_def of_char_of take_bit_nat_eq_self)

lemma parse_digits_snoc:
  "parse_digits acc (cs @ [digit_char d]) = map_option (\<lambda>n. 10 * n + d) (parse_digits acc cs)" if "d < 10"
  using digit_char_digit [OF that] by (induction cs arbitrary: acc) auto

lemma parse_dec_digits: "parse_digits 0 (dec_digits n) = Some n"
proof (induction n rule: dec_digits.induct)
  case (1 n)
  show ?case
  proof (cases "n < 10")
    case True
    then show ?thesis using digit_char_digit [OF True] by (simp add: dec_digits.simps)
  next
    case False
    have "digit_char n = digit_char (n mod 10)" by (simp add: digit_char_def)
    with False 1 parse_digits_snoc [of "n mod 10" 0 "dec_digits (n div 10)"] show ?thesis
      by (simp add: dec_digits.simps [of n])
  qed
qed

lemma dec_digits_hd: "dec_digits n \<noteq> [] \<and> is_digit (hd (dec_digits n))"
proof (induction n rule: dec_digits.induct)
  case (1 n)
  then show ?case using digit_char_digit [of n] by (cases "n < 10") (simp_all add: dec_digits.simps [of n])
qed

lemma not_digit_sign: "is_digit c \<Longrightarrow> c \<noteq> CHR ''-'' \<and> c \<noteq> CHR ''+''"
  by (auto simp: is_digit_def)

lemma atoi_itoa: "0 \<le> n \<Longrightarrow> n < 2 ^ 63 \<Longrightarrow> atoi (itoa n) = Some n"
  using dec_digits_hd [of "nat n"] not_digit_sign
  by (auto simp: atoi_def itoa_def Let_def parse_dec_digits)

end

