(* ===== verification/GoStrings.thy ===== *)
theory GoStrings
  imports GoStd
begin

text \<open>
  The functions of \<^verbatim>\<open>strings\<close>, \<^verbatim>\<open>strconv\<close>, \<^verbatim>\<open>time\<close>, \<^verbatim>\<open>encoding/base64\<close> and \<^verbatim>\<open>hash/fnv\<close> that the
  configuration, the API and the broker use. A string is its sequence of bytes.
\<close>

unbundle bit_operations_syntax

subsection \<open>White space\<close>

text \<open>The UTF-8 encodings of the code points for which \<^verbatim>\<open>unicode.IsSpace\<close> holds.\<close>

definition space_encodings :: "string list" where
  "space_encodings =
     [[CHR 0x09], [CHR 0x0A], [CHR 0x0B], [CHR 0x0C], [CHR 0x0D], [CHR 0x20], [CHR 0xC2, CHR 0x85],
      [CHR 0xC2, CHR 0xA0], [CHR 0xE1, CHR 0x9A, CHR 0x80], [CHR 0xE2, CHR 0x80, CHR 0x80],
      [CHR 0xE2, CHR 0x80, CHR 0x81], [CHR 0xE2, CHR 0x80, CHR 0x82], [CHR 0xE2, CHR 0x80, CHR 0x83],
      [CHR 0xE2, CHR 0x80, CHR 0x84], [CHR 0xE2, CHR 0x80, CHR 0x85], [CHR 0xE2, CHR 0x80, CHR 0x86],
      [CHR 0xE2, CHR 0x80, CHR 0x87], [CHR 0xE2, CHR 0x80, CHR 0x88], [CHR 0xE2, CHR 0x80, CHR 0x89],
      [CHR 0xE2, CHR 0x80, CHR 0x8A], [CHR 0xE2, CHR 0x80, CHR 0xA8], [CHR 0xE2, CHR 0x80, CHR 0xA9],
      [CHR 0xE2, CHR 0x80, CHR 0xAF], [CHR 0xE2, CHR 0x81, CHR 0x9F], [CHR 0xE3, CHR 0x80, CHR 0x80]]"

definition starts_with_space :: "string \<Rightarrow> string option" where
  "starts_with_space s = find (has_prefix s) space_encodings"

lemma space_encodings_nonempty: "e \<in> set space_encodings \<Longrightarrow> e \<noteq> []"
  by (auto simp: space_encodings_def)

lemma starts_with_space_some:
  assumes "starts_with_space s = Some e"
  shows "e \<noteq> [] \<and> s = e @ drop (length e) s"
proof -
  have "e \<in> set space_encodings" "has_prefix s e"
    using assms by (auto simp: starts_with_space_def find_Some_iff)
  then show ?thesis using space_encodings_nonempty append_take_drop_id [of "length e" s] by (auto simp: has_prefix_def)
qed

function trim_left :: "string \<Rightarrow> string" where
  "trim_left s = (case starts_with_space s of None \<Rightarrow> s | Some e \<Rightarrow> trim_left (drop (length e) s))"
  by auto

termination
proof (relation "measure length")
  fix s e assume "starts_with_space s = Some e"
  then have "e \<noteq> []" "s = e @ drop (length e) s" using starts_with_space_some by blast+
  then have "s \<noteq> []" "0 < length e" by auto
  then show "(drop (length e) s, s) \<in> measure length" by (simp add: length_greater_0_conv)
qed simp

declare trim_left.simps [simp del]

text \<open>From the right, the encodings are matched reversed.\<close>

definition ends_with_space :: "string \<Rightarrow> string option" where
  "ends_with_space s = find (\<lambda>e. has_prefix (rev s) (rev e)) space_encodings"

lemma ends_with_space_some:
  assumes "ends_with_space s = Some e"
  shows "e \<in> set space_encodings \<and> s = take (length s - length e) s @ e"
proof -
  have e: "e \<in> set space_encodings" "take (length e) (rev s) = rev e"
    using assms by (auto simp: ends_with_space_def find_Some_iff has_prefix_def)
  then have "drop (length s - length e) s = e" by (metis rev_drop rev_rev_ident take_rev)
  with e(1) show ?thesis by (metis append_take_drop_id)
qed

function trim_right :: "string \<Rightarrow> string" where
  "trim_right s = (case ends_with_space s of None \<Rightarrow> s | Some e \<Rightarrow> trim_right (take (length s - length e) s))"
  by auto

termination
proof (relation "measure length")
  fix s e assume "ends_with_space s = Some e"
  then have "e \<noteq> []" "s = take (length s - length e) s @ e" using ends_with_space_some space_encodings_nonempty by blast+
  then have "0 < length e" "length s = length (take (length s - length e) s) + length e" by (simp, metis length_append)
  then show "(take (length s - length e) s, s) \<in> measure length" by (simp del: length_greater_0_conv)
qed simp

declare trim_right.simps [simp del]

definition trim_space :: "string \<Rightarrow> string" where
  "trim_space s = trim_right (trim_left s)"

text \<open>What does not begin with white space is not trimmed to nothing.\<close>

lemma has_prefix_append: "has_prefix s p \<Longrightarrow> has_prefix (s @ t) p"
  by (metis append.assoc append_eq_conv_conj has_prefix_def append_take_drop_id)

lemma starts_with_space_mono: "starts_with_space s \<noteq> None \<Longrightarrow> starts_with_space (s @ t) \<noteq> None"
  by (auto simp: starts_with_space_def find_None_iff has_prefix_append)

lemma trim_right_starts: "trim_right s = [] \<Longrightarrow> s \<noteq> [] \<Longrightarrow> starts_with_space s \<noteq> None"
proof (induction s rule: trim_right.induct)
  case (1 s)
  then obtain e where e: "ends_with_space s = Some e" by (cases "ends_with_space s") (auto simp: trim_right.simps)
  let ?t = "take (length s - length e) s"
  have s: "e \<in> set space_encodings" "s = ?t @ e" using ends_with_space_some [OF e] by blast+
  have t: "trim_right ?t = []" using 1(2) e by (subst (asm) trim_right.simps) simp
  show ?case
  proof (cases "?t = []")
    case True
    then have "s = e" using s(2) by (metis append_Nil)
    then show ?thesis using s(1) by (auto simp: starts_with_space_def find_None_iff has_prefix_def)
  next
    case False
    then show ?thesis using 1(1) [OF e t] starts_with_space_mono [of ?t e] s(2) by metis
  qed
qed

lemma trim_left_starts: "starts_with_space (trim_left s) = None"
  by (induction s rule: trim_left.induct) (subst trim_left.simps, simp split: option.split)

lemma trim_left_id: "starts_with_space s = None \<Longrightarrow> trim_left s = s"
  by (simp add: trim_left.simps)

lemma trim_right_prefix: "\<exists>t. s = trim_right s @ t"
proof (induction s rule: trim_right.induct)
  case (1 s)
  show ?case
  proof (cases "ends_with_space s")
    case None
    then show ?thesis by (simp add: trim_right.simps)
  next
    case (Some e)
    then obtain t where "take (length s - length e) s = trim_right (take (length s - length e) s) @ t" using 1 by blast
    then have "s = trim_right (take (length s - length e) s) @ (t @ e)" using ends_with_space_some [OF Some] by (metis append_assoc)
    then show ?thesis using Some by (subst trim_right.simps) auto
  qed
qed

lemma trim_space_starts: "starts_with_space (trim_space s) = None"
proof -
  obtain t where "trim_left s = trim_space s @ t" using trim_right_prefix [of "trim_left s"] by (auto simp: trim_space_def)
  then show ?thesis using trim_left_starts [of s] starts_with_space_mono [of "trim_space s" t] by force
qed

lemma trim_space_nonempty: "s \<noteq> [] \<Longrightarrow> starts_with_space s = None \<Longrightarrow> trim_space s \<noteq> []"
  using trim_right_starts [of s] by (auto simp: trim_space_def trim_left_id)

lemma trim_right_ends: "ends_with_space (trim_right s) = None"
  by (induction s rule: trim_right.induct) (subst trim_right.simps, simp split: option.split)

lemma trim_space_idem [simp]: "trim_space (trim_space s) = trim_space s"
proof -
  have "trim_left (trim_space s) = trim_space s" by (rule trim_left_id [OF trim_space_starts])
  moreover have "ends_with_space (trim_space s) = None" unfolding trim_space_def by (rule trim_right_ends)
  ultimately show ?thesis by (subst trim_space_def) (simp add: trim_right.simps)
qed

subsection \<open>Splitting\<close>

text \<open>\<^verbatim>\<open>strings.Split(s, sep)\<close> for a separator of one byte.\<close>

fun split_on :: "char \<Rightarrow> string \<Rightarrow> string list" where
  "split_on sep [] = [[]]"
| "split_on sep (c # cs) = (if c = sep then [] # split_on sep cs
     else (case split_on sep cs of [] \<Rightarrow> [[c]] | p # ps \<Rightarrow> (c # p) # ps))"

text \<open>\<^verbatim>\<open>strings.LastIndexByte\<close>, -1 when the byte is absent.\<close>

definition last_index :: "string \<Rightarrow> char \<Rightarrow> int" where
  "last_index s c = foldl (\<lambda>found (i, d). if d = c then int i else found) (-1) (List.enumerate 0 s)"

lemma last_index_snoc: "last_index (s @ [d]) c = (if d = c then int (length s) else last_index s c)"
  by (simp add: last_index_def enumerate_append_eq)

lemma last_index_bounds: "-1 \<le> last_index s c \<and> last_index s c < int (length s)"
proof (induction s rule: rev_induct)
  case Nil
  then show ?case by (simp add: last_index_def)
next
  case (snoc d s)
  then show ?case by (auto simp: last_index_snoc)
qed

text \<open>
  \<^verbatim>\<open>strings.ToLower\<close>, as far as it can produce ASCII text: the capital letters, the dotted capital I
  (which becomes i) and the Kelvin sign; other code points stay outside ASCII.
\<close>

fun to_lower :: "string \<Rightarrow> string" where
  "to_lower [] = []"
| "to_lower (c # cs) =
     (if has_prefix (c # cs) [CHR 0xC4, CHR 0xB0] then CHR ''i'' # to_lower (drop 1 cs)
      else if has_prefix (c # cs) [CHR 0xE2, CHR 0x84, CHR 0xAA] then CHR ''k'' # to_lower (drop 2 cs)
      else (if 65 \<le> (of_char c :: nat) \<and> of_char c \<le> (90 :: nat) then char_of (of_char c + 32 :: nat) else c) # to_lower cs)"

subsection \<open>Booleans and durations\<close>

definition parse_bool :: "string \<Rightarrow> bool option" where
  "parse_bool s =
     (if s \<in> set [''1'', ''t'', ''T'', ''TRUE'', ''true'', ''True''] then Some True
      else if s \<in> set [''0'', ''f'', ''F'', ''FALSE'', ''false'', ''False''] then Some False else None)"

lemma parse_bool_format: "parse_bool (format_bool b) = Some b"
  by (simp add: parse_bool_def format_bool_def)

text \<open>\<^verbatim>\<open>leadingInt\<close>: the digits in front, an error beyond \<^verbatim>\<open>1<<63\<close>.\<close>

definition leading_int :: "string \<Rightarrow> (nat \<times> string) option" where
  "leading_int s = (let ds = takeWhile is_digit s in
     case parse_digits 0 ds of
       None \<Rightarrow> None
     | Some v \<Rightarrow> if 2 ^ 63 < v then None else Some (v, dropWhile is_digit s))"

text \<open>\<^verbatim>\<open>leadingFraction\<close>: digits are read while the number stays within \<^verbatim>\<open>1<<63\<close>, the rest skipped.\<close>

fun leading_fraction :: "nat \<Rightarrow> f64 \<Rightarrow> bool \<Rightarrow> string \<Rightarrow> nat \<times> f64 \<times> string" where
  "leading_fraction x scale overflow [] = (x, scale, [])"
| "leading_fraction x scale overflow (c # cs) =
     (if \<not> is_digit c then (x, scale, c # cs)
      else if overflow then leading_fraction x scale True cs
      else if (2 ^ 63 - 1) div 10 < x then leading_fraction x scale True cs
      else let y = 10 * x + (of_char c - 48) in
        if 2 ^ 63 < y then leading_fraction x scale True cs
        else leading_fraction y (scale * lit 10) False cs)"

definition duration_unit :: "string \<Rightarrow> nat option" where
  "duration_unit u =
     (if u = ''ns'' then Some 1
      else if u \<in> set [''us'', CHR 0xC2 # CHR 0xB5 # ''s'', CHR 0xCE # CHR 0xBC # ''s''] then Some 1000
      else if u = ''ms'' then Some (10 ^ 6)
      else if u = ''s'' then Some (10 ^ 9)
      else if u = ''m'' then Some (60 * 10 ^ 9)
      else if u = ''h'' then Some (3600 * 10 ^ 9) else None)"

text \<open>One component, a number with its unit, and what follows it.\<close>

definition duration_part :: "string \<Rightarrow> (nat \<times> string) option" where
  "duration_part s =
     (if s = [] \<or> \<not> (hd s = CHR ''.'' \<or> is_digit (hd s)) then None
      else case leading_int s of
          None \<Rightarrow> None
        | Some (v, s1) \<Rightarrow>
            (let pre = (s1 \<noteq> s);
                 (f, scale, s2) = (if s1 \<noteq> [] \<and> hd s1 = CHR ''.'' then leading_fraction 0 1 False (tl s1) else (0, 1, s1));
                 post = (s1 \<noteq> [] \<and> hd s1 = CHR ''.'' \<and> s2 \<noteq> tl s1);
                 u = takeWhile (\<lambda>c. c \<noteq> CHR ''.'' \<and> \<not> is_digit c) s2;
                 rest = dropWhile (\<lambda>c. c \<noteq> CHR ''.'' \<and> \<not> is_digit c) s2
             in if \<not> pre \<and> \<not> post then None
                else if u = [] then None
                else case duration_unit u of
                    None \<Rightarrow> None
                  | Some unit \<Rightarrow>
                      if 2 ^ 63 div unit < v then None
                      else let w = v * unit + (if 0 < f then nat \<lfloor>fval (of_int64 (int f) * (of_int64 (int unit) / scale))\<rfloor> else 0)
                        in if 2 ^ 63 < w then None else Some (w, rest)))"

lemma duration_part_shorter:
  assumes "duration_part s = Some (w, rest)"
  shows "length rest < length s"
proof -
  define frac where "frac s1 = (if s1 \<noteq> [] \<and> hd s1 = CHR ''.'' then leading_fraction 0 1 False (tl s1) else (0, 1, s1))" for s1
  have lf: "length (snd (snd (leading_fraction x sc ov t))) \<le> length t" for x sc ov t
    by (induction x sc ov t rule: leading_fraction.induct) (auto simp: Let_def le_SucI)
  obtain v s1 where 1: "leading_int s = Some (v, s1)" using assms by (auto simp: duration_part_def split: if_splits option.splits)
  then have l1: "length s1 \<le> length s"
    by (auto simp: leading_int_def Let_def length_dropWhile_le split: option.splits if_splits)
  obtain f scale s2 where 2: "frac s1 = (f, scale, s2)" by (rule prod_cases3)
  have l2: "length s2 \<le> length s1" using 2 lf [of 0 1 False "tl s1"] by (auto simp: frac_def split: if_splits)
  have "takeWhile (\<lambda>c. c \<noteq> CHR ''.'' \<and> \<not> is_digit c) s2 \<noteq> []" "rest = dropWhile (\<lambda>c. c \<noteq> CHR ''.'' \<and> \<not> is_digit c) s2"
    using assms 1 2 unfolding duration_part_def frac_def [symmetric] by (auto simp: Let_def frac_def split: if_splits option.splits)
  then have "length rest < length s2"
    by (metis append_self_conv2 le_neq_implies_less length_append length_dropWhile_le nat_less_le append_same_eq takeWhile_dropWhile_id same_append_eq length_0_conv add_eq_self_zero add.commute)
  with l1 l2 show ?thesis by simp
qed

function duration_sum :: "nat \<Rightarrow> string \<Rightarrow> nat option" where
  "duration_sum d s =
     (if s = [] then Some d
      else case duration_part s of
          None \<Rightarrow> None
        | Some (w, rest) \<Rightarrow> if 2 ^ 63 < d + w then None else duration_sum (d + w) rest)"
  by auto

termination
  by (relation "measure (length \<circ> snd)") (auto simp: duration_part_shorter)

declare duration_sum.simps [simp del]

text \<open>\<^verbatim>\<open>time.ParseDuration\<close>, in nanoseconds.\<close>

definition parse_duration :: "string \<Rightarrow> int option" where
  "parse_duration s0 =
     (let neg = (s0 \<noteq> [] \<and> hd s0 = CHR ''-'');
          s = (if s0 \<noteq> [] \<and> (hd s0 = CHR ''-'' \<or> hd s0 = CHR ''+'') then tl s0 else s0)
      in if s = ''0'' then Some 0
         else if s = [] then None
         else case duration_sum 0 s of
             None \<Rightarrow> None
           | Some d \<Rightarrow> if neg then Some (- int d) else if 2 ^ 63 - 1 < d then None else Some (int d))"

lemma parse_duration_range: "parse_duration s = Some d \<Longrightarrow> d < 2 ^ 63"
  by (auto simp: parse_duration_def Let_def of_nat_less_iff split: if_splits option.splits)

subsection \<open>Encodings\<close>

definition base64_alphabet :: string where
  "base64_alphabet = ''ABCDEFGHIJKLMNOPQRSTUVWXYZabcdefghijklmnopqrstuvwxyz0123456789-_''"

text \<open>\<^verbatim>\<open>base64.RawURLEncoding.EncodeToString\<close>\<close>

fun base64_chunks :: "nat list \<Rightarrow> nat list" where
  "base64_chunks [] = []"
| "base64_chunks [a] = [a div 4, (a mod 4) * 16]"
| "base64_chunks [a, b] = [a div 4, (a mod 4) * 16 + b div 16, (b mod 16) * 4]"
| "base64_chunks (a # b # c # rest) =
     [a div 4, (a mod 4) * 16 + b div 16, (b mod 16) * 4 + c div 64, c mod 64] @ base64_chunks rest"

definition base64_encode :: "string \<Rightarrow> string" where
  "base64_encode s = map (\<lambda>v. base64_alphabet ! v) (base64_chunks (map of_char s))"

text \<open>\<^verbatim>\<open>base64.RawURLEncoding.DecodeString\<close>: line breaks are skipped, the unused bits of the last
  digit are ignored.\<close>

fun base64_bytes :: "nat list \<Rightarrow> nat list option" where
  "base64_bytes [] = Some []"
| "base64_bytes [v] = None"
| "base64_bytes [v, w] = Some [v * 4 + w div 16]"
| "base64_bytes [v, w, x] = Some [v * 4 + w div 16, (w mod 16) * 16 + x div 4]"
| "base64_bytes (v # w # x # y # rest) =
     map_option (\<lambda>bs. [v * 4 + w div 16, (w mod 16) * 16 + x div 4, (x mod 4) * 64 + y] @ bs) (base64_bytes rest)"

definition base64_value :: "char \<Rightarrow> nat option" where
  "base64_value c = map_option fst (find (\<lambda>(i, d). d = c) (List.enumerate 0 base64_alphabet))"

definition byte_string :: "nat list \<Rightarrow> string" where
  "byte_string bs = map char_of bs"

definition base64_decode :: "string \<Rightarrow> string option" where
  "base64_decode s =
     (case those (map base64_value (filter (\<lambda>c. c \<noteq> CHR 0x0A \<and> c \<noteq> CHR 0x0D) s)) of
        None \<Rightarrow> None
      | Some vs \<Rightarrow> map_option byte_string (base64_bytes vs))"

lemma base64_bytes_chunks: "list_all (\<lambda>b. b < 256) bs \<Longrightarrow> base64_bytes (base64_chunks bs) = Some bs"
proof (induction bs rule: base64_chunks.induct)
  case (4 a b c rest)
  have "b mod 16 * 4 + c div 64 < 64" "b div 16 < 16" "c div 64 < 4" using 4(2) by auto
  then have "a div 4 * 4 + ((a mod 4) * 16 + b div 16) div 16 = a"
    "((a mod 4) * 16 + b div 16) mod 16 * 16 + ((b mod 16) * 4 + c div 64) div 4 = b"
    "((b mod 16) * 4 + c div 64) mod 4 * 64 + c mod 64 = c"
    by simp_all
  with 4 show ?case by simp
qed auto

lemma base64_chunks_range: "list_all (\<lambda>b. b < 256) bs \<Longrightarrow> list_all (\<lambda>v. v < 64) (base64_chunks bs)"
  by (induction bs rule: base64_chunks.induct) auto

lemma base64_value_alphabet: "v < 64 \<Longrightarrow> base64_value (base64_alphabet ! v) = Some v"
proof -
  have "list_all (\<lambda>v. base64_value (base64_alphabet ! v) = Some v) [0..<64]" by code_simp
  then show "v < 64 \<Longrightarrow> base64_value (base64_alphabet ! v) = Some v" by (auto simp: list_all_iff)
qed

lemma base64_alphabet_line: "v < 64 \<Longrightarrow> base64_alphabet ! v \<noteq> CHR 0x0A \<and> base64_alphabet ! v \<noteq> CHR 0x0D"
proof -
  have "list_all (\<lambda>c. c \<noteq> CHR 0x0A \<and> c \<noteq> CHR 0x0D) base64_alphabet" "length base64_alphabet = 64" by code_simp+
  then show "v < 64 \<Longrightarrow> base64_alphabet ! v \<noteq> CHR 0x0A \<and> base64_alphabet ! v \<noteq> CHR 0x0D" by (simp add: list_all_length)
qed

lemma those_map_some: "\<forall>x \<in> set xs. f x = Some (g x) \<Longrightarrow> those (map f xs) = Some (map g xs)"
  by (induction xs) auto

lemma base64_roundtrip: "base64_decode (base64_encode s) = Some s"
proof -
  let ?bs = "map of_char s :: nat list"
  have "of_char c < (256 :: nat)" for c by (metis mod_less_divisor of_char_mod_256 zero_less_numeral)
  then have b: "list_all (\<lambda>b. b < 256) ?bs" by (simp add: list_all_iff)
  note v = base64_chunks_range [OF b]
  then have "filter (\<lambda>c. c \<noteq> CHR 0x0A \<and> c \<noteq> CHR 0x0D) (base64_encode s) = base64_encode s"
    using base64_alphabet_line by (auto simp: base64_encode_def list_all_iff filter_id_conv)
  moreover have "those (map base64_value (base64_encode s)) = Some (map id (base64_chunks ?bs))"
    using v base64_value_alphabet unfolding base64_encode_def map_map
    by (intro those_map_some) (simp add: list_all_iff)
  ultimately show ?thesis
    using base64_bytes_chunks [OF b] by (simp add: base64_decode_def byte_string_def)
qed

text \<open>\<^verbatim>\<open>fnv.New32a\<close>\<close>

definition fnv32a :: "string \<Rightarrow> 32 word" where
  "fnv32a s = foldl (\<lambda>h c. (h XOR of_nat (of_char c)) * 16777619) 2166136261 s"

end
