(* ===== verification/Model.thy ===== *)
theory Model
  imports GoStd
begin

text \<open>
  The data of \<^verbatim>\<open>internal/model\<close> (\<^verbatim>\<open>bar.go\<close>, \<^verbatim>\<open>market.go\<close>, \<^verbatim>\<open>signal.go\<close>,
  \<^verbatim>\<open>timeframe.go\<close>): one record per struct, with the struct's fields behind a prefix. A pointer
  that may be nil is an option, a slice is a list (nil and empty are not distinguished), a
  \<^verbatim>\<open>uint64\<close> is a 64-bit word. The two documents that reducers marshal into
  \<^verbatim>\<open>ReducerSnapshot.State\<close> are given here too, because the byte slice is represented by the
  document it encodes.
\<close>

subsection \<open>Bars and series\<close>

record Bar =
  bar_Symbol :: string
  bar_Timeframe :: string
  bar_OpenTime :: time
  bar_Open :: f64
  bar_High :: f64
  bar_Low :: f64
  bar_Close :: f64
  bar_Volume :: f64
  bar_Trades :: uint64
  bar_Closed :: bool

record SeriesKey =
  key_Dataset :: string
  key_Symbol :: string
  key_Timeframe :: string

definition SeriesKey_String :: "SeriesKey \<Rightarrow> string" where
  "SeriesKey_String k = key_Dataset k @ ''|'' @ key_Symbol k @ ''|'' @ key_Timeframe k"

subsection \<open>Market state\<close>

record PriceZone =
  zone_ID :: string
  zone_Kind :: string
  zone_Side :: string
  zone_Grade :: string
  zone_FromTime :: time
  zone_ToTime :: time
  zone_Top :: f64
  zone_Bottom :: f64
  zone_State :: string

record ZoneTransition =
  zt_Zone :: PriceZone
  zt_Transition :: string
  zt_At :: time

record Swing =
  sw_Type :: string
  sw_Label :: string
  sw_Price :: f64
  sw_Time :: time
  sw_ConfirmTime :: time

record StructureEvent =
  se_Kind :: string
  se_Side :: string
  se_Price :: f64
  se_Time :: time
  se_Zone :: "PriceZone option"

record PriceLevel =
  lv_Kind :: string
  lv_Side :: string
  lv_Price :: f64
  lv_Touches :: int

record PatternEvent =
  pat_Kind :: string
  pat_Side :: string
  pat_Time :: time

record PremiumDiscount =
  pd_FromTime :: time
  pd_ToTime :: time
  pd_Trend :: string
  pd_High :: f64
  pd_Low :: f64
  pd_Equilibrium :: f64
  pd_POITop :: f64
  pd_POIBottom :: f64

record AlgorithmRef =
  alg_Name :: string
  alg_Version :: string
  alg_ConfigHash :: string

record MarketState =
  ms_Schema :: string
  ms_Algorithm :: AlgorithmRef
  ms_AsOf :: time
  ms_Trend :: string
  ms_Swings :: "Swing list"
  ms_Structure :: "StructureEvent list"
  ms_Ranges :: "PriceZone list"
  ms_KeyLevels :: "PriceLevel list"
  ms_FVGs :: "PriceZone list"
  ms_OrderBlocks :: "PriceZone list"
  ms_Liquidity :: "PriceLevel list"
  ms_LiquiditySweeps :: "PatternEvent list"
  ms_Patterns :: "PatternEvent list"
  ms_PatternOccurrences :: "PatternEvent list"
  ms_ZoneTransitions :: "ZoneTransition list"
  ms_PremiumDiscount :: "PremiumDiscount option"

text \<open>The zero value \<^verbatim>\<open>model.MarketState{}\<close>.\<close>

definition zero_MarketState :: MarketState where
  "zero_MarketState = \<lparr>ms_Schema = [], ms_Algorithm = \<lparr>alg_Name = [], alg_Version = [], alg_ConfigHash = []\<rparr>,
     ms_AsOf = zero_time, ms_Trend = [], ms_Swings = [], ms_Structure = [], ms_Ranges = [],
     ms_KeyLevels = [], ms_FVGs = [], ms_OrderBlocks = [], ms_Liquidity = [], ms_LiquiditySweeps = [],
     ms_Patterns = [], ms_PatternOccurrences = [], ms_ZoneTransitions = [], ms_PremiumDiscount = None\<rparr>"

subsection \<open>Signals\<close>

record IndicatorPayload =
  ip_Period :: int
  ip_Value :: f64
  ip_Samples :: uint64
  ip_Ready :: bool

record IndicatorState =
  is_Algorithm :: AlgorithmRef
  is_Period :: int
  is_Value :: "f64 option"
  is_Samples :: uint64
  is_Ready :: bool
  is_AnalysisRevision :: uint64

record SignalEvent =
  ev_Schema :: string
  ev_Cursor :: int
  ev_EventID :: string
  ev_EventType :: string
  ev_Dataset :: string
  ev_Symbol :: string
  ev_Timeframe :: string
  ev_BarOpenTime :: time
  ev_SourceBar :: "Bar option"
  ev_BarRevision :: uint64
  ev_AnalysisRevision :: uint64
  ev_Provisional :: bool
  ev_Reset :: bool
  ev_ResetHistory :: "Bar list"
  ev_Algorithm :: AlgorithmRef
  ev_Indicator :: "IndicatorPayload option"
  ev_Market :: "MarketState option"
  ev_Indicators :: "IndicatorState list"

record EMASnapshot =
  es_Period :: int
  es_Samples :: uint64
  es_SeedSum :: f64
  es_Value :: f64

record marketSnapshot =
  mks_Version :: string
  mks_Samples :: uint64
  mks_Bars :: "Bar list"

text \<open>
  A marshalled reducer state: one of the two documents the program writes, or bytes that
  \<^verbatim>\<open>json.Unmarshal\<close> rejects.
\<close>

datatype state_bytes = EMADoc EMASnapshot | MarketDoc marketSnapshot | Malformed

record ReducerSnapshot =
  rs_Algorithm :: AlgorithmRef
  rs_Period :: int
  rs_LastOpenTime :: time
  rs_State :: state_bytes

record SeriesRecovery =
  rec_Snapshots :: "ReducerSnapshot list"
  rec_CursorOpenTime :: time
  rec_CursorHash :: string
  rec_HasCursor :: bool

record SeriesSnapshot =
  ss_Schema :: string
  ss_Series :: SeriesKey
  ss_LastClosedTime :: "time option"
  ss_LastClosedBar :: "Bar option"
  ss_LastClosedRevision :: uint64
  ss_FormingOpenTime :: "time option"
  ss_FormingBar :: "Bar option"
  ss_FormingRevision :: uint64
  ss_Ready :: bool
  ss_Indicators :: "IndicatorState list"
  ss_Provisional :: "IndicatorState list"
  ss_Market :: "MarketState option"

subsection \<open>Timeframes\<close>

datatype timeframe_error = InvalidTimeframe string

definition second :: int where "second = nanos"
definition minute :: int where "minute = 60 * second"
definition hour :: int where "hour = 60 * minute"

text \<open>The product \<^verbatim>\<open>time.Duration(amount) * unit\<close> is taken in 64 bits.\<close>

definition TimeframeDuration :: "string \<Rightarrow> (timeframe_error, int) result" where
  "TimeframeDuration value =
     (if value = ''1d'' then Inr (24 * hour)
      else if value = ''1w'' then Inr (7 * 24 * hour)
      else if length value < 2 then Inl (InvalidTimeframe value)
      else case atoi (butlast value) of
          None \<Rightarrow> Inl (InvalidTimeframe value)
        | Some amount \<Rightarrow>
            if amount \<le> 0 then Inl (InvalidTimeframe value)
            else if last value = CHR ''s'' then Inr (wrap64 (amount * second))
            else if last value = CHR ''m'' then Inr (wrap64 (amount * minute))
            else if last value = CHR ''h'' then Inr (wrap64 (amount * hour))
            else Inl (InvalidTimeframe value))"

subsection \<open>Series identities\<close>

lemma split_at_sep_unique:
  assumes "a @ c # b = a' @ c # b'" and "c \<notin> set a" and "c \<notin> set a'"
  shows "a = a' \<and> b = b'"
  using assms
proof (induction a arbitrary: a')
  case Nil
  then show ?case by (cases a') auto
next
  case (Cons x a)
  then show ?case by (cases a') auto
qed

text \<open>
  Without the separator in its parts, \<^verbatim>\<open>SeriesKey.String\<close> identifies the series, even as the
  prefix of a longer storage key.
\<close>

definition key_plain :: "SeriesKey \<Rightarrow> bool" where
  "key_plain k \<longleftrightarrow> CHR ''|'' \<notin> set (key_Dataset k) \<and> CHR ''|'' \<notin> set (key_Symbol k) \<and>
     CHR ''|'' \<notin> set (key_Timeframe k)"

lemma SeriesKey_String_prefix_inj:
  assumes "key_plain k" and "key_plain k'"
    and "SeriesKey_String k @ ''|'' @ r = SeriesKey_String k' @ ''|'' @ r'"
  shows "k = k' \<and> r = r'"
proof -
  have 1: "key_Dataset k = key_Dataset k' \<and>
      key_Symbol k @ CHR ''|'' # key_Timeframe k @ CHR ''|'' # r =
      key_Symbol k' @ CHR ''|'' # key_Timeframe k' @ CHR ''|'' # r'"
    using assms by (intro split_at_sep_unique) (auto simp: SeriesKey_String_def key_plain_def)
  then have 2: "key_Symbol k = key_Symbol k' \<and>
      key_Timeframe k @ CHR ''|'' # r = key_Timeframe k' @ CHR ''|'' # r'"
    using assms by (intro split_at_sep_unique) (auto simp: key_plain_def)
  then have "key_Timeframe k = key_Timeframe k' \<and> r = r'"
    using assms by (intro split_at_sep_unique) (auto simp: key_plain_def)
  with 1 2 show ?thesis by (simp add: SeriesKey.equality)
qed

lemma SeriesKey_String_inj:
  "key_plain k \<Longrightarrow> key_plain k' \<Longrightarrow> SeriesKey_String k = SeriesKey_String k' \<Longrightarrow> k = k'"
  using SeriesKey_String_prefix_inj [of k k' "[]" "[]"] by simp

subsection \<open>Sample data\<close>

text \<open>Concrete values on which the development evaluates its definitions.\<close>

definition sample_key :: SeriesKey where
  "sample_key = \<lparr>key_Dataset = ''live'', key_Symbol = ''BTC'', key_Timeframe = ''1m''\<rparr>"

definition sample_bar :: "int \<Rightarrow> int \<Rightarrow> Bar" where
  "sample_bar t price = \<lparr>bar_Symbol = ''BTC'', bar_Timeframe = ''1m'', bar_OpenTime = t * minute,
     bar_Open = lit 4, bar_High = lit 9, bar_Low = lit 1, bar_Close = of_int64 price, bar_Volume = lit 1,
     bar_Trades = 0, bar_Closed = True\<rparr>"

definition sample_event :: "int \<Rightarrow> SignalEvent" where
  "sample_event cursor = \<lparr>ev_Schema = [], ev_Cursor = cursor, ev_EventID = [], ev_EventType = [], ev_Dataset = [],
     ev_Symbol = [], ev_Timeframe = [], ev_BarOpenTime = 0, ev_SourceBar = None, ev_BarRevision = 0,
     ev_AnalysisRevision = 0, ev_Provisional = False, ev_Reset = False, ev_ResetHistory = [],
     ev_Algorithm = \<lparr>alg_Name = [], alg_Version = [], alg_ConfigHash = []\<rparr>, ev_Indicator = None,
     ev_Market = None, ev_Indicators = []\<rparr>"

subsection \<open>Properties\<close>

lemma duration_units: "second = 10 ^ 9" "minute = 6 * 10 ^ 10" "hour = 36 * 10 ^ 11"
  by (simp_all add: second_def minute_def hour_def nanos_def)

lemma itoa_nonempty: "0 \<le> n \<Longrightarrow> itoa n \<noteq> []"
  using dec_digits_hd by (simp add: itoa_def)

text \<open>
  Timeframes round trip: a positive amount printed with the unit s, m or h is read back as that
  amount of seconds, minutes or hours, as long as the duration fits the 64 bits of a
  \<^verbatim>\<open>time.Duration\<close>.
\<close>

theorem timeframe_roundtrip:
  assumes "(unit, width) \<in> {(CHR ''s'', second), (CHR ''m'', minute), (CHR ''h'', hour)}"
    and "0 < n" and "n * width < 2 ^ 63"
  shows "TimeframeDuration (itoa n @ [unit]) = Inr (n * width)"
proof -
  have width: "1 \<le> width" using assms(1) by (auto simp: duration_units)
  then have "n * 1 \<le> n * width" using assms(2) by (intro mult_left_mono) auto
  then have n: "n < 2 ^ 63" using assms(3) by linarith
  have "itoa n @ [unit] \<noteq> ''1d''" "itoa n @ [unit] \<noteq> ''1w''" using assms(1) by auto
  moreover have "\<not> length (itoa n @ [unit]) < 2" using itoa_nonempty [of n] assms(2) by (cases "itoa n") auto
  moreover have "wrap64 (n * width) = n * width" using assms(2,3) width by (intro wrap64_id) (auto intro: order_trans [of _ 0])
  ultimately show ?thesis
    using assms(1,2) atoi_itoa [of n] n by (auto simp: TimeframeDuration_def)
qed

theorem timeframe_roundtrip_witness: "TimeframeDuration (itoa 15 @ [CHR ''m'']) = Inr (15 * minute)"
  by (rule timeframe_roundtrip) (simp_all add: duration_units)

text \<open>
  The product of amount and unit is taken in 64 bits: a timeframe whose duration does not fit is
  accepted with a negative duration instead of being rejected.
\<close>

theorem timeframe_overflow_accepted:
  "\<exists>d. TimeframeDuration ''2562048h'' = Inr d \<and> d < 0"
proof -
  have "atoi ''2562048'' = Some 2562048" by (simp add: atoi_def is_digit_def Let_def)
  then have "TimeframeDuration ''2562048h'' = Inr (wrap64 (2562048 * hour))"
    by (simp add: TimeframeDuration_def)
  moreover have "wrap64 (2562048 * hour) < 0" by code_simp
  ultimately show ?thesis by blast
qed

text \<open>
  Storage keys identify series: when no part of a series key contains the separator, the printed
  key determines the series, also when more text follows it after a separator (as in the keys of
  stored snapshots).
\<close>

theorem series_key_identifies:
  assumes "key_plain k" and "key_plain k'"
  shows "(SeriesKey_String k = SeriesKey_String k' \<longleftrightarrow> k = k') \<and>
    (SeriesKey_String k @ ''|'' @ r = SeriesKey_String k' @ ''|'' @ r' \<longleftrightarrow> k = k' \<and> r = r')"
  using SeriesKey_String_inj [OF assms] SeriesKey_String_prefix_inj [OF assms] by auto

theorem series_key_identifies_witness:
  "key_plain sample_key \<and> (SeriesKey_String sample_key @ ''|'' @ ''ema'' = SeriesKey_String sample_key @ ''|'' @ ''ema'')"
  using series_key_identifies [of sample_key sample_key "''ema''" "''ema''"] by (simp add: key_plain_def sample_key_def)

end
