(* ===== verification/EMA.thy ===== *)
theory EMA
  imports Model
begin

text \<open>
  \<^verbatim>\<open>internal/indicator/ema.go\<close>: the exponential moving average, seeded with the simple average
  of the first \<^verbatim>\<open>period\<close> closes. The reducer is a record that the methods take and return; the
  reference definition \<open>ema_of\<close> gives the state after a whole series of closes, and the lemmas
  relate the incremental reducer to it, to its projection and to its snapshots.
\<close>

definition EMAAlgorithmVersion :: string where
  "EMAAlgorithmVersion = ''1.0.0''"

record EMA =
  ema_period :: int
  ema_samples :: uint64
  ema_seedSum :: f64
  ema_value :: f64

datatype ema_error =
    EMAPeriodNotPositive
  | EMACloseNotFinite
  | EMAEncode
  | EMADecode
  | EMAPeriodMismatch int int
  | EMAValueBeforeReady
  | EMASnapshotNotFinite

definition NewEMA :: "int \<Rightarrow> (ema_error, EMA) result" where
  "NewEMA period =
     (if period < 1 then Inl EMAPeriodNotPositive
      else Inr \<lparr>ema_period = period, ema_samples = 0, ema_seedSum = 0, ema_value = 0\<rparr>)"

definition EMA_Ready :: "EMA \<Rightarrow> bool" where
  "EMA_Ready e \<longleftrightarrow> of_int (ema_period e) \<le> ema_samples e"

definition EMA_Value :: "EMA \<Rightarrow> f64 \<times> bool" where
  "EMA_Value e = (ema_value e, EMA_Ready e)"

text \<open>The method mutates its receiver: the second component is the receiver afterwards.\<close>

definition EMA_OnClosed :: "EMA \<Rightarrow> f64 \<Rightarrow> (ema_error, f64 \<times> bool) result \<times> EMA" where
  "EMA_OnClosed e0 close =
     (if isNaN close \<or> isInf close then (Inl EMACloseNotFinite, e0)
      else let e = e0\<lparr>ema_samples := ema_samples e0 + 1\<rparr> in
        if ema_samples e \<le> of_int (ema_period e) then
          (let e = e\<lparr>ema_seedSum := ema_seedSum e + close\<rparr> in
            if ema_samples e = of_int (ema_period e) then
              (let e = e\<lparr>ema_value := ema_seedSum e / of_int64 (ema_period e)\<rparr>
               in (Inr (ema_value e, True), e))
            else (Inr (0, False), e))
        else
          (let multiplier = lit 2 / of_int64 (wrap64 (ema_period e + 1));
               e = e\<lparr>ema_value := close * multiplier + ema_value e * (1 - multiplier)\<rparr>
           in (Inr (ema_value e, True), e)))"

text \<open>\<^verbatim>\<open>copy := *e; return copy.OnClosed(close)\<close>: the receiver is not changed.\<close>

definition EMA_Project :: "EMA \<Rightarrow> f64 \<Rightarrow> (ema_error, f64 \<times> bool) result" where
  "EMA_Project e close = fst (EMA_OnClosed e close)"

text \<open>\<^verbatim>\<open>json.Marshal\<close> refuses infinities and NaN.\<close>

definition EMA_Snapshot :: "EMA \<Rightarrow> (ema_error, state_bytes) result" where
  "EMA_Snapshot e =
     (if finite64 (ema_seedSum e) \<and> finite64 (ema_value e)
      then Inr (EMADoc \<lparr>es_Period = ema_period e, es_Samples = ema_samples e,
                        es_SeedSum = ema_seedSum e, es_Value = ema_value e\<rparr>)
      else Inl EMAEncode)"

text \<open>
  \<^verbatim>\<open>json.Unmarshal\<close> into an \<^verbatim>\<open>EMASnapshot\<close>: a market document has a \<^verbatim>\<open>samples\<close> key and none
  of the others, which keep their zero values.
\<close>

fun unmarshal_EMASnapshot :: "state_bytes \<Rightarrow> EMASnapshot option" where
  "unmarshal_EMASnapshot (EMADoc s) = Some s"
| "unmarshal_EMASnapshot (MarketDoc m) =
     Some \<lparr>es_Period = 0, es_Samples = mks_Samples m, es_SeedSum = 0, es_Value = 0\<rparr>"
| "unmarshal_EMASnapshot Malformed = None"

definition EMA_Restore :: "EMA \<Rightarrow> state_bytes \<Rightarrow> (ema_error, EMA) result" where
  "EMA_Restore e data =
     (case unmarshal_EMASnapshot data of
        None \<Rightarrow> Inl EMADecode
      | Some s \<Rightarrow>
          if es_Period s \<noteq> ema_period e then Inl (EMAPeriodMismatch (es_Period s) (ema_period e))
          else if es_Samples s < of_int (ema_period e) \<and> \<not> feq (es_Value s) 0 then Inl EMAValueBeforeReady
          else if \<not> finite64 (es_SeedSum s) \<or> \<not> finite64 (es_Value s) then Inl EMASnapshotNotFinite
          else Inr (e\<lparr>ema_samples := es_Samples s, ema_seedSum := es_SeedSum s, ema_value := es_Value s\<rparr>))"

subsection \<open>Reference definition\<close>

definition ema_multiplier :: "int \<Rightarrow> f64" where
  "ema_multiplier p = lit 2 / of_int64 (wrap64 (p + 1))"

definition ema_next :: "int \<Rightarrow> f64 \<Rightarrow> f64 \<Rightarrow> f64" where
  "ema_next p v c = c * ema_multiplier p + v * (1 - ema_multiplier p)"

definition seed_sum :: "f64 list \<Rightarrow> f64" where
  "seed_sum cs = foldl (+) 0 cs"

text \<open>The average after the closes \<open>cs\<close>, when there are enough of them.\<close>

definition ema_average :: "int \<Rightarrow> f64 list \<Rightarrow> f64" where
  "ema_average p cs =
     foldl (ema_next p) (seed_sum (take (nat p) cs) / of_int64 p) (drop (nat p) cs)"

definition ema_of :: "int \<Rightarrow> f64 list \<Rightarrow> EMA" where
  "ema_of p cs = \<lparr>ema_period = p, ema_samples = of_nat (length cs),
     ema_seedSum = seed_sum (take (nat p) cs),
     ema_value = (if length cs < nat p then 0 else ema_average p cs)\<rparr>"

fun EMA_run :: "EMA \<Rightarrow> f64 list \<Rightarrow> (ema_error, EMA) result" where
  "EMA_run e [] = Inr e"
| "EMA_run e (c # cs) =
     (case EMA_OnClosed e c of (Inl err, _) \<Rightarrow> Inl err | (Inr _, e') \<Rightarrow> EMA_run e' cs)"

definition period_ok :: "int \<Rightarrow> bool" where
  "period_ok p \<longleftrightarrow> 1 \<le> p \<and> p < 2 ^ 63"

text \<open>A word counter compared with the period, as naturals.\<close>

lemma word_of_period:
  assumes "period_ok p" and "n < 2 ^ 64"
  shows "(of_nat n :: uint64) \<le> of_int p \<longleftrightarrow> n \<le> nat p"
    and "(of_nat n :: uint64) = of_int p \<longleftrightarrow> n = nat p"
    and "(of_int p :: uint64) \<le> of_nat n \<longleftrightarrow> nat p \<le> n"
proof -
  have p: "(of_int p :: uint64) = of_nat (nat p)" "nat p < 2 ^ 64"
    using assms(1) by (simp_all add: period_ok_def nat_less_iff)
  have u: "unat (of_nat m :: uint64) = m" if "m < 2 ^ 64" for m
    using that by (simp add: unat_of_nat take_bit_nat_eq_self)
  show "(of_nat n :: uint64) \<le> of_int p \<longleftrightarrow> n \<le> nat p"
    "(of_nat n :: uint64) = of_int p \<longleftrightarrow> n = nat p"
    "(of_int p :: uint64) \<le> of_nat n \<longleftrightarrow> nat p \<le> n"
    unfolding p(1) using u [OF assms(2)] u [OF p(2)]
    by (simp_all add: word_le_nat_alt word_unat_eq_iff)
qed

lemma NewEMA_ema_of: "1 \<le> p \<Longrightarrow> NewEMA p = Inr (ema_of p [])"
  by (simp add: NewEMA_def ema_of_def seed_sum_def)

lemma EMA_Ready_ema_of:
  "period_ok p \<Longrightarrow> length cs < 2 ^ 64 \<Longrightarrow> EMA_Ready (ema_of p cs) \<longleftrightarrow> nat p \<le> length cs"
  by (simp add: EMA_Ready_def ema_of_def word_of_period)

text \<open>One step of the reducer is one more close of the reference.\<close>

lemma EMA_OnClosed_ema_of:
  assumes "period_ok p" and "length cs + 1 < 2 ^ 64" and "finite64 c"
  shows "EMA_OnClosed (ema_of p cs) c =
     (Inr (if length cs + 1 < nat p then 0 else ema_average p (cs @ [c]), nat p \<le> length cs + 1),
      ema_of p (cs @ [c]))"
proof -
  have s: "ema_samples (ema_of p cs) + 1 = 1 + of_nat (length cs)" "ema_period (ema_of p cs) = p"
    by (simp_all add: ema_of_def add.commute)
  note w = word_of_period [OF assms(1,2), simplified]
  have fin: "\<not> isNaN c" "\<not> isInf c" using assms(3) by (simp_all add: finite64_def)
  consider "length cs + 1 < nat p" | "length cs + 1 = nat p" | "nat p < length cs + 1" by linarith
  then show ?thesis
  proof cases
    case 1
    then show ?thesis
      by (simp add: EMA_OnClosed_def fin s w Let_def) (simp add: ema_of_def seed_sum_def)
  next
    case 2
    then have t: "take (nat p) cs = cs" "take (nat p) (cs @ [c]) = cs @ [c]" "drop (nat p) (cs @ [c]) = []"
      by simp_all
    from 2 show ?thesis
      by (simp add: EMA_OnClosed_def fin s w Let_def) (simp add: ema_of_def ema_average_def seed_sum_def t w)
  next
    case 3
    then have t: "take (nat p) (cs @ [c]) = take (nat p) cs" "drop (nat p) (cs @ [c]) = drop (nat p) cs @ [c]"
      by simp_all
    from 3 show ?thesis
      by (simp add: EMA_OnClosed_def fin s w Let_def)
        (simp add: ema_of_def ema_average_def t ema_next_def ema_multiplier_def)
  qed
qed

lemma EMA_run_ema_of:
  assumes "period_ok p" and "length cs + length ds < 2 ^ 64" and "\<And>c. c \<in> set ds \<Longrightarrow> finite64 c"
  shows "EMA_run (ema_of p cs) ds = Inr (ema_of p (cs @ ds))"
  using assms
proof (induction ds arbitrary: cs)
  case Nil
  then show ?case by simp
next
  case (Cons d ds)
  then have "EMA_OnClosed (ema_of p cs) d =
     (Inr (if length cs + 1 < nat p then 0 else ema_average p (cs @ [d]), nat p \<le> length cs + 1),
      ema_of p (cs @ [d]))"
    by (intro EMA_OnClosed_ema_of) auto
  with Cons.prems Cons.IH [of "cs @ [d]"] show ?case by simp
qed


subsection \<open>Well-formed reducers and their snapshots\<close>

text \<open>What a reducer can be snapshotted from and restored to.\<close>

definition wf_ema :: "int \<Rightarrow> EMA \<Rightarrow> bool" where
  "wf_ema p e \<longleftrightarrow> ema_period e = p \<and> period_ok p \<and> finite64 (ema_seedSum e) \<and> finite64 (ema_value e) \<and>
     (EMA_Ready e \<or> feq (ema_value e) 0)"

lemma EMA_Snapshot_ok_iff:
  "is_ok (EMA_Snapshot e) \<longleftrightarrow> finite64 (ema_seedSum e) \<and> finite64 (ema_value e)"
  by (simp add: EMA_Snapshot_def)

lemma EMA_Restore_Snapshot:
  assumes "wf_ema p e" and "EMA_Snapshot e = Inr d" and "ema_period e' = p"
  shows "EMA_Restore e' d = Inr e"
  using assms
  by (auto simp: EMA_Snapshot_def EMA_Restore_def wf_ema_def EMA_Ready_def not_le split: if_splits)

lemma EMA_Restore_wf:
  assumes "EMA_Restore e d = Inr e'" and "period_ok (ema_period e)"
  shows "wf_ema (ema_period e) e'"
  using assms
  by (auto simp: EMA_Restore_def wf_ema_def EMA_Ready_def not_le not_less split: option.splits if_splits)

lemma ema_of_wf:
  assumes "period_ok p" and "length cs < 2 ^ 64"
    and "finite64 (ema_seedSum (ema_of p cs))" and "finite64 (ema_value (ema_of p cs))"
  shows "wf_ema p (ema_of p cs)"
proof -
  have "EMA_Ready (ema_of p cs) \<or> feq (ema_value (ema_of p cs)) 0"
    using assms(1,2) by (simp add: EMA_Ready_ema_of) (simp add: ema_of_def feq_def zero_f64_def)
  with assms show ?thesis by (simp add: wf_ema_def) (simp add: ema_of_def)
qed

subsection \<open>The multiplier\<close>

lemma rnd_two_thirds: "0 < q \<Longrightarrow> q \<le> 2 / 3 \<Longrightarrow> rnd_pos q \<le> 3 / 4"
proof -
  assume q: "0 < q" "q \<le> 2 / 3"
  have "ulp_exp (3 / 4) \<le> - 2"
    using ulp_exp_le [of "3 / 4" 0] by simp
  then have "rnd_pos (3 / 4) = 3 / 4"
    by (intro rnd_pos_exact [where n = 3 and j = "- 2"]) (simp_all add: power_int_def power2_eq_square)
  moreover have "rnd_pos q \<le> rnd_pos (3 / 4)"
    using q by (intro rnd_pos_mono) auto
  ultimately show ?thesis by simp
qed

text \<open>For periods from 2 to \<open>2 ^ 52\<close> both weights are positive finite numbers.\<close>

lemma ema_multiplier_pos:
  assumes "2 \<le> p" and "p < 2 ^ 52"
  shows "\<exists>k. ema_multiplier p = Fin k \<and> 0 < k \<and> k \<le> 3 / 4"
proof -
  have w: "wrap64 (p + 1) = p + 1" using assms by (intro wrap64_id) auto
  have i: "of_int64 (p + 1) = Fin (of_int (p + 1))"
    unfolding of_int64_def using assms by (intro rnd_of_int) auto
  define q :: rat where "q = 2 / of_int (p + 1)"
  have "(of_int 3 :: rat) \<le> of_int (p + 1)" using assms(1) by (simp only: of_int_le_iff)
  then have q: "0 < q" "q \<le> 2 / 3" by (simp_all add: q_def divide_simps)
  have m: "ema_multiplier p = rnd q"
    using assms(1) by (simp add: ema_multiplier_def w i divide_f64_def fdiv_def q_def)
  have "(of_int (p + 1) :: rat) \<le> of_int (2 ^ 52)" using assms(2) by (simp only: of_int_le_iff)
  then have "(2::rat) powi (- 51) \<le> q"
    using assms(1) by (simp add: q_def power_int_def divide_simps)
  moreover have "ulp_exp q \<le> - 51"
    using ulp_exp_le [of q 0] q by simp
  ultimately have "2 powi (- 51) \<le> rnd_pos q" by (rule rnd_pos_ge_powi)
  then have pos: "0 < rnd_pos q" using powi2_pos [of "- 51"] by linarith
  have up: "rnd_pos q \<le> 3 / 4" using rnd_two_thirds q by blast
  have "(1::rat) < f64_limit" by (simp add: f64_limit_def one_less_power)
  with up have "\<not> f64_limit \<le> rnd_pos q" by linarith
  with q pos up m show ?thesis by (simp add: rnd_pos_case)
qed

lemma ema_complement_pos:
  assumes "2 \<le> p" and "p < 2 ^ 52"
  shows "\<exists>k. 1 - ema_multiplier p = Fin k \<and> 0 < k"
proof -
  obtain m where m: "ema_multiplier p = Fin m" "0 < m" "m \<le> 3 / 4"
    using ema_multiplier_pos [OF assms] by blast
  then have e: "1 - ema_multiplier p = rnd (1 - m)"
    by (simp add: f64_ops fadd_def)
  have "2 powi (- 2) \<le> 1 - m" using m by (simp add: power_int_def power2_eq_square)
  moreover have "ulp_exp (1 - m) \<le> - 2"
    using ulp_exp_le [of "1 - m" 0] m by simp
  ultimately have "2 powi (- 2) \<le> rnd_pos (1 - m)" by (rule rnd_pos_ge_powi)
  then have pos: "0 < rnd_pos (1 - m)" using powi2_pos [of "- 2"] by linarith
  have "rnd_pos (1 - m) \<le> 2 powi 0"
    using m \<open>ulp_exp (1 - m) \<le> - 2\<close> by (intro rnd_pos_le_powi) auto
  moreover have "(1::rat) < f64_limit" by (simp add: f64_limit_def one_less_power)
  ultimately have "\<not> f64_limit \<le> rnd_pos (1 - m)" by simp
  with e pos m show ?thesis by (simp add: rnd_pos_case)
qed

subsection \<open>Monotonicity\<close>

text \<open>Larger closes give a larger average, rounding included.\<close>

lemma seed_sum_mono:
  assumes "list_all2 fle cs cs'" and "list_all finite64 cs" and "list_all finite64 cs'" and "fle a a'"
  shows "fle (foldl (+) a cs) (foldl (+) a' cs')"
  using assms
proof (induction arbitrary: a a' rule: list_all2_induct)
  case Nil
  then show ?case by simp
next
  case (Cons x xs y ys)
  then have "fle (a + x) (a' + y)" by (simp add: plus_f64_def fadd_mono)
  with Cons show ?case by simp
qed

lemma ema_next_mono:
  assumes "2 \<le> p" and "p < 2 ^ 52" and "fle v v'" and "fle c c'" and "rep64 c" and "rep64 c'"
  shows "fle (ema_next p v c) (ema_next p v' c')"
proof -
  obtain m n where m: "ema_multiplier p = Fin m" "0 < m" "m \<le> 3 / 4" and n: "1 - ema_multiplier p = Fin n" "0 < n"
    using ema_multiplier_pos [OF assms(1,2)] ema_complement_pos [OF assms(1,2)] by blast
  have "fle (c * ema_multiplier p) (c' * ema_multiplier p)"
    using assms(4) m by (simp add: times_f64_def fmul_mono)
  moreover have "fle (v * (1 - ema_multiplier p)) (v' * (1 - ema_multiplier p))"
    using assms(3) n by (simp add: times_f64_def fmul_mono)
  moreover have "finite64 (c * ema_multiplier p)" "finite64 (c' * ema_multiplier p)"
    using assms(5,6) m by (auto simp: times_f64_def intro!: rep64_scaled_finite)
  ultimately show ?thesis
    by (simp add: ema_next_def plus_f64_def fadd_commute [of "_ * ema_multiplier p"] fadd_mono)
qed

lemma ema_fold_mono:
  assumes "2 \<le> p" and "p < 2 ^ 52"
    and "list_all2 fle cs cs'" and "list_all rep64 cs" and "list_all rep64 cs'" and "fle v v'"
  shows "fle (foldl (ema_next p) v cs) (foldl (ema_next p) v' cs')"
  using assms(3-)
proof (induction arbitrary: v v' rule: list_all2_induct)
  case Nil
  then show ?case by simp
next
  case (Cons x xs y ys)
  then have "fle (ema_next p v x) (ema_next p v' y)"
    using assms(1,2) by (intro ema_next_mono) auto
  with Cons show ?case by simp
qed

lemma ema_average_mono:
  assumes "2 \<le> p" and "p < 2 ^ 52"
    and "list_all2 fle cs cs'" and "list_all rep64 cs" and "list_all rep64 cs'"
  shows "fle (ema_average p cs) (ema_average p cs')"
proof -
  have p: "of_int64 p = Fin (of_int p)" "0 < (of_int p :: rat)"
    using assms(1,2) by (auto simp: of_int64_def intro!: rnd_of_int)
  have fin: "list_all finite64 xs" if "list_all rep64 xs" for xs
    using that by (auto simp: list_all_iff rep64_def)
  have "fle (seed_sum (take (nat p) cs)) (seed_sum (take (nat p) cs'))"
    unfolding seed_sum_def using assms(3-) fin
    by (intro seed_sum_mono) (auto simp: list_all2_takeI zero_f64_def fle_refl list_all_iff dest: in_set_takeD)
  then have "fle (seed_sum (take (nat p) cs) / of_int64 p) (seed_sum (take (nat p) cs') / of_int64 p)"
    using fdiv_mono [OF _ p(2)] by (simp add: p(1) divide_f64_def)
  then show ?thesis
    unfolding ema_average_def using assms
    by (intro ema_fold_mono) (auto simp: list_all2_dropI list_all_iff dest: in_set_dropD)
qed

subsection \<open>Checkpoints\<close>

definition ema_step :: "EMA \<Rightarrow> f64 \<Rightarrow> EMA" where
  "ema_step e c = snd (EMA_OnClosed e c)"

interpretation ema_checkpoint: checkpointed ema_step EMA_Snapshot EMA_Restore
  "\<lambda>fresh e. ema_period fresh = ema_period e" "\<lambda>e. wf_ema (ema_period e) e" "(=)"
  by unfold_locales (auto intro: EMA_Restore_Snapshot)

lemma ema_of_period [simp]: "ema_period (ema_of p cs) = p"
  by (simp add: ema_of_def)

subsection \<open>Properties\<close>

text \<open>
  C20. The incremental reducer computes the specified average: on any series of finite closes a new
  reducer ends without error in the state of the reference definition; it is ready exactly from
  the close that completes the period on, and its value then is the average seeded with the mean of
  the first closes.
\<close>

theorem ema_refines_reference:
  assumes "1 \<le> p" and "p < 2 ^ 63" and "length cs < 2 ^ 64" and "\<And>c. c \<in> set cs \<Longrightarrow> finite64 c"
  shows "\<exists>e. NewEMA p = Inr e \<and> EMA_run e cs = Inr (ema_of p cs) \<and>
    EMA_Value (ema_of p cs) = (if length cs < nat p then (0, False) else (ema_average p cs, True))"
proof -
  have p: "period_ok p" using assms(1,2) by (simp add: period_ok_def)
  have "EMA_run (ema_of p []) cs = Inr (ema_of p cs)" using EMA_run_ema_of [OF p, of "[]" cs] assms(3,4) by simp
  moreover have "EMA_Value (ema_of p cs) = (if length cs < nat p then (0, False) else (ema_average p cs, True))"
    by (simp add: EMA_Value_def EMA_Ready_ema_of [OF p assms(3)]) (simp add: ema_of_def)
  ultimately show ?thesis using NewEMA_ema_of [OF assms(1)] by blast
qed

theorem ema_refines_reference_witness:
  "\<exists>e. NewEMA 2 = Inr e \<and> EMA_run e [Fin 3, Fin 5] = Inr (ema_of 2 [Fin 3, Fin 5]) \<and>
     EMA_Value (ema_of 2 [Fin 3, Fin 5]) = (ema_average 2 [Fin 3, Fin 5], True)"
proof -
  have "finite64 c" if "c \<in> set [Fin 3, Fin 5]" for c using that by auto
  from ema_refines_reference [of 2 "[Fin 3, Fin 5]", OF _ _ _ this] show ?thesis
    by (simp del: EMA_run.simps)
qed

text \<open>
  C21. The reducer is monotone, rounding included: for a period of at least two (and below two to the
  52), two new reducers that are given equally many closes, enough to be ready and all of them
  representable numbers, of which those of the second are nowhere lower, end without error, ready, and the
  second does not have the lower value.
\<close>

theorem ema_monotone:
  assumes "2 \<le> p" and "p < 2 ^ 52" and "list_all2 fle cs cs'" and "list_all rep64 cs" and "list_all rep64 cs'"
    and "nat p \<le> length cs" and "length cs < 2 ^ 64"
  shows "\<exists>e s s'. NewEMA p = Inr e \<and> EMA_run e cs = Inr s \<and> EMA_run e cs' = Inr s' \<and>
    EMA_Ready s \<and> EMA_Ready s' \<and> fle (fst (EMA_Value s)) (fst (EMA_Value s'))"
proof -
  have p: "period_ok p" using assms(1,2) by (simp add: period_ok_def)
  have len: "length cs' = length cs" using assms(3) by (simp add: list_all2_lengthD)
  have "NewEMA p = Inr (ema_of p [])" using assms(1) by (simp add: NewEMA_ema_of)
  moreover have "EMA_run (ema_of p []) cs = Inr (ema_of p cs)"
    using EMA_run_ema_of [OF p, of "[]" cs] assms(4,7) by (simp add: list_all_iff rep64_def)
  moreover have "EMA_run (ema_of p []) cs' = Inr (ema_of p cs')"
    using EMA_run_ema_of [OF p, of "[]" cs'] assms(5,7) len by (simp add: list_all_iff rep64_def)
  moreover have "EMA_Ready (ema_of p cs)" "EMA_Ready (ema_of p cs')"
    using EMA_Ready_ema_of [OF p] assms(6,7) len by simp_all
  moreover have "fle (fst (EMA_Value (ema_of p cs))) (fst (EMA_Value (ema_of p cs')))"
    using ema_average_mono [OF assms(1-5)] assms(6) len by (simp add: EMA_Value_def) (simp add: ema_of_def)
  ultimately show ?thesis by blast
qed

theorem ema_monotone_witness:
  "\<exists>e s s'. NewEMA 2 = Inr e \<and> EMA_run e [Fin 3, Fin 5, Fin 1] = Inr s \<and> EMA_run e [Fin 3, Fin 7, Fin 1] = Inr s' \<and>
    EMA_Ready s \<and> EMA_Ready s' \<and> fle (fst (EMA_Value s)) (fst (EMA_Value s'))"
  by (rule ema_monotone) (simp_all add: fle_def feq_def rep64_numeral rep64_def)

text \<open>
  Checkpoints are faithful: what a reducer in use saves is accepted by any reducer of the same
  period and restores exactly the saved state, so that replaying the closes since the checkpoint
  reaches the state of a reducer that never stopped.
\<close>

theorem ema_restore_replay:
  assumes "1 \<le> p" and "p < 2 ^ 63" and "length cs + length ds < 2 ^ 64"
    and "EMA_Snapshot (ema_of p cs) = Inr d" and "ema_period fresh = p" and "\<And>c. c \<in> set ds \<Longrightarrow> finite64 c"
  shows "\<exists>e. EMA_Restore fresh d = Inr e \<and> EMA_run e ds = Inr (ema_of p (cs @ ds))"
proof -
  have p: "period_ok p" using assms(1,2) by (simp add: period_ok_def)
  have "finite64 (ema_seedSum (ema_of p cs))" "finite64 (ema_value (ema_of p cs))"
    using assms(4) EMA_Snapshot_ok_iff [of "ema_of p cs"] by simp_all
  then have "wf_ema p (ema_of p cs)" using p assms(3) by (intro ema_of_wf) simp_all
  then have "EMA_Restore fresh d = Inr (ema_of p cs)"
    using ema_checkpoint.load_save [of "ema_of p cs" fresh d] assms(4,5) by simp
  then show ?thesis using EMA_run_ema_of [OF p assms(3,6)] by simp
qed

theorem ema_restore_replay_witness:
  "\<exists>d e e'. EMA_Snapshot (ema_of 2 [Fin 3, Fin 5]) = Inr d \<and> NewEMA 2 = Inr e \<and> EMA_Restore e d = Inr e' \<and>
     EMA_run e' [Fin 4] = Inr (ema_of 2 [Fin 3, Fin 5, Fin 4])"
proof -
  obtain d where d: "EMA_Snapshot (ema_of 2 [Fin 3, Fin 5]) = Inr d"
    by (simp add: EMA_Snapshot_def ema_of_def ema_average_def seed_sum_def of_int64_def f64_ops fadd_def fdiv_def)
  have fin: "finite64 c" if "c \<in> set [Fin 4]" for c using that by simp
  have new: "NewEMA 2 = Inr (ema_of 2 [])" by (simp add: NewEMA_ema_of)
  have "\<exists>e. EMA_Restore (ema_of 2 []) d = Inr e \<and> EMA_run e [Fin 4] = Inr (ema_of 2 ([Fin 3, Fin 5] @ [Fin 4]))"
    by (rule ema_restore_replay [OF _ _ _ d _ fin]) simp_all
  then obtain e' where "EMA_Restore (ema_of 2 []) d = Inr e'"
    "EMA_run e' [Fin 4] = Inr (ema_of 2 [Fin 3, Fin 5, Fin 4])"
    by (auto simp del: EMA_run.simps)
  then show ?thesis using d new by blast
qed

text \<open>
  A reducer never takes over a snapshot that it could not have produced: a restore that succeeds
  keeps the period and leaves finite numbers, and no value before the period is complete; a
  snapshot of another period, and one that is not a snapshot, are rejected.
\<close>

theorem ema_restore_validates:
  assumes "period_ok (ema_period e)"
  shows "(\<forall>e'. EMA_Restore e d = Inr e' \<longrightarrow> ema_period e' = ema_period e \<and> finite64 (ema_seedSum e') \<and>
      finite64 (ema_value e') \<and> (EMA_Ready e' \<or> feq (ema_value e') 0)) \<and>
    (\<forall>s. d = EMADoc s \<and> es_Period s \<noteq> ema_period e \<longrightarrow> EMA_Restore e d = Inl (EMAPeriodMismatch (es_Period s) (ema_period e))) \<and>
    (d = Malformed \<longrightarrow> EMA_Restore e d = Inl EMADecode)"
proof (intro conjI allI impI)
  fix e' assume "EMA_Restore e d = Inr e'"
  then have "wf_ema (ema_period e) e'" by (rule EMA_Restore_wf [OF _ assms])
  then show "ema_period e' = ema_period e" "finite64 (ema_seedSum e')" "finite64 (ema_value e')"
    "EMA_Ready e' \<or> feq (ema_value e') 0"
    by (auto simp: wf_ema_def EMA_Ready_def not_less)
qed (simp_all add: EMA_Restore_def)

theorem ema_restore_validates_witness:
  "EMA_Restore (ema_of 2 []) (EMADoc \<lparr>es_Period = 3, es_Samples = 0, es_SeedSum = 0, es_Value = 0\<rparr>) = Inl (EMAPeriodMismatch 3 2)"
proof -
  have ok: "period_ok (ema_period (ema_of 2 []))" by (simp add: period_ok_def)
  show ?thesis
    using conjunct1 [OF conjunct2 [OF ema_restore_validates [OF ok]]] by simp
qed

end

