(* ===== verification/Market_Zones.thy ===== *)
theory Market_Zones
  imports Model
begin

text \<open>
  The first half of \<^verbatim>\<open>internal/indicator/market.go\<close>: the configuration, candle features, fair
  value gaps, order blocks, candle patterns and liquidity clusters, each a function of the
  closed bars. Loops over indices are maps over the index range; the reads \<open>bars ! i\<close> are within
  the range by the loop bounds.
\<close>

definition MarketAlgorithmVersion :: string where
  "MarketAlgorithmVersion = ''1.1.0''"

record MarketConfig =
  cfg_MinSwingPct :: f64
  cfg_ATRPeriod :: int
  cfg_ATRMult :: f64
  cfg_MinPullbackFrac :: f64
  cfg_EqualTolerance :: f64
  cfg_RangeMinSwings :: int
  cfg_RangeMaxHeight :: f64
  cfg_SecondMaruMin :: f64
  cfg_BigVsReference :: f64
  cfg_BreakBodyBeyond :: f64
  cfg_OppositeSmallMax :: f64
  cfg_PACWindow :: int
  cfg_LevelClusterTol :: f64
  cfg_LevelSwingLag :: int
  cfg_MaxLevels :: int
  cfg_MaxLevelDistance :: f64
  cfg_RecentBars :: int
  cfg_FVGLookback :: int
  cfg_PatternLookback :: int
  cfg_LiquidityLookback :: int
  cfg_LiquidityTol :: f64

definition DefaultMarketConfig :: MarketConfig where
  "DefaultMarketConfig = \<lparr>
     cfg_MinSwingPct = lit (5 / 10000), cfg_ATRPeriod = 14, cfg_ATRMult = lit 2,
     cfg_MinPullbackFrac = lit (6 / 10), cfg_EqualTolerance = lit (15 / 10000),
     cfg_RangeMinSwings = 4, cfg_RangeMaxHeight = lit (5 / 100),
     cfg_SecondMaruMin = lit (7 / 10), cfg_BigVsReference = lit (7 / 10),
     cfg_BreakBodyBeyond = lit (3 / 10), cfg_OppositeSmallMax = lit (3 / 10), cfg_PACWindow = 4,
     cfg_LevelClusterTol = lit (15 / 10000), cfg_LevelSwingLag = 2, cfg_MaxLevels = 5,
     cfg_MaxLevelDistance = lit (3 / 100), cfg_RecentBars = 400, cfg_FVGLookback = 300,
     cfg_PatternLookback = 120, cfg_LiquidityLookback = 300, cfg_LiquidityTol = lit (6 / 10000)\<rparr>"

text \<open>\<^verbatim>\<open>fmt.Sprintf("%+v", config)\<close>\<close>

definition config_text :: "MarketConfig \<Rightarrow> string" where
  "config_text c =
     ''{MinSwingPct:'' @ fmt_g (cfg_MinSwingPct c) @ '' ATRPeriod:'' @ itoa (cfg_ATRPeriod c) @
     '' ATRMult:'' @ fmt_g (cfg_ATRMult c) @ '' MinPullbackFrac:'' @ fmt_g (cfg_MinPullbackFrac c) @
     '' EqualTolerance:'' @ fmt_g (cfg_EqualTolerance c) @ '' RangeMinSwings:'' @ itoa (cfg_RangeMinSwings c) @
     '' RangeMaxHeight:'' @ fmt_g (cfg_RangeMaxHeight c) @ '' SecondMaruMin:'' @ fmt_g (cfg_SecondMaruMin c) @
     '' BigVsReference:'' @ fmt_g (cfg_BigVsReference c) @ '' BreakBodyBeyond:'' @ fmt_g (cfg_BreakBodyBeyond c) @
     '' OppositeSmallMax:'' @ fmt_g (cfg_OppositeSmallMax c) @ '' PACWindow:'' @ itoa (cfg_PACWindow c) @
     '' LevelClusterTol:'' @ fmt_g (cfg_LevelClusterTol c) @ '' LevelSwingLag:'' @ itoa (cfg_LevelSwingLag c) @
     '' MaxLevels:'' @ itoa (cfg_MaxLevels c) @ '' MaxLevelDistance:'' @ fmt_g (cfg_MaxLevelDistance c) @
     '' RecentBars:'' @ itoa (cfg_RecentBars c) @ '' FVGLookback:'' @ itoa (cfg_FVGLookback c) @
     '' PatternLookback:'' @ itoa (cfg_PatternLookback c) @
     '' LiquidityLookback:'' @ itoa (cfg_LiquidityLookback c) @
     '' LiquidityTol:'' @ fmt_g (cfg_LiquidityTol c) @ ''}''"

definition MarketAlgorithm :: "MarketConfig \<Rightarrow> AlgorithmRef" where
  "MarketAlgorithm config =
     (let raw = ''market|'' @ MarketAlgorithmVersion @ ''|'' @ config_text config
      in \<lparr>alg_Name = ''smc.market_state'', alg_Version = MarketAlgorithmVersion,
          alg_ConfigHash = ''sha256:'' @ sha256_hex raw\<rparr>)"

subsection \<open>Candle features\<close>

record candleFeatures =
  cf_Range :: f64
  cf_Body :: f64
  cf_BodyRatio :: f64
  cf_Mid :: f64
  cf_CloseLocation :: f64
  cf_Direction :: int
  cf_Up :: bool

definition features :: "Bar \<Rightarrow> candleFeatures" where
  "features bar =
     (let r0 = bar_High bar - bar_Low bar;
          rangeValue = (if feq r0 0 then lit (1 / 10 ^ 9) else r0);
          body = abs (bar_Close bar - bar_Open bar);
          direction = (if bar_Open bar < bar_Close bar then 1
                       else if bar_Close bar < bar_Open bar then - 1 else 0)
      in \<lparr>cf_Range = rangeValue, cf_Body = body, cf_BodyRatio = body / rangeValue,
          cf_Mid = (bar_High bar + bar_Low bar) / lit 2,
          cf_CloseLocation = (bar_Close bar - bar_Low bar) / rangeValue,
          cf_Direction = direction, cf_Up = (bar_Open bar \<le> bar_Close bar)\<rparr>)"

definition simpleMarubozu :: "Bar \<Rightarrow> bool" where
  "simpleMarubozu bar \<longleftrightarrow> lit (8 / 10) < cf_BodyRatio (features bar)"

definition pinBar :: "Bar \<Rightarrow> bool" where
  "pinBar bar \<longleftrightarrow> cf_BodyRatio (features bar) < lit (3 / 10)"

definition zoneID :: "string \<Rightarrow> string \<Rightarrow> time \<Rightarrow> f64 \<Rightarrow> f64 \<Rightarrow> string" where
  "zoneID kind side t topP botP =
     sha256_hex (kind @ ''|'' @ side @ ''|'' @ rfc3339nano t @ ''|'' @ fmt_g12 topP @ ''|'' @ fmt_g12 botP)"

definition intersectsZone :: "Bar \<Rightarrow> PriceZone \<Rightarrow> bool" where
  "intersectsZone bar zone \<longleftrightarrow> zone_Bottom zone \<le> bar_High bar \<and> bar_Low bar \<le> zone_Top zone \<and>
     zone_FromTime zone < bar_OpenTime bar"

definition annotateZoneStates :: "Bar list \<Rightarrow> PriceZone list \<Rightarrow> PriceZone list" where
  "annotateZoneStates bars zones =
     map (\<lambda>zone. zone\<lparr>zone_State :=
            if list_ex (\<lambda>bar. intersectsZone bar zone) bars then ''touched'' else ''active''\<rparr>) zones"

subsection \<open>Fair value gaps\<close>

text \<open>The gap of three consecutive bars: side, top, bottom, edge and size.\<close>

definition fvg_gap :: "Bar \<Rightarrow> Bar \<Rightarrow> Bar \<Rightarrow> (string \<times> f64 \<times> f64 \<times> f64 \<times> f64) option" where
  "fvg_gap f middle l =
     (let anyMarubozu = simpleMarubozu f \<or> simpleMarubozu middle \<or> simpleMarubozu l
      in if bar_High f < bar_Low l \<and> anyMarubozu then
           Some (''up'', bar_Low l, bar_High f, bar_High f, bar_Low l - bar_High f)
         else if bar_High l < bar_Low f \<and> anyMarubozu then
           Some (''down'', bar_Low f, bar_High l, bar_Low f, bar_Low f - bar_High l)
         else None)"

definition fvg_filled :: "string \<Rightarrow> f64 \<Rightarrow> Bar list \<Rightarrow> bool" where
  "fvg_filled side edge later \<longleftrightarrow>
     list_ex (\<lambda>bar. (side = ''up'' \<and> bar_Low bar \<le> edge) \<or> (side = ''down'' \<and> edge \<le> bar_High bar)) later"

text \<open>The body of the loop at \<open>index\<close>; \<open>None\<close> is \<^verbatim>\<open>continue\<close>.\<close>

definition fvg_at :: "Bar list \<Rightarrow> nat \<Rightarrow> PriceZone option" where
  "fvg_at bars index =
     (let f = bars ! (index - 2); middle = bars ! (index - 1); l = bars ! index
      in case fvg_gap f middle l of
           None \<Rightarrow> None
         | Some (side, topP, botP, edge, gap) \<Rightarrow>
             if fvg_filled side edge (drop (index + 1) bars) then None
             else let grade = (if lit (3 / 10) * cf_Range (features middle) \<le> gap \<or>
                     (simpleMarubozu f \<and> simpleMarubozu middle \<and> simpleMarubozu l)
                   then ''strong'' else ''weak'')
               in Some \<lparr>zone_ID = zoneID ''fvg'' side (bar_OpenTime l) topP botP, zone_Kind = ''fvg'',
                    zone_Side = side, zone_Grade = grade, zone_FromTime = bar_OpenTime l,
                    zone_ToTime = bar_OpenTime (last bars), zone_Top = topP, zone_Bottom = botP,
                    zone_State = []\<rparr>)"

definition loop_start :: "int \<Rightarrow> Bar list \<Rightarrow> int \<Rightarrow> nat" where
  "loop_start low bars lookback = nat (max low (int (length bars) - lookback))"

definition detectFVG :: "Bar list \<Rightarrow> int \<Rightarrow> PriceZone list" where
  "detectFVG bars lookback =
     keep_last 8 (List.map_filter (fvg_at bars) [loop_start 2 bars lookback ..< length bars])"

subsection \<open>Order blocks\<close>

text \<open>
  The inner loop: at most \<open>k\<close> bars downwards from index \<open>i - 1\<close>, the first one against the
  side of the gap.
\<close>

fun ob_find :: "Bar list \<Rightarrow> string \<Rightarrow> nat \<Rightarrow> nat \<Rightarrow> Bar option" where
  "ob_find bars side 0 k = None"
| "ob_find bars side (Suc i) 0 = None"
| "ob_find bars side (Suc i) (Suc k) =
     (let bar = bars ! i in
      if (side = ''up'' \<and> \<not> cf_Up (features bar)) \<or> (side = ''down'' \<and> cf_Up (features bar))
      then Some bar else ob_find bars side i k)"

definition gap_index :: "Bar list \<Rightarrow> PriceZone \<Rightarrow> nat" where
  "gap_index bars gap =
     sort_search (length bars) (\<lambda>index. \<not> bar_OpenTime (bars ! index) < zone_FromTime gap)"

definition order_block :: "Bar list \<Rightarrow> PriceZone \<Rightarrow> PriceZone option" where
  "order_block bars gap =
     (case ob_find bars (zone_Side gap) (gap_index bars gap - 1) 4 of
        None \<Rightarrow> None
      | Some bar \<Rightarrow> Some \<lparr>zone_ID = zoneID ''order_block'' (zone_Side gap) (bar_OpenTime bar) (bar_High bar) (bar_Low bar),
          zone_Kind = ''order_block'', zone_Side = zone_Side gap, zone_Grade = zone_Grade gap,
          zone_FromTime = bar_OpenTime bar, zone_ToTime = bar_OpenTime (last bars),
          zone_Top = bar_High bar, zone_Bottom = bar_Low bar, zone_State = []\<rparr>)"

definition detectOrderBlocks :: "Bar list \<Rightarrow> PriceZone list \<Rightarrow> PriceZone list" where
  "detectOrderBlocks bars gaps = keep_last 6 (List.map_filter (order_block bars) gaps)"

subsection \<open>Candle patterns\<close>

definition pattern :: "Bar \<Rightarrow> bool \<Rightarrow> string \<Rightarrow> string \<Rightarrow> PatternEvent list" where
  "pattern bar found kind side =
     (if found then [\<lparr>pat_Kind = kind, pat_Side = side, pat_Time = bar_OpenTime bar\<rparr>] else [])"

definition two_bar_patterns :: "Bar \<Rightarrow> Bar \<Rightarrow> PatternEvent list" where
  "two_bar_patterns previous current =
     (let pf = features previous; cf = features current in
      pattern current (cf_Up cf \<and> \<not> cf_Up pf \<and> lit (125 / 100) * cf_Body pf \<le> cf_Body cf \<and>
        bar_Open previous < bar_Close current \<and> bar_Open current < bar_Close previous) ''bull_engulfing'' ''up'' @
      pattern current (\<not> cf_Up cf \<and> cf_Up pf \<and> lit (125 / 100) * cf_Body pf \<le> cf_Body cf \<and>
        bar_Close current < bar_Open previous \<and> bar_Close previous < bar_Open current) ''bear_engulfing'' ''down'' @
      pattern current (bar_High current < bar_High previous \<and> bar_Low previous < bar_Low current)
        ''inside_bar'' ''flat'')"

definition three_bar_patterns :: "Bar \<Rightarrow> Bar \<Rightarrow> Bar \<Rightarrow> PatternEvent list" where
  "three_bar_patterns twoBack previous current =
     (let tf = features twoBack; pf = features previous; cf = features current in
      pattern current (simpleMarubozu twoBack \<and> \<not> cf_Up tf \<and> cf_BodyRatio pf < lit (4 / 10) \<and>
        simpleMarubozu current \<and> cf_Up cf \<and> cf_Mid tf < bar_Close current) ''morning_star'' ''up'' @
      pattern current (simpleMarubozu twoBack \<and> cf_Up tf \<and> cf_BodyRatio pf < lit (4 / 10) \<and>
        simpleMarubozu current \<and> \<not> cf_Up cf \<and> bar_Close current < cf_Mid tf) ''evening_star'' ''down'' @
      pattern current (simpleMarubozu twoBack \<and> simpleMarubozu previous \<and> simpleMarubozu current \<and>
        cf_Up tf \<and> cf_Up pf \<and> cf_Up cf \<and> bar_Close twoBack < bar_Close previous \<and>
        bar_Close previous < bar_Close current) ''three_soldiers'' ''up'' @
      pattern current (simpleMarubozu twoBack \<and> simpleMarubozu previous \<and> simpleMarubozu current \<and>
        \<not> cf_Up tf \<and> \<not> cf_Up pf \<and> \<not> cf_Up cf \<and> bar_Close previous < bar_Close twoBack \<and>
        bar_Close current < bar_Close previous) ''three_crows'' ''down'' @
      pattern current (pinBar previous \<and> pinBar current \<and>
        abs (bar_Low previous - bar_Low current) / bar_Low current < lit (6 / 10000)) ''tweezer_bottom'' ''up'' @
      pattern current (pinBar previous \<and> pinBar current \<and>
        abs (bar_High previous - bar_High current) / bar_High current < lit (6 / 10000)) ''tweezer_top'' ''down'')"

definition patterns_at :: "Bar list \<Rightarrow> nat \<Rightarrow> nat \<Rightarrow> PatternEvent list" where
  "patterns_at bars start index =
     two_bar_patterns (bars ! (index - 1)) (bars ! index) @
     (if index < start + 1 then []
      else three_bar_patterns (bars ! (index - 2)) (bars ! (index - 1)) (bars ! index))"

definition detectPatterns :: "Bar list \<Rightarrow> int \<Rightarrow> PatternEvent list" where
  "detectPatterns bars lookback =
     (let start = loop_start 3 bars lookback
      in keep_last 12 (concat (map (patterns_at bars start) [start ..< length bars])))"

subsection \<open>Liquidity\<close>

record extremum =
  ex_Price :: f64
  ex_Index :: nat

record cluster =
  cl_Price :: f64
  cl_Touches :: int
  cl_Last :: int

definition is_high :: "Bar list \<Rightarrow> nat \<Rightarrow> bool" where
  "is_high bars i \<longleftrightarrow> (let h = bar_High (bars ! i) in
     bar_High (bars ! (i - 1)) \<le> h \<and> bar_High (bars ! (i - 2)) \<le> h \<and>
     bar_High (bars ! (i + 1)) \<le> h \<and> bar_High (bars ! (i + 2)) \<le> h)"

definition is_low :: "Bar list \<Rightarrow> nat \<Rightarrow> bool" where
  "is_low bars i \<longleftrightarrow> (let l = bar_Low (bars ! i) in
     l \<le> bar_Low (bars ! (i - 1)) \<and> l \<le> bar_Low (bars ! (i - 2)) \<and>
     l \<le> bar_Low (bars ! (i + 1)) \<and> l \<le> bar_Low (bars ! (i + 2)))"

text \<open>The first cluster within the tolerance absorbs the value, else a new cluster is appended.\<close>

fun add_extremum :: "f64 \<Rightarrow> cluster list \<Rightarrow> extremum \<Rightarrow> cluster list" where
  "add_extremum tolerance [] v = [\<lparr>cl_Price = ex_Price v, cl_Touches = 1, cl_Last = int (ex_Index v)\<rparr>]"
| "add_extremum tolerance (c # cs) v =
     (if abs (cl_Price c - ex_Price v) / ex_Price v < tolerance then
        (let touches = cl_Touches c + 1 in
         \<lparr>cl_Price = (cl_Price c * of_int64 (touches - 1) + ex_Price v) / of_int64 touches,
          cl_Touches = touches, cl_Last = int (ex_Index v)\<rparr> # cs)
      else c # add_extremum tolerance cs v)"

definition clusterExtrema :: "f64 \<Rightarrow> extremum list \<Rightarrow> cluster list" where
  "clusterExtrema tolerance values =
     keep_last 3 (filter (\<lambda>c. 2 \<le> cl_Touches c) (foldl (add_extremum tolerance) [] values))"

definition detectLiquidity :: "Bar list \<Rightarrow> int \<Rightarrow> f64 \<Rightarrow> PriceLevel list \<times> PatternEvent list" where
  "detectLiquidity bars lookback tolerance =
     (let start = loop_start 5 bars lookback;
          indices = [start + 2 ..< length bars - 2];
          highs = map (\<lambda>i. \<lparr>ex_Price = bar_High (bars ! i), ex_Index = i\<rparr>) (filter (is_high bars) indices);
          lows = map (\<lambda>i. \<lparr>ex_Price = bar_Low (bars ! i), ex_Index = i\<rparr>) (filter (is_low bars) indices);
          highClusters = clusterExtrema tolerance highs;
          lowClusters = clusterExtrema tolerance lows;
          l = last bars;
          sweep = (\<lambda>side. \<lparr>pat_Kind = ''liquidity_sweep'', pat_Side = side, pat_Time = bar_OpenTime l\<rparr>)
      in (map (\<lambda>v. \<lparr>lv_Kind = ''equal_high'', lv_Side = ''sell_side'', lv_Price = cl_Price v, lv_Touches = cl_Touches v\<rparr>) highClusters @
          map (\<lambda>v. \<lparr>lv_Kind = ''equal_low'', lv_Side = ''buy_side'', lv_Price = cl_Price v, lv_Touches = cl_Touches v\<rparr>) lowClusters,
          map (\<lambda>v. sweep ''down'') (filter (\<lambda>v. cl_Price v < bar_High l \<and> bar_Close l < cl_Price v) highClusters) @
          map (\<lambda>v. sweep ''up'') (filter (\<lambda>v. bar_Low l < cl_Price v \<and> cl_Price v < bar_Close l) lowClusters)))"

subsection \<open>Where zones come from\<close>

lemma fvg_gap_cases:
  assumes "fvg_gap f middle l = Some (side, topP, botP, edge, gap)"
  shows "botP < topP \<and> (simpleMarubozu f \<or> simpleMarubozu middle \<or> simpleMarubozu l) \<and>
    (side = ''up'' \<and> topP = bar_Low l \<and> botP = bar_High f \<and> edge = bar_High f \<or>
     side = ''down'' \<and> topP = bar_Low f \<and> botP = bar_High l \<and> edge = bar_Low f \<and> \<not> bar_High f < bar_Low l)"
  using assms by (auto simp: fvg_gap_def Let_def split: if_splits)

text \<open>
  A gap at \<open>i\<close>: one of the three bars up to \<open>i\<close> is a marubozu, the price left the gap with the bar at \<open>i\<close> and
  no later bar came back through it. Bars that are inverted (a high below the low) may show both sides; the
  upper side is taken then.
\<close>

definition open_gap :: "Bar list \<Rightarrow> nat \<Rightarrow> PriceZone \<Rightarrow> bool" where
  "open_gap bars i z \<longleftrightarrow> 2 \<le> i \<and> i < length bars \<and> zone_FromTime z = bar_OpenTime (bars ! i) \<and> zone_Bottom z < zone_Top z \<and>
     (simpleMarubozu (bars ! (i - 2)) \<or> simpleMarubozu (bars ! (i - 1)) \<or> simpleMarubozu (bars ! i)) \<and>
     (zone_Side z = ''up'' \<and> zone_Bottom z = bar_High (bars ! (i - 2)) \<and> zone_Top z = bar_Low (bars ! i) \<and>
        (\<forall>j. i < j \<and> j < length bars \<longrightarrow> \<not> bar_Low (bars ! j) \<le> zone_Bottom z) \<or>
      zone_Side z = ''down'' \<and> zone_Top z = bar_Low (bars ! (i - 2)) \<and> zone_Bottom z = bar_High (bars ! i) \<and>
        \<not> bar_High (bars ! (i - 2)) < bar_Low (bars ! i) \<and>
        (\<forall>j. i < j \<and> j < length bars \<longrightarrow> \<not> zone_Top z \<le> bar_High (bars ! j)))"

lemma list_ex_drop: "list_ex P (drop n xs) \<longleftrightarrow> (\<exists>j. n \<le> j \<and> j < length xs \<and> P (xs ! j))"
proof
  assume "list_ex P (drop n xs)"
  then obtain k where "k < length xs - n" "P (drop n xs ! k)" by (auto simp: list_ex_iff in_set_conv_nth)
  then show "\<exists>j. n \<le> j \<and> j < length xs \<and> P (xs ! j)" by (intro exI [of _ "n + k"]) simp
next
  assume "\<exists>j. n \<le> j \<and> j < length xs \<and> P (xs ! j)"
  then obtain j where "n \<le> j" "j < length xs" "P (xs ! j)" by blast
  then have "j - n < length (drop n xs)" "P (drop n xs ! (j - n))" by simp_all
  then show "list_ex P (drop n xs)" unfolding list_ex_iff using nth_mem by blast
qed

lemma fvg_at_open:
  assumes "fvg_at bars i = Some z" and "2 \<le> i" and "i < length bars"
  shows "open_gap bars i z"
proof -
  obtain side topP botP edge gap where g: "fvg_gap (bars ! (i - 2)) (bars ! (i - 1)) (bars ! i) = Some (side, topP, botP, edge, gap)"
    using assms(1) by (auto simp: fvg_at_def Let_def split: option.splits)
  have z: "\<not> fvg_filled side edge (drop (i + 1) bars)" "zone_Side z = side" "zone_Top z = topP" "zone_Bottom z = botP"
      "zone_FromTime z = bar_OpenTime (bars ! i)"
    using assms(1) g by (auto simp: fvg_at_def Let_def split: if_splits)
  then have "\<not> (\<exists>j. i + 1 \<le> j \<and> j < length bars \<and>
      ((side = ''up'' \<and> bar_Low (bars ! j) \<le> edge) \<or> (side = ''down'' \<and> edge \<le> bar_High (bars ! j))))"
    by (simp add: fvg_filled_def list_ex_drop)
  with fvg_gap_cases [OF g] z assms(2,3) show ?thesis by (auto simp: open_gap_def)
qed

lemma open_gap_detected:
  assumes "open_gap bars i z"
  shows "\<exists>z'. fvg_at bars i = Some z' \<and> zone_FromTime z' = zone_FromTime z"
proof -
  let ?l = "bars ! i" and ?f = "bars ! (i - 2)"
  have fill: "\<not> fvg_filled side edge (drop (i + 1) bars)"
    if "\<forall>j. i < j \<and> j < length bars \<longrightarrow> \<not> ((side = ''up'' \<and> bar_Low (bars ! j) \<le> edge) \<or> (side = ''down'' \<and> edge \<le> bar_High (bars ! j)))"
    for side edge using that by (auto simp: fvg_filled_def list_ex_drop)
  from assms consider "bar_High ?f < bar_Low ?l" "\<not> fvg_filled ''up'' (bar_High ?f) (drop (i + 1) bars)"
    | "\<not> bar_High ?f < bar_Low ?l" "bar_High ?l < bar_Low ?f" "\<not> fvg_filled ''down'' (bar_Low ?f) (drop (i + 1) bars)"
    using fill [of "''up''" "bar_High ?f"] fill [of "''down''" "bar_Low ?f"] by (auto simp: open_gap_def)
  then show ?thesis using assms by cases (simp_all add: fvg_at_def fvg_gap_def open_gap_def Let_def)
qed

lemma fvg_at_iff:
  assumes "2 \<le> i" and "i < length bars"
  shows "fvg_at bars i \<noteq> None \<longleftrightarrow> (\<exists>z. open_gap bars i z)"
  using fvg_at_open [OF _ assms] open_gap_detected by (metis option.distinct(1) option.exhaust)

lemma map_map_filter:
  assumes "\<And>x y. x \<in> set xs \<Longrightarrow> f x = Some y \<Longrightarrow> g y = h x"
  shows "map g (List.map_filter f xs) = map h (filter (\<lambda>x. f x \<noteq> None) xs)"
  using assms by (induction xs) (auto simp: List.map_filter_def)

lemma map_keep_last: "map f (keep_last n xs) = keep_last n (map f xs)"
  by (simp add: keep_last_alt drop_map)

text \<open>The gaps are reported in the order of the bars that opened them, the latest eight of the window.\<close>

lemma detectFVG_complete:
  "map zone_FromTime (detectFVG bars lookback) =
     keep_last 8 (map (\<lambda>i. bar_OpenTime (bars ! i))
       (filter (\<lambda>i. \<exists>z. open_gap bars i z) [loop_start 2 bars lookback ..< length bars]))"
proof -
  let ?is = "[loop_start 2 bars lookback ..< length bars]"
  have start: "2 \<le> i \<and> i < length bars" if "i \<in> set ?is" for i using that by (auto simp: loop_start_def)
  have "zone_FromTime z = bar_OpenTime (bars ! i)" if "i \<in> set ?is" "fvg_at bars i = Some z" for i z
    using fvg_at_open [OF that(2)] start [OF that(1)] by (simp add: open_gap_def)
  then have "map zone_FromTime (List.map_filter (fvg_at bars) ?is) =
      map (\<lambda>i. bar_OpenTime (bars ! i)) (filter (\<lambda>i. fvg_at bars i \<noteq> None) ?is)"
    by (rule map_map_filter)
  moreover have "filter (\<lambda>i. fvg_at bars i \<noteq> None) ?is = filter (\<lambda>i. \<exists>z. open_gap bars i z) ?is"
    using fvg_at_iff start by (intro filter_cong) blast+
  ultimately show ?thesis by (simp add: detectFVG_def map_keep_last)
qed

lemma set_map_filter: "set (List.map_filter f xs) = {y. \<exists>x \<in> set xs. f x = Some y}"
  by (induction xs) (auto simp: List.map_filter_def)

lemma detectFVG_open:
  assumes "z \<in> set (detectFVG bars lookback)"
  shows "\<exists>i. open_gap bars i z"
proof -
  have "z \<in> set (List.map_filter (fvg_at bars) [loop_start 2 bars lookback ..< length bars])"
    using assms set_keep_last_subset by (fastforce simp: detectFVG_def)
  then obtain i where "fvg_at bars i = Some z" "loop_start 2 bars lookback \<le> i" "i < length bars"
    by (auto simp: set_map_filter)
  moreover have "2 \<le> loop_start 2 bars lookback" by (simp add: loop_start_def)
  ultimately have "open_gap bars i z" by (intro fvg_at_open) auto
  then show ?thesis ..
qed

lemma ob_find_sound:
  "ob_find bars side n k = Some bar \<Longrightarrow> \<exists>j. j < n \<and> n \<le> j + k \<and> bar = bars ! j \<and>
     ((side = ''up'' \<and> \<not> cf_Up (features bar)) \<or> (side = ''down'' \<and> cf_Up (features bar)))"
proof (induction bars side n k rule: ob_find.induct)
  case (3 bars side i k)
  show ?case
  proof (cases "(side = ''up'' \<and> \<not> cf_Up (features (bars ! i))) \<or> (side = ''down'' \<and> cf_Up (features (bars ! i)))")
    case True
    with 3(2) show ?thesis by (intro exI [of _ i]) auto
  next
    case False
    with 3(2) have "ob_find bars side i k = Some bar" by auto
    from 3(1) [OF refl False this] obtain j where "j < i" "i \<le> j + k" "bar = bars ! j"
        "(side = ''up'' \<and> \<not> cf_Up (features bar)) \<or> (side = ''down'' \<and> cf_Up (features bar))" by blast
    then show ?thesis by (intro exI [of _ j]) simp
  qed
qed simp_all

text \<open>On bars in order of time the binary search finds the bar that opened the gap.\<close>

lemma gap_index_exact:
  assumes "sorted_wrt (\<lambda>a b. bar_OpenTime a < bar_OpenTime b) bars" and "i < length bars" and "zone_FromTime gap = bar_OpenTime (bars ! i)"
  shows "gap_index bars gap = i"
proof -
  let ?P = "\<lambda>k. i \<le> k"
  have eq: "(\<not> bar_OpenTime (bars ! k) < zone_FromTime gap) = (i \<le> k)" if "k < length bars" for k
    using assms that sorted_wrt_nth_less [OF assms(1)] by (metis less_imp_not_less linorder_not_less order_less_le)
  have "search_loop (\<lambda>k. \<not> bar_OpenTime (bars ! k) < zone_FromTime gap) a b = search_loop ?P a b" if "b \<le> length bars" for a b
    using that
  proof (induction ?P a b rule: search_loop.induct)
    case (1 a b)
    show ?case
    proof (cases "a < b")
      case True
      then have "(a + b) div 2 < length bars" using 1(3) by auto
      with eq have "(\<not> bar_OpenTime (bars ! ((a + b) div 2)) < zone_FromTime gap) = (i \<le> (a + b) div 2)" by blast
      with 1 True show ?thesis
        by (cases "i \<le> (a + b) div 2") (simp_all add: search_loop.simps [of _ a b] Let_def)
    qed (simp add: search_loop.simps [of _ a b])
  qed
  then have "gap_index bars gap = search_loop ?P 0 (length bars)" by (simp add: gap_index_def sort_search_def)
  moreover have "search_loop ?P 0 (length bars) = i"
  proof -
    let ?r = "search_loop ?P 0 (length bars)"
    have spec: "?r \<le> length bars \<and> (\<forall>k < ?r. \<not> i \<le> k) \<and> (\<forall>k. ?r \<le> k \<longrightarrow> k < length bars \<longrightarrow> i \<le> k)"
      by (rule search_loop_spec) auto
    then have "?r \<le> i" by (meson not_le order_refl)
    moreover have "i \<le> ?r" using spec assms(2) \<open>?r \<le> i\<close> by auto
    ultimately show ?thesis by simp
  qed
  ultimately show ?thesis by simp
qed

lemma detectOrderBlocks_member:
  assumes "z \<in> set (detectOrderBlocks bars gaps)"
  shows "\<exists>gap \<in> set gaps. order_block bars gap = Some z"
  using assms set_keep_last_subset by (fastforce simp: detectOrderBlocks_def set_map_filter)

subsection \<open>Properties\<close>

text \<open>
  C30. The fair value gaps reported are the open gaps of the window, the latest eight of them in the
  order of their bars: each one reported is a real gap (one of its three bars is a marubozu, its bounds are the
  facing extremes of two bars two apart, the upper bound is strictly above the lower one, and no bar after the
  one that opened it came back to the far edge), and no such gap of the window is left out but for the limit.
\<close>

theorem fvg_sound:
  "(\<forall>z \<in> set (detectFVG bars lookback). \<exists>i. open_gap bars i z) \<and>
   map zone_FromTime (detectFVG bars lookback) =
     keep_last 8 (map (\<lambda>i. bar_OpenTime (bars ! i))
       (filter (\<lambda>i. \<exists>z. open_gap bars i z) [nat (max 2 (int (length bars) - lookback)) ..< length bars]))"
  using detectFVG_open detectFVG_complete [unfolded loop_start_def] by blast

definition gap_bars :: "Bar list" where
  "gap_bars = [(sample_bar 1 9)\<lparr>bar_Open := lit 9, bar_Close := lit 1\<rparr>,
     (sample_bar 2 9)\<lparr>bar_Open := lit 1, bar_Close := lit 9\<rparr>,
     (sample_bar 3 20)\<lparr>bar_Open := lit 12, bar_Low := lit 12, bar_High := lit 20\<rparr>]"

lemma lit_below_one: "flt (lit (4 / 5)) (Fin 1)"
proof -
  have "ulp_exp (7 / 8) \<le> - 3" using ulp_exp_le [of "7 / 8" 0] by simp
  then have "rnd_pos (7 / 8) = 7 / 8"
    by (intro rnd_pos_exact [where n = 7 and j = "- 3"]) (simp_all add: power_int_def power3_eq_cube)
  moreover have "rnd_pos (4 / 5) \<le> rnd_pos (7 / 8)" by (intro rnd_pos_mono) auto
  ultimately have "rnd_pos (4 / 5) \<le> 7 / 8" by simp
  moreover have "(1::rat) < f64_limit" by (simp add: f64_limit_def one_less_power)
  ultimately show ?thesis by (simp add: rnd_pos_case)
qed

lemma gap_bars_marubozu: "simpleMarubozu (gap_bars ! 1)"
  using lit_below_one
  by (simp add: simpleMarubozu_def features_def Let_def gap_bars_def sample_bar_def f64_ops fadd_def fdiv_def feq_def)

lemma gap_bars_gap: "\<exists>z. detectFVG gap_bars 150 = [z] \<and> zone_Side z = ''up'' \<and> zone_FromTime z = 3 * minute"
proof -
  have "fvg_gap (gap_bars ! 0) (gap_bars ! 1) (gap_bars ! 2) = Some (''up'', lit 12, lit 9, lit 9, lit 12 - lit 9)"
    using gap_bars_marubozu by (simp add: fvg_gap_def gap_bars_def sample_bar_def f64_ops)
  then have "\<exists>z. fvg_at gap_bars 2 = Some z \<and> zone_Side z = ''up'' \<and> zone_FromTime z = 3 * minute"
    by (simp add: fvg_at_def Let_def fvg_filled_def) (simp add: gap_bars_def sample_bar_def)
  moreover have "[loop_start 2 gap_bars 150 ..< length gap_bars] = [2]" by (simp add: loop_start_def gap_bars_def upt_rec)
  ultimately show ?thesis by (auto simp: detectFVG_def List.map_filter_def)
qed

theorem fvg_sound_witness:
  "\<exists>z. z \<in> set (detectFVG gap_bars 150) \<and> (\<exists>i. open_gap gap_bars i z)"
  using fvg_sound [of gap_bars 150] gap_bars_gap by fastforce

text \<open>
  On bars in order of time at most six order blocks are reported, and each is a candle against
  the move: it precedes the open gap it belongs to by two to five bars, closed against the side of
  that gap, and lends the zone its high, its low and its time.
\<close>

theorem order_blocks_sound:
  assumes "sorted_wrt (\<lambda>a b. bar_OpenTime a < bar_OpenTime b) bars" and "z \<in> set (detectOrderBlocks bars (detectFVG bars lookback))"
  shows "length (detectOrderBlocks bars (detectFVG bars lookback)) \<le> 6 \<and>
    (\<exists>gap i j. open_gap bars i gap \<and> zone_Side z = zone_Side gap \<and> j + 2 \<le> i \<and> i \<le> j + 5 \<and>
       zone_FromTime z = bar_OpenTime (bars ! j) \<and> zone_Top z = bar_High (bars ! j) \<and> zone_Bottom z = bar_Low (bars ! j) \<and>
       cf_Up (features (bars ! j)) = (zone_Side gap = ''down''))"
proof -
  obtain gap where gap: "gap \<in> set (detectFVG bars lookback)" "order_block bars gap = Some z"
    using detectOrderBlocks_member [OF assms(2)] by blast
  obtain i where i: "open_gap bars i gap" using detectFVG_open [OF gap(1)] by blast
  then have "gap_index bars gap = i" using assms(1) by (intro gap_index_exact) (auto simp: open_gap_def)
  then obtain bar where bar: "ob_find bars (zone_Side gap) (i - 1) 4 = Some bar" "zone_Side z = zone_Side gap"
      "zone_FromTime z = bar_OpenTime bar" "zone_Top z = bar_High bar" "zone_Bottom z = bar_Low bar"
    using gap(2) by (auto simp: order_block_def split: option.splits)
  obtain j where "j < i - 1" "i - 1 \<le> j + 4" "bar = bars ! j"
      "(zone_Side gap = ''up'' \<and> \<not> cf_Up (features bar)) \<or> (zone_Side gap = ''down'' \<and> cf_Up (features bar))"
    using ob_find_sound [OF bar(1)] by blast
  with i bar have "open_gap bars i gap \<and> zone_Side z = zone_Side gap \<and> j + 2 \<le> i \<and> i \<le> j + 5 \<and>
       zone_FromTime z = bar_OpenTime (bars ! j) \<and> zone_Top z = bar_High (bars ! j) \<and> zone_Bottom z = bar_Low (bars ! j) \<and>
       cf_Up (features (bars ! j)) = (zone_Side gap = ''down'')"
    by auto
  then show ?thesis by (auto simp: detectOrderBlocks_def)
qed

lemma gap_bars_sorted: "sorted_wrt (\<lambda>a b. bar_OpenTime a < bar_OpenTime b) gap_bars"
  by (simp add: gap_bars_def sample_bar_def minute_def second_def nanos_def)

lemma gap_bars_block: "\<exists>z. detectOrderBlocks gap_bars (detectFVG gap_bars 150) = [z]"
proof -
  obtain gap where gap: "detectFVG gap_bars 150 = [gap]" "zone_Side gap = ''up''" "zone_FromTime gap = 3 * minute"
    using gap_bars_gap by blast
  have "gap_index gap_bars gap = 2"
    using gap(3) by (intro gap_index_exact [OF gap_bars_sorted]) (simp_all add: gap_bars_def sample_bar_def)
  moreover have "\<not> cf_Up (features (gap_bars ! 0))"
    by (simp add: features_def Let_def gap_bars_def sample_bar_def f64_ops fle_def feq_def)
  then have "ob_find gap_bars ''up'' (Suc 0) 4 = Some (gap_bars ! 0)" by (simp add: eval_nat_numeral)
  ultimately have "\<exists>z. order_block gap_bars gap = Some z" using gap(2) by (simp add: order_block_def Let_def)
  with gap(1) show ?thesis by (auto simp: detectOrderBlocks_def List.map_filter_def)
qed

theorem order_blocks_sound_witness:
  "\<exists>z. z \<in> set (detectOrderBlocks gap_bars (detectFVG gap_bars 150)) \<and> (\<exists>i gap. open_gap gap_bars i gap \<and> zone_Side z = zone_Side gap)"
proof -
  obtain z where z: "z \<in> set (detectOrderBlocks gap_bars (detectFVG gap_bars 150))" using gap_bars_block by fastforce
  with order_blocks_sound [OF gap_bars_sorted z] show ?thesis by blast
qed

end
