(* ===== verification/Market_Structure.thy ===== *)
theory Market_Structure
  imports Market_Zones
begin

text \<open>
  The second half of \<^verbatim>\<open>internal/indicator/market.go\<close>: average true range, zigzag swings, the
  merge of shallow pullbacks, breakouts and structure events, ranges, key levels, trend and the
  premium/discount zone, and \<^verbatim>\<open>EvaluateMarket\<close>, which combines them.
\<close>

record indexedSwing =
  xs_Index :: nat
  xs_Type :: string
  xs_Price :: f64
  xs_Time :: time
  xs_ConfirmIndex :: nat
  xs_ConfirmTime :: time
  xs_Label :: string

record indexedStructure =
  ix_Kind :: string
  ix_Side :: string
  ix_Price :: f64
  ix_Time :: time
  ix_Zone :: "PriceZone option"

subsection \<open>Average true range and zigzag\<close>

text \<open>The loop at \<open>index\<close> with the previous bar, the running sum and the previous output.\<close>

fun atr_loop :: "int \<Rightarrow> nat \<Rightarrow> Bar option \<Rightarrow> f64 \<Rightarrow> f64 \<Rightarrow> Bar list \<Rightarrow> f64 list" where
  "atr_loop period index prev acc out [] = []"
| "atr_loop period index prev acc out (bar # bars) =
     (let hl = bar_High bar - bar_Low bar;
          trueRange = (case prev of None \<Rightarrow> hl
            | Some p \<Rightarrow> fmax (fmax hl (abs (bar_High bar - bar_Close p))) (abs (bar_Low bar - bar_Close p)));
          acc' = (if int index < period then acc + trueRange else acc);
          out' = (if int index < period then acc' / of_int64 (int index + 1)
                  else (out * of_int64 (period - 1) + trueRange) / of_int64 period)
      in out' # atr_loop period (index + 1) (Some bar) acc' out' bars)"

definition averageTrueRange :: "Bar list \<Rightarrow> int \<Rightarrow> f64 list" where
  "averageTrueRange bars period = atr_loop period 0 None 0 0 bars"

definition deviation :: "MarketConfig \<Rightarrow> f64 list \<Rightarrow> nat \<Rightarrow> f64 \<Rightarrow> f64" where
  "deviation config atr index price =
     (if price \<le> 0 then cfg_MinSwingPct config
      else fmax (cfg_MinSwingPct config) (cfg_ATRMult config * atr ! index / price))"

record zigzag_state =
  zz_swings :: "indexedSwing list"
  zz_direction :: int
  zz_highIndex :: nat
  zz_lowIndex :: nat

definition zigzag_step :: "Bar list \<Rightarrow> MarketConfig \<Rightarrow> f64 list \<Rightarrow> zigzag_state \<Rightarrow> nat \<Rightarrow> zigzag_state" where
  "zigzag_step bars config atr z index =
     (let hi = (if bar_High (bars ! zz_highIndex z) < bar_High (bars ! index) then index else zz_highIndex z);
          lo = (if bar_Low (bars ! index) < bar_Low (bars ! zz_lowIndex z) then index else zz_lowIndex z);
          h = bar_High (bars ! hi); l = bar_Low (bars ! lo)
      in if 0 \<le> zz_direction z \<and> bar_Low (bars ! index) \<le> h * (1 - deviation config atr index h) then
           \<lparr>zz_swings = zz_swings z @ [\<lparr>xs_Index = hi, xs_Type = ''H'', xs_Price = h, xs_Time = bar_OpenTime (bars ! hi),
              xs_ConfirmIndex = index, xs_ConfirmTime = bar_OpenTime (bars ! index), xs_Label = []\<rparr>],
            zz_direction = - 1, zz_highIndex = hi, zz_lowIndex = index\<rparr>
         else if zz_direction z \<le> 0 \<and> l * (1 + deviation config atr index l) \<le> bar_High (bars ! index) then
           \<lparr>zz_swings = zz_swings z @ [\<lparr>xs_Index = lo, xs_Type = ''L'', xs_Price = l, xs_Time = bar_OpenTime (bars ! lo),
              xs_ConfirmIndex = index, xs_ConfirmTime = bar_OpenTime (bars ! index), xs_Label = []\<rparr>],
            zz_direction = 1, zz_highIndex = index, zz_lowIndex = lo\<rparr>
         else z\<lparr>zz_highIndex := hi, zz_lowIndex := lo\<rparr>)"

definition zigzag :: "Bar list \<Rightarrow> MarketConfig \<Rightarrow> indexedSwing list" where
  "zigzag bars config =
     (let atr = averageTrueRange bars (cfg_ATRPeriod config)
      in zz_swings (foldl (zigzag_step bars config atr)
           \<lparr>zz_swings = [], zz_direction = 0, zz_highIndex = 0, zz_lowIndex = 0\<rparr> [1 ..< length bars]))"

subsection \<open>Pullbacks\<close>

definition structureMarubozu :: "Bar \<Rightarrow> int \<Rightarrow> bool" where
  "structureMarubozu bar direction \<longleftrightarrow>
     (let v = features bar in
      cf_Direction v = direction \<and>
      (lit (7 / 10) \<le> cf_BodyRatio v \<or>
       (0 < direction \<and> lit (5 / 10) \<le> cf_BodyRatio v \<and> lit (9 / 10) \<le> cf_CloseLocation v) \<or>
       (direction < 0 \<and> lit (5 / 10) \<le> cf_BodyRatio v \<and> cf_CloseLocation v \<le> lit (1 / 10))))"

text \<open>Downwards from index \<open>i - 1\<close>, until five marubozu bars were seen.\<close>

fun reference_loop :: "Bar list \<Rightarrow> nat \<Rightarrow> nat \<Rightarrow> f64 \<Rightarrow> f64" where
  "reference_loop bars 0 seen maximum = maximum"
| "reference_loop bars (Suc i) seen maximum =
     (if seen < 5 then
        (let v = features (bars ! i) in
         if lit (7 / 10) \<le> cf_BodyRatio v \<or> (lit (5 / 10) \<le> cf_BodyRatio v \<and>
              (lit (9 / 10) \<le> cf_CloseLocation v \<or> cf_CloseLocation v \<le> lit (1 / 10)))
         then reference_loop bars i (seen + 1) (fmax maximum (cf_Range v))
         else reference_loop bars i seen maximum)
      else maximum)"

definition marubozuReference :: "Bar list \<Rightarrow> nat \<Rightarrow> f64" where
  "marubozuReference bars index = reference_loop bars index 0 0"

definition validPullback :: "Bar list \<Rightarrow> nat \<Rightarrow> nat \<Rightarrow> int \<Rightarrow> MarketConfig \<Rightarrow> bool" where
  "validPullback bars from to direction config \<longleftrightarrow>
     list_ex (\<lambda>index.
       structureMarubozu (bars ! index) direction \<and>
       (structureMarubozu (bars ! (index + 1)) direction \<or>
        (let reference = marubozuReference bars index; v = features (bars ! index) in
         0 < reference \<and> cfg_BigVsReference config * reference \<le> cf_Range v \<and>
         cf_Range (features (bars ! (index + 1))) \<le> cfg_OppositeSmallMax config * cf_Range v)))
       [from ..< to]"

text \<open>The body of the inner loop: \<open>Some\<close> are the swings after a merge at \<open>index\<close>.\<close>

definition merge_at :: "Bar list \<Rightarrow> MarketConfig \<Rightarrow> indexedSwing list \<Rightarrow> nat \<Rightarrow> indexedSwing list option" where
  "merge_at bars config swings index =
     (let f = swings ! (index - 1); middle = swings ! index; l = swings ! (index + 1);
          direction = (if xs_Type middle = ''L'' then - 1 else 1);
          depth = abs (xs_Price f - xs_Price middle);
          impulse = (if 2 \<le> index then abs (xs_Price f - xs_Price (swings ! (index - 2)))
                     else abs (xs_Price l - xs_Price middle));
          retrace = (if 0 < impulse then depth / impulse else 1);
          drop_before = take (index - 1) swings @ drop (index + 1) swings;
          drop_after = take index swings @ drop (index + 2) swings
      in if validPullback bars (xs_Index f) (xs_Index middle) direction config \<or>
            cfg_MinPullbackFrac config \<le> retrace then None
         else if xs_Type f = ''H'' then
           (if xs_Price f \<le> xs_Price l then Some drop_before else Some drop_after)
         else if xs_Price l \<le> xs_Price f then Some drop_before
         else Some drop_after)"

fun merge_scan :: "Bar list \<Rightarrow> MarketConfig \<Rightarrow> indexedSwing list \<Rightarrow> nat list \<Rightarrow> indexedSwing list option" where
  "merge_scan bars config swings [] = None"
| "merge_scan bars config swings (i # is) =
     (case merge_at bars config swings i of
        Some s \<Rightarrow> Some s
      | None \<Rightarrow> merge_scan bars config swings is)"

lemma merge_at_shorter:
  assumes "merge_at bars config swings i = Some s" and "1 \<le> i" and "i + 1 < length swings"
  shows "length s + 2 = length swings"
  using assms by (auto simp: merge_at_def Let_def split: if_splits)

lemma merge_scan_shorter:
  assumes "merge_scan bars config swings is = Some s"
    and "\<And>i. i \<in> set is \<Longrightarrow> 1 \<le> i \<and> i + 1 < length swings"
  shows "length s + 2 = length swings"
  using assms
proof (induction "is")
  case Nil
  then show ?case by simp
next
  case (Cons i "is")
  then show ?case
    by (cases "merge_at bars config swings i") (auto dest: merge_at_shorter)
qed

function mergeByValidPullback :: "Bar list \<Rightarrow> indexedSwing list \<Rightarrow> MarketConfig \<Rightarrow> indexedSwing list" where
  "mergeByValidPullback bars swings config =
     (if length swings \<ge> 3 then
        (case merge_scan bars config swings [1 ..< length swings - 1] of
           None \<Rightarrow> swings
         | Some s \<Rightarrow> mergeByValidPullback bars s config)
      else swings)"
  by pat_completeness auto
termination
proof (relation "measure (\<lambda>(bars, swings, config). length swings)")
  fix bars :: "Bar list" and swings config s
  assume "3 \<le> length swings" and s: "merge_scan bars config swings [1 ..< length swings - 1] = Some s"
  have "length s + 2 = length swings" by (rule merge_scan_shorter [OF s]) auto
  then show "((bars, s, config), bars, swings, config) \<in> measure (\<lambda>(bars, swings, config). length swings)"
    by simp
qed simp

declare mergeByValidPullback.simps [simp del]

subsection \<open>Breakouts\<close>

record breakoutResult =
  br_Status :: string
  br_ConfirmIndex :: nat
  br_Excursion :: f64

definition breakout :: "string \<Rightarrow> nat \<Rightarrow> f64 \<Rightarrow> breakoutResult" where
  "breakout status i x = \<lparr>br_Status = status, br_ConfirmIndex = i, br_Excursion = x\<rparr>"

definition evaluateBreakout :: "Bar list \<Rightarrow> nat \<Rightarrow> f64 \<Rightarrow> int \<Rightarrow> MarketConfig \<Rightarrow> breakoutResult" where
  "evaluateBreakout bars index line direction config =
     (let beyond = (\<lambda>v. (0 < direction \<and> line < v) \<or> (direction < 0 \<and> v < line));
          f = bars ! index; ff = features f
      in if \<not> beyond (bar_Close f) then breakout ''none'' 0 0
      else let excursion = (if 0 < direction then bar_High f else bar_Low f)
      in if length bars \<le> index + 1 then breakout ''pending'' 0 excursion
      else let s = bars ! (index + 1); sf = features s;
          secondExcursion = (if 0 < direction then fmax (bar_High f) (bar_High s)
                             else fmin (bar_Low f) (bar_Low s))
      in if structureMarubozu f direction \<and> structureMarubozu s direction \<and> beyond (bar_Close s) \<and>
            ((0 < direction \<and> bar_Close f < bar_Close s) \<or> (direction < 0 \<and> bar_Close s < bar_Close f)) \<and>
            cfg_SecondMaruMin config * cf_Range ff \<le> cf_Range sf
         then breakout ''valid'' (index + 1) secondExcursion
      else let reference = marubozuReference bars index;
          penetration = (if 0 < cf_Body ff then
              (if 0 < direction then fmax 0 (bar_Close f - fmax (bar_Open f) line) / cf_Body ff
               else fmax 0 (fmin (bar_Open f) line - bar_Close f) / cf_Body ff)
            else 0);
          big = (0 < reference \<and> cfg_BigVsReference config * reference \<le> cf_Range ff);
          small = (cf_Range sf \<le> cfg_OppositeSmallMax config * cf_Range ff \<and>
            ((0 < direction \<and> cf_Mid ff \<le> bar_Low s) \<or> (direction < 0 \<and> bar_High s \<le> cf_Mid ff)));
          closedBack = ((0 < direction \<and> bar_Close s < line) \<or> (direction < 0 \<and> line < bar_Close s))
      in if structureMarubozu f direction \<and> big \<and> cfg_BreakBodyBeyond config < penetration \<and> small \<and> \<not> closedBack
         then breakout ''valid'' (index + 1) secondExcursion
      else if (structureMarubozu f direction \<or> cfg_BreakBodyBeyond config < penetration) \<and> \<not> closedBack
         then breakout ''valid'' (index + 1) secondExcursion
      else if closedBack then breakout ''fake'' (index + 1) secondExcursion
      else if structureMarubozu f direction then
        (let last_index = int index + 1 + cfg_PACWindow config in
         case find (\<lambda>current. (0 < direction \<and> secondExcursion < bar_Close (bars ! current)) \<or>
                              (direction < 0 \<and> bar_Close (bars ! current) < secondExcursion))
              [index + 2 ..< nat (min (int (length bars) - 1) last_index + 1)] of
           Some current \<Rightarrow> breakout ''valid'' current secondExcursion
         | None \<Rightarrow> if last_index \<le> int (length bars) - 1 then breakout ''fake'' (index + 1) secondExcursion
                   else breakout ''pending'' 0 secondExcursion)
      else breakout ''fake'' (index + 1) secondExcursion)"

text \<open>\<^verbatim>\<open>for start > 0 && ... { start-- }\<close>\<close>

fun false_break_start :: "Bar list \<Rightarrow> f64 \<Rightarrow> int \<Rightarrow> nat \<Rightarrow> nat" where
  "false_break_start bars reference direction 0 = 0"
| "false_break_start bars reference direction (Suc i) =
     (if (0 < direction \<and> reference < bar_High (bars ! i)) \<or> (direction < 0 \<and> bar_Low (bars ! i) < reference)
      then false_break_start bars reference direction i else Suc i)"

definition falseBreakZone :: "Bar list \<Rightarrow> f64 \<Rightarrow> nat \<Rightarrow> int \<Rightarrow> PriceZone" where
  "falseBreakZone bars reference swingIndex direction =
     (let start = false_break_start bars reference direction swingIndex;
          extreme = foldl (\<lambda>x i. if 0 < direction then fmax x (bar_High (bars ! i)) else fmin x (bar_Low (bars ! i)))
                      reference [start ..< swingIndex + 1];
          side = (if 0 < direction then ''up'' else ''down'')
      in \<lparr>zone_ID = zoneID ''false_break'' side (bar_OpenTime (bars ! start)) (fmax reference extreme) (fmin reference extreme),
          zone_Kind = ''false_break'', zone_Side = side, zone_Grade = [],
          zone_FromTime = bar_OpenTime (bars ! start), zone_ToTime = bar_OpenTime (bars ! swingIndex),
          zone_Top = fmax reference extreme, zone_Bottom = fmin reference extreme, zone_State = []\<rparr>)"

record scan_state =
  sc_events :: "indexedStructure list"
  sc_trend :: string
  sc_lastHigh :: "indexedSwing option"
  sc_lastLow :: "indexedSwing option"

definition structure_event :: "string \<Rightarrow> string \<Rightarrow> f64 \<Rightarrow> time \<Rightarrow> PriceZone option \<Rightarrow> indexedStructure" where
  "structure_event kind side price t z = \<lparr>ix_Kind = kind, ix_Side = side, ix_Price = price, ix_Time = t, ix_Zone = z\<rparr>"

text \<open>
  The swing \<open>swing\<close> goes beyond \<open>prev\<close>, the last swing of its type: the events to append and
  the new trend. \<open>direction\<close> is 1 for highs and -1 for lows; the two branches of the source are
  this body with the direction, the sides and the comparison exchanged.
\<close>

definition scan_break :: "Bar list \<Rightarrow> MarketConfig \<Rightarrow> int \<Rightarrow> indexedSwing \<Rightarrow> indexedSwing \<Rightarrow> string \<Rightarrow>
    indexedStructure list \<times> string" where
  "scan_break bars config direction prev swing trend =
     (let side = (if 0 < direction then ''up'' else ''down'');
          against = (if 0 < direction then ''down'' else ''up'');
          line = xs_Price prev;
          fake = (\<lambda>t. structure_event ''FAKE'' side line t (Some (falseBreakZone bars line (xs_Index swing) direction)))
      in case find (\<lambda>current. if 0 < direction then line < bar_Close (bars ! current) else bar_Close (bars ! current) < line)
              [xs_Index prev + 1 ..< xs_Index swing + 1] of
           None \<Rightarrow> ([fake (bar_OpenTime (bars ! xs_Index swing))], trend)
         | Some breakIndex \<Rightarrow>
             (let result = evaluateBreakout bars breakIndex line direction config in
              if br_Status result = ''valid'' then
                ([structure_event (if trend = against then ''CHoCH'' else ''BOS'') side line
                    (bar_OpenTime (bars ! br_ConfirmIndex result)) None], side)
              else if br_Status result = ''fake'' then ([fake (bar_OpenTime (bars ! breakIndex))], trend)
              else ([], trend)))"

definition scan_step :: "Bar list \<Rightarrow> MarketConfig \<Rightarrow> scan_state \<Rightarrow> indexedSwing \<Rightarrow> scan_state" where
  "scan_step bars config s swing =
     (if xs_Type swing = ''H'' then
        (case sc_lastHigh s of
           Some prev \<Rightarrow>
             if xs_Price prev < xs_Price swing then
               (let (evs, trend) = scan_break bars config 1 prev swing (sc_trend s)
                in s\<lparr>sc_events := sc_events s @ evs, sc_trend := trend, sc_lastHigh := Some swing\<rparr>)
             else s\<lparr>sc_lastHigh := Some swing\<rparr>
         | None \<Rightarrow> s\<lparr>sc_lastHigh := Some swing\<rparr>)
      else
        (case sc_lastLow s of
           Some prev \<Rightarrow>
             if xs_Price swing < xs_Price prev then
               (let (evs, trend) = scan_break bars config (- 1) prev swing (sc_trend s)
                in s\<lparr>sc_events := sc_events s @ evs, sc_trend := trend, sc_lastLow := Some swing\<rparr>)
             else s\<lparr>sc_lastLow := Some swing\<rparr>
         | None \<Rightarrow> s\<lparr>sc_lastLow := Some swing\<rparr>))"

definition scanBreaks :: "Bar list \<Rightarrow> indexedSwing list \<Rightarrow> MarketConfig \<Rightarrow> indexedStructure list" where
  "scanBreaks bars swings config =
     sc_events (foldl (scan_step bars config)
       \<lparr>sc_events = [], sc_trend = ''range'', sc_lastHigh = None, sc_lastLow = None\<rparr> swings)"


subsection \<open>Labels, ranges, levels, trend\<close>

text \<open>The side of the last confirmed event that is not after the swing.\<close>

definition trend_at :: "indexedStructure list \<Rightarrow> time \<Rightarrow> string" where
  "trend_at confirmed t =
     (case takeWhile (\<lambda>e. \<not> t < ix_Time e) confirmed of [] \<Rightarrow> ''unknown'' | es \<Rightarrow> ix_Side (last es))"

fun label_loop :: "indexedStructure list \<Rightarrow> f64 \<Rightarrow> f64 \<Rightarrow> indexedSwing list \<Rightarrow> indexedSwing list" where
  "label_loop confirmed lastHigh lastLow [] = []"
| "label_loop confirmed lastHigh lastLow (w # ws) =
     (let trend = trend_at confirmed (xs_Time w) in
      if xs_Type w = ''H'' then
        (let w' = (if trend = ''down'' then w\<lparr>xs_Label := ''LH''\<rparr>
                   else if \<not> isNaN lastHigh then
                     w\<lparr>xs_Label := (if lastHigh < xs_Price w then ''HH'' else ''LH'')\<rparr>
                   else w)
         in w' # label_loop confirmed (xs_Price w) lastLow ws)
      else
        (let w' = (if trend = ''up'' then w\<lparr>xs_Label := ''HL''\<rparr>
                   else if \<not> isNaN lastLow then
                     w\<lparr>xs_Label := (if xs_Price w < lastLow then ''LL'' else ''HL'')\<rparr>
                   else w)
         in w' # label_loop confirmed lastHigh (xs_Price w) ws))"

definition labelSwings :: "indexedSwing list \<Rightarrow> indexedStructure list \<Rightarrow> indexedSwing list" where
  "labelSwings swings events =
     label_loop (slice_sort (\<lambda>a b. ix_Time a < ix_Time b) (filter (\<lambda>e. ix_Kind e \<noteq> ''FAKE'') events)) NaN NaN swings"

text \<open>\<^verbatim>\<open>sort.Float64s\<close> orders NaN values first.\<close>

definition median :: "f64 list \<Rightarrow> f64" where
  "median values = slice_sort (\<lambda>a b. a < b \<or> (isNaN a \<and> \<not> isNaN b)) values ! (length values div 2)"

definition spread :: "f64 \<Rightarrow> f64 list \<Rightarrow> f64" where
  "spread middle values = (foldl fmax (hd values) (tl values) - foldl fmin (hd values) (tl values)) / middle"

definition detectRange :: "Bar list \<Rightarrow> indexedSwing list \<Rightarrow> MarketConfig \<Rightarrow> PriceZone option" where
  "detectRange bars swings config =
     (let recent = keep_last (nat (max (cfg_RangeMinSwings config) 6)) swings;
          highs = map xs_Price (filter (\<lambda>w. xs_Type w = ''H'') recent);
          lows = map xs_Price (filter (\<lambda>w. xs_Type w \<noteq> ''H'') recent)
      in if length highs < 2 \<or> length lows < 2 \<or> int (length recent) < cfg_RangeMinSwings config then None
         else let topP = median highs; botP = median lows; middle = (topP + botP) / lit 2
         in if cfg_EqualTolerance config * lit 3 < spread middle highs \<or>
               cfg_EqualTolerance config * lit 3 < spread middle lows \<or>
               cfg_RangeMaxHeight config < (topP - botP) / middle \<or> topP \<le> botP then None
            else Some \<lparr>zone_ID = zoneID ''range'' ''flat'' (xs_Time (hd recent)) topP botP, zone_Kind = ''range'',
                 zone_Side = ''flat'', zone_Grade = [], zone_FromTime = xs_Time (hd recent),
                 zone_ToTime = bar_OpenTime (last bars), zone_Top = topP, zone_Bottom = botP, zone_State = []\<rparr>)"

fun add_level :: "f64 \<Rightarrow> cluster list \<Rightarrow> indexedSwing \<Rightarrow> cluster list" where
  "add_level tolerance [] w = [\<lparr>cl_Price = xs_Price w, cl_Touches = 1, cl_Last = int (xs_Index w)\<rparr>]"
| "add_level tolerance (c # cs) w =
     (if abs (cl_Price c - xs_Price w) / xs_Price w < tolerance
      then c\<lparr>cl_Touches := cl_Touches c + 1, cl_Last := max (cl_Last c) (int (xs_Index w))\<rparr> # cs
      else c # add_level tolerance cs w)"

definition keyLevels :: "Bar list \<Rightarrow> indexedSwing list \<Rightarrow> MarketConfig \<Rightarrow> PriceLevel list" where
  "keyLevels bars swings config =
     (let establishedEnd = nat (max 0 (int (length swings) - cfg_LevelSwingLag config));
          clusters = foldl (add_level (cfg_LevelClusterTol config)) [] (take establishedEnd swings);
          lastPrice = bar_Close (last bars);
          near = filter (\<lambda>c. abs (cl_Price c - lastPrice) / lastPrice \<le> cfg_MaxLevelDistance config) clusters;
          ranked = slice_sort (\<lambda>a b. cl_Touches b < cl_Touches a \<or>
                     (cl_Touches a = cl_Touches b \<and> cl_Last b < cl_Last a)) near
      in map (\<lambda>c. \<lparr>lv_Kind = ''key_level'', lv_Side = (if lastPrice \<le> cl_Price c then ''resistance'' else ''support''),
                  lv_Price = cl_Price c, lv_Touches = cl_Touches c\<rparr>)
           (take (nat (cfg_MaxLevels config)) ranked))"

text \<open>The two most recent highs and lows, latest first.\<close>

definition marketTrend :: "indexedSwing list \<Rightarrow> indexedStructure list \<Rightarrow> bool \<Rightarrow> string" where
  "marketTrend swings events hasRange =
     (case find (\<lambda>e. ix_Kind e \<noteq> ''FAKE'') (rev events) of
        Some e \<Rightarrow> ix_Side e
      | None \<Rightarrow>
          if hasRange then ''range''
          else let highs = take 2 (filter (\<lambda>w. xs_Type w = ''H'') (rev swings));
                   lows = take 2 (filter (\<lambda>w. xs_Type w = ''L'') (rev swings))
          in if length highs = 2 \<and> length lows = 2 then
               (if xs_Price (highs ! 1) < xs_Price (highs ! 0) \<and> xs_Price (lows ! 1) < xs_Price (lows ! 0) then ''up''
                else if xs_Price (highs ! 0) < xs_Price (highs ! 1) \<and> xs_Price (lows ! 0) < xs_Price (lows ! 1) then ''down''
                else ''range'')
             else ''range'')"

text \<open>The last swing of type \<open>a\<close> and the last swing of type \<open>b\<close> before it.\<close>

definition last_leg :: "string \<Rightarrow> string \<Rightarrow> indexedSwing list \<Rightarrow> (indexedSwing \<times> indexedSwing) option" where
  "last_leg a b swings =
     (case dropWhile (\<lambda>w. xs_Type w \<noteq> a) (rev swings) of
        [] \<Rightarrow> None
      | w # earlier \<Rightarrow>
          (case find (\<lambda>v. xs_Type v = b) earlier of None \<Rightarrow> None | Some v \<Rightarrow> Some (w, v)))"

definition premiumDiscount :: "Bar list \<Rightarrow> indexedSwing list \<Rightarrow> string \<Rightarrow> PremiumDiscount option" where
  "premiumDiscount bars swings trend =
     (if length swings < 2 then None
      else let up = (trend \<noteq> ''down'');
          leg = (if up then last_leg ''H'' ''L'' swings
                 else map_option (\<lambda>(l, h). (h, l)) (last_leg ''L'' ''H'' swings))
      in case leg of
           None \<Rightarrow> None
         | Some (high, low) \<Rightarrow>
             if xs_Price high \<le> xs_Price low then None
             else let rangeValue = xs_Price high - xs_Price low;
                 poiBottom = (if up then xs_Price low + lit (2 / 10) * rangeValue
                              else xs_Price low + lit (618 / 1000) * rangeValue);
                 poiTop = (if up then xs_Price low + lit (382 / 1000) * rangeValue
                           else xs_Price low + lit (8 / 10) * rangeValue);
                 from = (if xs_Time low < xs_Time high then xs_Time low else xs_Time high)
             in Some \<lparr>pd_FromTime = from, pd_ToTime = bar_OpenTime (last bars), pd_Trend = trend,
                  pd_High = xs_Price high, pd_Low = xs_Price low,
                  pd_Equilibrium = (xs_Price high + xs_Price low) / lit 2,
                  pd_POITop = fmax poiTop poiBottom, pd_POIBottom = fmin poiTop poiBottom\<rparr>)"

definition publicSwings :: "indexedSwing list \<Rightarrow> Swing list" where
  "publicSwings values = map (\<lambda>v. \<lparr>sw_Type = xs_Type v, sw_Label = xs_Label v, sw_Price = xs_Price v,
     sw_Time = xs_Time v, sw_ConfirmTime = xs_ConfirmTime v\<rparr>) values"

definition publicStructure :: "indexedStructure list \<Rightarrow> StructureEvent list" where
  "publicStructure values = map (\<lambda>v. \<lparr>se_Kind = ix_Kind v, se_Side = ix_Side v, se_Price = ix_Price v,
     se_Time = ix_Time v, se_Zone = ix_Zone v\<rparr>) values"

subsection \<open>EvaluateMarket\<close>

definition structure_bars :: "MarketConfig \<Rightarrow> Bar list \<Rightarrow> Bar list" where
  "structure_bars config closedBars = (if cfg_RecentBars config < int (length closedBars)
     then drop (nat (int (length closedBars) - cfg_RecentBars config)) closedBars else closedBars)"

definition evaluate_structure :: "Bar list \<Rightarrow> MarketConfig \<Rightarrow> MarketState \<Rightarrow> MarketState" where
  "evaluate_structure closedBars config state =
     (let structureBars = structure_bars config closedBars in
      if int (length structureBars) < cfg_ATRPeriod config + 4 then state
      else let merged = mergeByValidPullback structureBars (zigzag structureBars config) config;
          events = scanBreaks structureBars merged config;
          swings = labelSwings merged events;
          range = detectRange structureBars swings config;
          trend = marketTrend swings events (range \<noteq> None);
          fullSwings = (if cfg_RecentBars config < int (length closedBars)
            then mergeByValidPullback closedBars (zigzag closedBars config) config else swings)
      in state\<lparr>ms_Trend := trend, ms_Swings := publicSwings swings, ms_Structure := publicStructure events,
           ms_Ranges := (case range of None \<Rightarrow> [] | Some z \<Rightarrow> [z]),
           ms_KeyLevels := keyLevels closedBars fullSwings config,
           ms_PremiumDiscount := premiumDiscount closedBars swings trend\<rparr>)"

definition EvaluateMarket :: "Bar list \<Rightarrow> MarketConfig \<Rightarrow> MarketState" where
  "EvaluateMarket bars config =
     (let state = zero_MarketState\<lparr>ms_Schema := ''market.state.v1'', ms_Algorithm := MarketAlgorithm config,
                    ms_Trend := ''range''\<rparr>;
          closedBars = filter bar_Closed bars
      in if closedBars = [] then state
         else let fvgs = detectFVG closedBars (cfg_FVGLookback config);
             blocks = detectOrderBlocks closedBars fvgs;
             (liquidity, sweeps) = detectLiquidity closedBars (cfg_LiquidityLookback config) (cfg_LiquidityTol config)
         in evaluate_structure closedBars config
              (state\<lparr>ms_AsOf := bar_OpenTime (last closedBars), ms_FVGs := annotateZoneStates closedBars fvgs,
                ms_OrderBlocks := annotateZoneStates closedBars blocks,
                ms_Patterns := detectPatterns closedBars (cfg_PatternLookback config),
                ms_Liquidity := liquidity, ms_LiquiditySweeps := sweeps\<rparr>))"

subsection \<open>The shape of the swings\<close>

text \<open>
  A swing is a recorded extreme of the bars, confirmed at its own bar or later; consecutive
  swings are of opposite types and the later one is not before the confirmation of the earlier.
\<close>

definition swing_ok :: "Bar list \<Rightarrow> indexedSwing \<Rightarrow> bool" where
  "swing_ok bars w \<longleftrightarrow> xs_Index w \<le> xs_ConfirmIndex w \<and> xs_ConfirmIndex w < length bars \<and>
     xs_Time w = bar_OpenTime (bars ! xs_Index w) \<and> xs_ConfirmTime w = bar_OpenTime (bars ! xs_ConfirmIndex w) \<and>
     (xs_Type w = ''H'' \<and> xs_Price w = bar_High (bars ! xs_Index w) \<or>
      xs_Type w = ''L'' \<and> xs_Price w = bar_Low (bars ! xs_Index w))"

definition follows :: "indexedSwing \<Rightarrow> indexedSwing \<Rightarrow> bool" where
  "follows a b \<longleftrightarrow> xs_Type a \<noteq> xs_Type b \<and> xs_ConfirmIndex a \<le> xs_Index b"

definition swings_ok :: "Bar list \<Rightarrow> indexedSwing list \<Rightarrow> bool" where
  "swings_ok bars ws \<longleftrightarrow> list_all (swing_ok bars) ws \<and> successively follows ws"

text \<open>The invariant of the loop before the bar at \<open>n\<close>.\<close>

definition zigzag_inv :: "Bar list \<Rightarrow> nat \<Rightarrow> zigzag_state \<Rightarrow> bool" where
  "zigzag_inv bars n z \<longleftrightarrow> swings_ok bars (zz_swings z) \<and> zz_highIndex z < n \<and> zz_lowIndex z < n \<and>
     (zz_swings z = [] \<and> zz_direction z = 0 \<or>
      zz_swings z \<noteq> [] \<and> zz_direction z = - 1 \<and> xs_Type (last (zz_swings z)) = ''H'' \<and>
        xs_ConfirmIndex (last (zz_swings z)) \<le> zz_lowIndex z \<or>
      zz_swings z \<noteq> [] \<and> zz_direction z = 1 \<and> xs_Type (last (zz_swings z)) = ''L'' \<and>
        xs_ConfirmIndex (last (zz_swings z)) \<le> zz_highIndex z)"

lemma swings_ok_snoc:
  assumes "swings_ok bars ws" and "swing_ok bars w" and "ws \<noteq> [] \<Longrightarrow> follows (last ws) w"
  shows "swings_ok bars (ws @ [w])"
  using assms by (auto simp: swings_ok_def successively_append_iff)

lemma zigzag_step_inv:
  assumes "zigzag_inv bars n z" and "n < length bars"
  shows "zigzag_inv bars (Suc n) (zigzag_step bars config atr z n)"
proof -
  let ?hi = "if bar_High (bars ! zz_highIndex z) < bar_High (bars ! n) then n else zz_highIndex z"
  let ?lo = "if bar_Low (bars ! n) < bar_Low (bars ! zz_lowIndex z) then n else zz_lowIndex z"
  let ?z = "zigzag_step bars config atr z n"
  let ?H = "\<lparr>xs_Index = ?hi, xs_Type = ''H'', xs_Price = bar_High (bars ! ?hi), xs_Time = bar_OpenTime (bars ! ?hi),
    xs_ConfirmIndex = n, xs_ConfirmTime = bar_OpenTime (bars ! n), xs_Label = []\<rparr>"
  let ?L = "\<lparr>xs_Index = ?lo, xs_Type = ''L'', xs_Price = bar_Low (bars ! ?lo), xs_Time = bar_OpenTime (bars ! ?lo),
    xs_ConfirmIndex = n, xs_ConfirmTime = bar_OpenTime (bars ! n), xs_Label = []\<rparr>"
  have b: "?hi \<le> n" "?lo \<le> n" "zz_highIndex z \<le> ?hi" "zz_lowIndex z \<le> ?lo"
    using assms(1) by (auto simp: zigzag_inv_def)
  consider (high) "0 \<le> zz_direction z" "?z = \<lparr>zz_swings = zz_swings z @ [?H], zz_direction = - 1, zz_highIndex = ?hi, zz_lowIndex = n\<rparr>"
    | (low) "zz_direction z \<le> 0" "?z = \<lparr>zz_swings = zz_swings z @ [?L], zz_direction = 1, zz_highIndex = n, zz_lowIndex = ?lo\<rparr>"
    | (none) "?z = z\<lparr>zz_highIndex := ?hi, zz_lowIndex := ?lo\<rparr>"
    unfolding zigzag_step_def Let_def by (metis (no_types, lifting))
  then show ?thesis
  proof cases
    case high
    have "swing_ok bars ?H" using b assms(2) by (simp add: swing_ok_def)
    moreover have "follows (last (zz_swings z)) ?H" if "zz_swings z \<noteq> []"
      using that assms(1) high(1) b(3) by (auto simp: zigzag_inv_def follows_def)
    ultimately have "swings_ok bars (zz_swings z @ [?H])"
      using assms(1) by (intro swings_ok_snoc) (auto simp: zigzag_inv_def)
    then show ?thesis unfolding high(2) using b by (simp add: zigzag_inv_def)
  next
    case low
    have "swing_ok bars ?L" using b assms(2) by (simp add: swing_ok_def)
    moreover have "follows (last (zz_swings z)) ?L" if "zz_swings z \<noteq> []"
      using that assms(1) low(1) b(4) by (auto simp: zigzag_inv_def follows_def)
    ultimately have "swings_ok bars (zz_swings z @ [?L])"
      using assms(1) by (intro swings_ok_snoc) (auto simp: zigzag_inv_def)
    then show ?thesis unfolding low(2) using b by (simp add: zigzag_inv_def)
  next
    case none
    then show ?thesis using assms(1) b unfolding none zigzag_inv_def by fastforce
  qed
qed

lemma zigzag_fold_inv:
  assumes "zigzag_inv bars m z" and "n \<le> length bars" and "m \<le> n"
  shows "zigzag_inv bars n (foldl (zigzag_step bars config atr) z [m ..< n])"
  using assms(3,2)
proof (induction n rule: dec_induct)
  case base
  then show ?case using assms(1) by simp
next
  case (step k)
  then show ?case using zigzag_step_inv by simp
qed

lemma zigzag_ok: "swings_ok bars (zigzag bars config)"
proof (cases "bars = []")
  case True
  then show ?thesis by (simp add: zigzag_def swings_ok_def)
next
  case False
  have "zigzag_inv bars 1 \<lparr>zz_swings = [], zz_direction = 0, zz_highIndex = 0, zz_lowIndex = 0\<rparr>"
    by (simp add: zigzag_inv_def swings_ok_def)
  from zigzag_fold_inv [OF this order_refl, of config "averageTrueRange bars (cfg_ATRPeriod config)"] False
  show ?thesis by (simp add: zigzag_def zigzag_inv_def Suc_le_eq)
qed

subsection \<open>The legs of the zigzag\<close>

text \<open>
  A leg starts at the bar that confirmed the previous swing (or at the first bar) and is read up to the bar at
  \<open>j\<close>. \<open>highest\<close> and \<open>lowest\<close> are its extremes; a drop or a rise from one of them that reaches the
  configured deviation confirms it as a swing.
\<close>

definition highest :: "Bar list \<Rightarrow> nat \<Rightarrow> nat \<Rightarrow> nat \<Rightarrow> bool" where
  "highest bars s j k \<longleftrightarrow> s \<le> k \<and> k \<le> j \<and> (\<forall>i. s \<le> i \<and> i \<le> j \<longrightarrow> \<not> bar_High (bars ! k) < bar_High (bars ! i))"

definition lowest :: "Bar list \<Rightarrow> nat \<Rightarrow> nat \<Rightarrow> nat \<Rightarrow> bool" where
  "lowest bars s j k \<longleftrightarrow> s \<le> k \<and> k \<le> j \<and> (\<forall>i. s \<le> i \<and> i \<le> j \<longrightarrow> \<not> bar_Low (bars ! i) < bar_Low (bars ! k))"

definition swing_size :: "Bar list \<Rightarrow> MarketConfig \<Rightarrow> nat \<Rightarrow> f64 \<Rightarrow> f64" where
  "swing_size bars config j price = deviation config (averageTrueRange bars (cfg_ATRPeriod config)) j price"

definition dropped :: "Bar list \<Rightarrow> MarketConfig \<Rightarrow> nat \<Rightarrow> nat \<Rightarrow> bool" where
  "dropped bars config j k \<longleftrightarrow>
     bar_Low (bars ! j) \<le> bar_High (bars ! k) * (1 - swing_size bars config j (bar_High (bars ! k)))"

definition risen :: "Bar list \<Rightarrow> MarketConfig \<Rightarrow> nat \<Rightarrow> nat \<Rightarrow> bool" where
  "risen bars config j k \<longleftrightarrow>
     bar_Low (bars ! k) * (1 + swing_size bars config j (bar_Low (bars ! k))) \<le> bar_High (bars ! j)"

text \<open>No swing is confirmed by the bar at \<open>j\<close>: neither the kinds that \<open>d\<close> (the direction) leaves open.\<close>

definition no_drop :: "Bar list \<Rightarrow> MarketConfig \<Rightarrow> int \<Rightarrow> nat \<Rightarrow> nat \<Rightarrow> bool" where
  "no_drop bars config d s j \<longleftrightarrow> (0 \<le> d \<longrightarrow> (\<exists>k. highest bars s j k \<and> \<not> dropped bars config j k))"

definition no_rise :: "Bar list \<Rightarrow> MarketConfig \<Rightarrow> int \<Rightarrow> nat \<Rightarrow> nat \<Rightarrow> bool" where
  "no_rise bars config d s j \<longleftrightarrow> (d \<le> 0 \<longrightarrow> (\<exists>k. lowest bars s j k \<and> \<not> risen bars config j k))"

definition quiet :: "Bar list \<Rightarrow> MarketConfig \<Rightarrow> int \<Rightarrow> nat \<Rightarrow> nat \<Rightarrow> bool" where
  "quiet bars config d s n \<longleftrightarrow> (\<forall>j. s < j \<and> j < n \<longrightarrow> no_drop bars config d s j \<and> no_rise bars config d s j)"

text \<open>The swings of the bars from \<open>s\<close> on, when the last one left the direction \<open>d\<close>.\<close>

fun swings_of :: "Bar list \<Rightarrow> MarketConfig \<Rightarrow> int \<Rightarrow> nat \<Rightarrow> indexedSwing list \<Rightarrow> bool" where
  "swings_of bars config d s [] \<longleftrightarrow> quiet bars config d s (length bars)"
| "swings_of bars config d s (w # ws) \<longleftrightarrow>
     (let c = xs_ConfirmIndex w; k = xs_Index w
      in s < c \<and> c < length bars \<and> quiet bars config d s c \<and>
         (if xs_Type w = ''H''
          then 0 \<le> d \<and> highest bars s c k \<and> xs_Price w = bar_High (bars ! k) \<and> dropped bars config c k \<and>
               swings_of bars config (- 1) c ws
          else d \<le> 0 \<and> lowest bars s c k \<and> xs_Price w = bar_Low (bars ! k) \<and> risen bars config c k \<and>
               no_drop bars config d s c \<and> swings_of bars config 1 c ws))"

lemma less_f64_trans: "(x :: f64) < y \<Longrightarrow> y < z \<Longrightarrow> x < z"
  unfolding less_f64_def by (blast intro: flt_fle_trans flt_imp_fle)

lemma less_f64_irrefl [simp]: "\<not> (x :: f64) < x"
  by (simp add: less_f64_def)

lemma highest_snoc:
  assumes "highest bars s n k"
  shows "highest bars s (Suc n) (if bar_High (bars ! k) < bar_High (bars ! Suc n) then Suc n else k)"
proof (cases "bar_High (bars ! k) < bar_High (bars ! Suc n)")
  case True
  have "\<not> bar_High (bars ! Suc n) < bar_High (bars ! i)" if "s \<le> i" "i \<le> n" for i
    using assms that less_f64_trans [OF True] by (auto simp: highest_def)
  then show ?thesis using assms True by (auto simp: highest_def le_Suc_eq)
qed (use assms in \<open>auto simp: highest_def le_Suc_eq\<close>)

lemma lowest_snoc:
  assumes "lowest bars s n k"
  shows "lowest bars s (Suc n) (if bar_Low (bars ! Suc n) < bar_Low (bars ! k) then Suc n else k)"
proof (cases "bar_Low (bars ! Suc n) < bar_Low (bars ! k)")
  case True
  have "\<not> bar_Low (bars ! i) < bar_Low (bars ! Suc n)" if "s \<le> i" "i \<le> n" for i
    using assms that less_f64_trans [OF _ True] by (auto simp: lowest_def)
  then show ?thesis using assms True by (auto simp: lowest_def le_Suc_eq)
qed (use assms in \<open>auto simp: lowest_def le_Suc_eq\<close>)

lemma quiet_Suc:
  "quiet bars config d s (Suc n) \<longleftrightarrow>
     quiet bars config d s n \<and> (s < n \<longrightarrow> no_drop bars config d s n \<and> no_rise bars config d s n)"
  by (auto simp: quiet_def less_Suc_eq)

text \<open>What the loop knows after the bar at \<open>n\<close>, in a leg that starts at \<open>s\<close>.\<close>

definition in_leg :: "Bar list \<Rightarrow> MarketConfig \<Rightarrow> nat \<Rightarrow> nat \<Rightarrow> zigzag_state \<Rightarrow> bool" where
  "in_leg bars config s n z \<longleftrightarrow> s \<le> n \<and> quiet bars config (zz_direction z) s (Suc n) \<and>
     (0 \<le> zz_direction z \<longrightarrow> highest bars s n (zz_highIndex z)) \<and> (zz_direction z \<le> 0 \<longrightarrow> lowest bars s n (zz_lowIndex z))"

lemma in_leg_start:
  "in_leg bars config n n \<lparr>zz_swings = ws, zz_direction = - 1, zz_highIndex = k, zz_lowIndex = n\<rparr>"
  "in_leg bars config n n \<lparr>zz_swings = ws, zz_direction = 1, zz_highIndex = n, zz_lowIndex = k\<rparr>"
  "in_leg bars config 0 0 \<lparr>zz_swings = ws, zz_direction = 0, zz_highIndex = 0, zz_lowIndex = 0\<rparr>"
  by (auto simp: in_leg_def highest_def lowest_def quiet_def)

definition swing_at :: "Bar list \<Rightarrow> string \<Rightarrow> f64 \<Rightarrow> nat \<Rightarrow> nat \<Rightarrow> indexedSwing" where
  "swing_at bars t price k c = \<lparr>xs_Index = k, xs_Type = t, xs_Price = price, xs_Time = bar_OpenTime (bars ! k),
     xs_ConfirmIndex = c, xs_ConfirmTime = bar_OpenTime (bars ! c), xs_Label = []\<rparr>"

lemma zigzag_step_cases:
  fixes z :: zigzag_state and bars :: "Bar list"
  defines "hi \<equiv> \<lambda>n. if bar_High (bars ! zz_highIndex z) < bar_High (bars ! n) then n else zz_highIndex z"
    and "lo \<equiv> \<lambda>n. if bar_Low (bars ! n) < bar_Low (bars ! zz_lowIndex z) then n else zz_lowIndex z"
  shows "zigzag_step bars config (averageTrueRange bars (cfg_ATRPeriod config)) z n =
     (if 0 \<le> zz_direction z \<and> dropped bars config n (hi n) then
        \<lparr>zz_swings = zz_swings z @ [swing_at bars ''H'' (bar_High (bars ! hi n)) (hi n) n],
         zz_direction = - 1, zz_highIndex = hi n, zz_lowIndex = n\<rparr>
      else if zz_direction z \<le> 0 \<and> risen bars config n (lo n) then
        \<lparr>zz_swings = zz_swings z @ [swing_at bars ''L'' (bar_Low (bars ! lo n)) (lo n) n],
         zz_direction = 1, zz_highIndex = n, zz_lowIndex = lo n\<rparr>
      else z\<lparr>zz_highIndex := hi n, zz_lowIndex := lo n\<rparr>)"
  unfolding zigzag_step_def Let_def hi_def lo_def dropped_def risen_def swing_size_def swing_at_def by (rule refl)

lemma zigzag_step_leg:
  assumes "in_leg bars config s n z" and "Suc n < length bars"
  defines "z' \<equiv> zigzag_step bars config (averageTrueRange bars (cfg_ATRPeriod config)) z (Suc n)"
  obtains (high) w k where "z' = \<lparr>zz_swings = zz_swings z @ [w], zz_direction = - 1, zz_highIndex = k, zz_lowIndex = Suc n\<rparr>"
      "\<And>ws. swings_of bars config (- 1) (Suc n) ws \<Longrightarrow> swings_of bars config (zz_direction z) s (w # ws)"
  | (low) w k where "z' = \<lparr>zz_swings = zz_swings z @ [w], zz_direction = 1, zz_highIndex = Suc n, zz_lowIndex = k\<rparr>"
      "\<And>ws. swings_of bars config 1 (Suc n) ws \<Longrightarrow> swings_of bars config (zz_direction z) s (w # ws)"
  | (none) "in_leg bars config s (Suc n) z'" "zz_swings z' = zz_swings z" "zz_direction z' = zz_direction z"
proof -
  define hi where "hi = (if bar_High (bars ! zz_highIndex z) < bar_High (bars ! Suc n) then Suc n else zz_highIndex z)"
  define lo where "lo = (if bar_Low (bars ! Suc n) < bar_Low (bars ! zz_lowIndex z) then Suc n else zz_lowIndex z)"
  note step = zigzag_step_cases [of bars config z "Suc n", folded z'_def hi_def lo_def]
  have H: "highest bars s (Suc n) hi" if "0 \<le> zz_direction z"
    using assms(1) that highest_snoc unfolding in_leg_def hi_def by blast
  have L: "lowest bars s (Suc n) lo" if "zz_direction z \<le> 0"
    using assms(1) that lowest_snoc unfolding in_leg_def lo_def by blast
  have sn: "s < Suc n" and q: "quiet bars config (zz_direction z) s (Suc n)" using assms(1) by (simp_all add: in_leg_def)
  consider "0 \<le> zz_direction z" "dropped bars config (Suc n) hi"
    | "\<not> (0 \<le> zz_direction z \<and> dropped bars config (Suc n) hi)" "zz_direction z \<le> 0" "risen bars config (Suc n) lo"
    | "\<not> (0 \<le> zz_direction z \<and> dropped bars config (Suc n) hi)" "\<not> (zz_direction z \<le> 0 \<and> risen bars config (Suc n) lo)"
    by blast
  then show thesis
  proof cases
    case 1
    then have "swings_of bars config (zz_direction z) s (swing_at bars ''H'' (bar_High (bars ! hi)) hi (Suc n) # ws)"
      if "swings_of bars config (- 1) (Suc n) ws" for ws
      using that H sn q assms(2) by (simp add: swing_at_def)
    moreover have "z' = \<lparr>zz_swings = zz_swings z @ [swing_at bars ''H'' (bar_High (bars ! hi)) hi (Suc n)],
        zz_direction = - 1, zz_highIndex = hi, zz_lowIndex = Suc n\<rparr>" using 1 step by simp
    ultimately show ?thesis by (intro high)
  next
    case 2
    then have "no_drop bars config (zz_direction z) s (Suc n)" using H by (auto simp: no_drop_def)
    then have "swings_of bars config (zz_direction z) s (swing_at bars ''L'' (bar_Low (bars ! lo)) lo (Suc n) # ws)"
      if "swings_of bars config 1 (Suc n) ws" for ws
      using that 2 L sn q assms(2) by (simp add: swing_at_def)
    moreover have "z' = \<lparr>zz_swings = zz_swings z @ [swing_at bars ''L'' (bar_Low (bars ! lo)) lo (Suc n)],
        zz_direction = 1, zz_highIndex = Suc n, zz_lowIndex = lo\<rparr>"
      unfolding step using 2 by (simp only: if_True if_False simp_thms)
    ultimately show ?thesis by (intro low)
  next
    case 3
    have "no_drop bars config (zz_direction z) s (Suc n)" "no_rise bars config (zz_direction z) s (Suc n)"
      using 3 H L by (auto simp: no_drop_def no_rise_def)
    then have "in_leg bars config s (Suc n) (z\<lparr>zz_highIndex := hi, zz_lowIndex := lo\<rparr>)"
      using H L sn q by (auto simp: in_leg_def quiet_Suc [of _ _ _ _ "Suc n"])
    moreover have "z' = z\<lparr>zz_highIndex := hi, zz_lowIndex := lo\<rparr>"
      unfolding step using 3 by (simp only: if_True if_False simp_thms)
    ultimately show ?thesis by (intro none) simp_all
  qed
qed

lemma zigzag_legs:
  assumes "in_leg bars config s n z" and "n < length bars"
  shows "\<exists>ws. zz_swings (foldl (zigzag_step bars config (averageTrueRange bars (cfg_ATRPeriod config))) z [Suc n ..< length bars]) =
      zz_swings z @ ws \<and> swings_of bars config (zz_direction z) s ws"
  using assms
proof (induction "length bars - n" arbitrary: n s z)
  case (Suc k)
  let ?run = "foldl (zigzag_step bars config (averageTrueRange bars (cfg_ATRPeriod config)))"
  let ?step = "zigzag_step bars config (averageTrueRange bars (cfg_ATRPeriod config)) z (Suc n)"
  show ?case
  proof (cases "Suc n < length bars")
    case False
    then have "length bars = Suc n" using Suc.prems(2) by simp
    then show ?thesis using Suc.prems(1) by (simp add: in_leg_def)
  next
    case True
    have run: "?run z [Suc n ..< length bars] = ?run ?step [Suc (Suc n) ..< length bars]"
      using True by (simp add: upt_conv_Cons)
    have IH: "\<exists>ws. zz_swings (?run y [Suc (Suc n) ..< length bars]) = zz_swings y @ ws \<and> swings_of bars config (zz_direction y) r ws"
      if "in_leg bars config r (Suc n) y" for r y
      using Suc.hyps(1) [OF _ that True] Suc.hyps(2) by simp
    from Suc.prems(1) True show ?thesis
    proof (cases rule: zigzag_step_leg)
      case (high w k)
      from IH [OF in_leg_start(1), of "zz_swings z @ [w]" k] high(2) show ?thesis
        unfolding run high(1) by fastforce
    next
      case (low w k)
      from IH [OF in_leg_start(2), of "zz_swings z @ [w]" k] low(2) show ?thesis
        unfolding run low(1) by fastforce
    next
      case none
      from IH [OF none(1)] none(2,3) show ?thesis unfolding run by simp
    qed
  qed
qed simp

lemma zigzag_swings_of: "swings_of bars config 0 0 (zigzag bars config)"
proof (cases "bars = []")
  case False
  then have "[1 ..< length bars] = [Suc 0 ..< length bars]" by simp
  with zigzag_legs [OF in_leg_start(3), of bars config "[]"] False show ?thesis
    by (auto simp: zigzag_def Let_def)
qed (simp add: zigzag_def quiet_def)

subsection \<open>Merging\<close>

text \<open>Merging drops two neighbours; what closes up still alternates.\<close>

lemma swings_ok_drop_pair:
  assumes "swings_ok bars (xs @ a # b # ys)"
  shows "swings_ok bars (xs @ ys)"
proof -
  have ok: "list_all (swing_ok bars) (xs @ a # b # ys)" and s: "successively follows (xs @ a # b # ys)"
    using assms by (simp_all add: swings_ok_def)
  have ys: "successively follows ys" using s by (cases ys) (auto simp: successively_append_iff)
  have "follows (last xs) (hd ys)" if "xs \<noteq> []" "ys \<noteq> []"
  proof -
    have f: "follows (last xs) a" "follows a b" "follows b (hd ys)"
      using s that by (cases ys; auto simp: successively_append_iff)+
    have "swing_ok bars (last xs)" "swing_ok bars a" "swing_ok bars b" "swing_ok bars (hd ys)"
      using ok that by (auto simp: list_all_iff)
    with f show ?thesis by (auto simp: follows_def swing_ok_def)
  qed
  with ys s ok show ?thesis by (auto simp: swings_ok_def successively_append_iff)
qed

lemma drop_pair_at:
  assumes "k + 1 < length ws" and "swings_ok bars ws"
  shows "swings_ok bars (take k ws @ drop (k + 2) ws) \<and> set (take k ws @ drop (k + 2) ws) \<subseteq> set ws"
proof -
  have "ws = take k ws @ ws ! k # ws ! (k + 1) # drop (k + 2) ws"
    using assms(1) by (simp add: Cons_nth_drop_Suc id_take_nth_drop [symmetric])
  with swings_ok_drop_pair [of bars "take k ws" "ws ! k" "ws ! (k + 1)" "drop (k + 2) ws"] assms(2)
  show ?thesis by (auto dest: in_set_takeD in_set_dropD)
qed

lemma merge_at_ok:
  assumes "merge_at bars config ws i = Some s" and "1 \<le> i" and "i + 1 < length ws" and "swings_ok bars0 ws"
  shows "swings_ok bars0 s \<and> set s \<subseteq> set ws"
proof -
  have "s = take (i - 1) ws @ drop (i + 1) ws \<or> s = take i ws @ drop (i + 2) ws"
    using assms(1) by (auto simp: merge_at_def Let_def split: if_splits)
  with drop_pair_at [OF _ assms(4), of "i - 1"] drop_pair_at [OF _ assms(4), of i] assms(2,3) show ?thesis by auto
qed

lemma merge_scan_ok:
  assumes "merge_scan bars config ws is = Some s" and "\<And>i. i \<in> set is \<Longrightarrow> 1 \<le> i \<and> i + 1 < length ws" and "swings_ok bars0 ws"
  shows "swings_ok bars0 s \<and> set s \<subseteq> set ws"
  using assms(1,2)
proof (induction "is")
  case (Cons i "is")
  then show ?case
    by (cases "merge_at bars config ws i") (use merge_at_ok [OF _ _ _ assms(3), of bars config i] in auto)
qed simp

text \<open>The merged swings admit no further merge.\<close>

definition fully_merged :: "Bar list \<Rightarrow> MarketConfig \<Rightarrow> indexedSwing list \<Rightarrow> bool" where
  "fully_merged bars config ws \<longleftrightarrow> (\<forall>i. 1 \<le> i \<and> i + 1 < length ws \<longrightarrow> merge_at bars config ws i = None)"

lemma merge_scan_None: "merge_scan bars config ws is = None \<longleftrightarrow> (\<forall>i \<in> set is. merge_at bars config ws i = None)"
  by (induction "is") (auto split: option.splits)

lemma mergeByValidPullback_ok:
  "swings_ok bars0 ws \<Longrightarrow> swings_ok bars0 (mergeByValidPullback bars ws config) \<and>
     set (mergeByValidPullback bars ws config) \<subseteq> set ws \<and> fully_merged bars config (mergeByValidPullback bars ws config)"
proof (induction bars ws config rule: mergeByValidPullback.induct)
  case (1 bars ws config)
  show ?case
  proof (cases "3 \<le> length ws")
    case True
    show ?thesis
    proof (cases "merge_scan bars config ws [1 ..< length ws - 1]")
      case None
      then have "fully_merged bars config ws" by (auto simp: merge_scan_None fully_merged_def)
      with 1(2) None show ?thesis by (subst (1 2 3) mergeByValidPullback.simps) simp
    next
      case (Some s)
      have s: "swings_ok bars0 s \<and> set s \<subseteq> set ws" by (rule merge_scan_ok [OF Some _ 1(2)]) auto
      have "mergeByValidPullback bars ws config = mergeByValidPullback bars s config"
        using True Some by (subst mergeByValidPullback.simps) simp
      with 1(1) [OF True Some] s show ?thesis by auto
    qed
  next
    case False
    then have "fully_merged bars config ws" by (auto simp: fully_merged_def)
    with 1(2) False show ?thesis by (subst (1 2 3) mergeByValidPullback.simps) simp
  qed
qed

text \<open>The decision tree of \<^verbatim>\<open>evaluateBreakout\<close> with its conditions left open.\<close>

lemma breakout_decision:
  fixes index :: nat and bars :: "Bar list" and config :: MarketConfig
  assumes "index < length bars"
  defines "r \<equiv> \<lambda>b c1 c2 c3 c4 c5 P x y.
    (if \<not> b then breakout ''none'' 0 0
     else if length bars \<le> index + 1 then breakout ''pending'' 0 x
     else if c1 then breakout ''valid'' (index + 1) y
     else if c2 then breakout ''valid'' (index + 1) y
     else if c3 then breakout ''valid'' (index + 1) y
     else if c4 then breakout ''fake'' (index + 1) y
     else if c5 then
       (case find P [index + 2 ..< nat (min (int (length bars) - 1) (int index + 1 + cfg_PACWindow config) + 1)] of
          None \<Rightarrow> if int index + 1 + cfg_PACWindow config \<le> int (length bars) - 1 then breakout ''fake'' (index + 1) y
                  else breakout ''pending'' 0 y
        | Some current \<Rightarrow> breakout ''valid'' current y)
     else breakout ''fake'' (index + 1) y)"
  shows "br_Status (r b c1 c2 c3 c4 c5 P x y) \<in> {''none'', ''pending'', ''valid'', ''fake''} \<and>
    (br_Status (r b c1 c2 c3 c4 c5 P x y) \<in> {''valid'', ''fake''} \<longrightarrow>
       index < br_ConfirmIndex (r b c1 c2 c3 c4 c5 P x y) \<and> br_ConfirmIndex (r b c1 c2 c3 c4 c5 P x y) < length bars) \<and>
    (br_Status (r b c1 c2 c3 c4 c5 P x y) = ''none'' \<longleftrightarrow> \<not> b) \<and>
    (0 \<le> cfg_PACWindow config \<and> br_Status (r b c1 c2 c3 c4 c5 P x y) = ''pending'' \<longrightarrow> int (length bars) \<le> int index + 1 + cfg_PACWindow config)"
proof -
  have "index < c \<and> c < length bars"
    if "find P [index + 2 ..< nat (min (int (length bars) - 1) (int index + 1 + cfg_PACWindow config) + 1)] = Some c" for c
  proof -
    have "c \<in> set [index + 2 ..< nat (min (int (length bars) - 1) (int index + 1 + cfg_PACWindow config) + 1)]"
      using that by (metis find_Some_iff nth_mem)
    then show ?thesis by auto
  qed
  then show ?thesis using assms(1) by (auto simp: r_def breakout_def split: option.split)
qed

lemma evaluateBreakout_range:
  fixes index :: nat and bars :: "Bar list"
  assumes "index < length bars"
  defines "r \<equiv> \<lambda>line direction config. evaluateBreakout bars index line direction config"
  shows "br_Status (r line direction config) \<in> {''none'', ''pending'', ''valid'', ''fake''} \<and>
    (br_Status (r line direction config) \<in> {''valid'', ''fake''} \<longrightarrow>
       index < br_ConfirmIndex (r line direction config) \<and> br_ConfirmIndex (r line direction config) < length bars) \<and>
    (br_Status (r line direction config) = ''none'' \<longleftrightarrow>
       \<not> ((0 < direction \<and> line < bar_Close (bars ! index)) \<or> (direction < 0 \<and> bar_Close (bars ! index) < line))) \<and>
    (0 \<le> cfg_PACWindow config \<and> br_Status (r line direction config) = ''pending'' \<longrightarrow>
       int (length bars) \<le> int index + 1 + cfg_PACWindow config)"
  unfolding r_def evaluateBreakout_def Let_def
  by (rule breakout_decision [OF assms(1), where b = "(0 < direction \<and> line < bar_Close (bars ! index)) \<or> (direction < 0 \<and> bar_Close (bars ! index) < line)"])

subsection \<open>What the structure is made of\<close>

lemma swings_of_length: "swings_of bars config d s ws \<Longrightarrow> s < length bars \<Longrightarrow> s + length ws < length bars"
proof (induction ws arbitrary: d s)
  case (Cons w ws)
  then have "s < xs_ConfirmIndex w" "xs_ConfirmIndex w < length bars"
      "swings_of bars config (- 1) (xs_ConfirmIndex w) ws \<or> swings_of bars config 1 (xs_ConfirmIndex w) ws"
    by (auto simp: Let_def split: if_splits)
  with Cons.IH show ?case by fastforce
qed simp

lemma length_zigzag: "length (zigzag bars config) \<le> length bars - 1"
proof (cases "bars = []")
  case False
  then show ?thesis using swings_of_length [OF zigzag_swings_of, of bars config] by simp
qed (simp add: zigzag_def)

lemma length_merge: "length (mergeByValidPullback bars ws config) \<le> length ws"
proof (induction bars ws config rule: mergeByValidPullback.induct)
  case (1 bars ws config)
  show ?case
  proof (cases "3 \<le> length ws \<and> merge_scan bars config ws [1 ..< length ws - 1] \<noteq> None")
    case True
    then obtain s where s: "merge_scan bars config ws [1 ..< length ws - 1] = Some s" by blast
    then have "length s + 2 = length ws" by (rule merge_scan_shorter) auto
    with 1 [OF _ s] True s show ?thesis by (subst mergeByValidPullback.simps) simp
  qed (subst mergeByValidPullback.simps, auto)
qed

text \<open>Labelling changes the labels only.\<close>

definition unlabelled :: "indexedSwing \<Rightarrow> indexedSwing" where
  "unlabelled w = w\<lparr>xs_Label := []\<rparr>"

lemma label_loop_unlabelled: "map unlabelled (label_loop confirmed h l ws) = map unlabelled ws"
  by (induction ws arbitrary: h l) (auto simp: Let_def unlabelled_def)

lemma labelSwings_member:
  assumes "w \<in> set (labelSwings ws events)"
  shows "\<exists>v \<in> set ws. unlabelled w = unlabelled v"
proof -
  have "unlabelled w \<in> set (map unlabelled (labelSwings ws events))" using assms by simp
  then show ?thesis unfolding labelSwings_def label_loop_unlabelled by auto
qed

lemma length_labelSwings: "length (labelSwings ws events) = length ws"
  using arg_cong [OF label_loop_unlabelled, of length] by (simp add: labelSwings_def)

lemma unlabelled_fields:
  assumes "unlabelled w = unlabelled v"
  shows "xs_Type w = xs_Type v" "xs_Price w = xs_Price v" "xs_Time w = xs_Time v" "xs_ConfirmTime w = xs_ConfirmTime v"
  using arg_cong [OF assms, of xs_Type] arg_cong [OF assms, of xs_Price] arg_cong [OF assms, of xs_Time]
    arg_cong [OF assms, of xs_ConfirmTime]
  by (simp_all add: unlabelled_def)

text \<open>A structure event has the time of a bar and the price of an extreme.\<close>

definition event_ok :: "Bar list \<Rightarrow> indexedStructure \<Rightarrow> bool" where
  "event_ok bars e \<longleftrightarrow> (\<exists>b \<in> set bars. ix_Time e = bar_OpenTime b) \<and>
     (\<exists>b \<in> set bars. ix_Price e = bar_High b \<or> ix_Price e = bar_Low b)"

lemma swing_ok_price: "swing_ok bars w \<Longrightarrow> \<exists>b \<in> set bars. xs_Price w = bar_High b \<or> xs_Price w = bar_Low b"
  by (auto simp: swing_ok_def intro: bexI [of _ "bars ! xs_Index w"])

lemma find_SomeD_set: "find P xs = Some x \<Longrightarrow> x \<in> set xs"
  by (auto simp: find_Some_iff)

lemma scan_break_ok:
  assumes "swing_ok bars prev" and "swing_ok bars swing" and "scan_break bars config direction prev swing trend = (evs, t)"
  shows "length evs \<le> 1 \<and> list_all (event_ok bars) evs"
proof -
  let ?P = "\<lambda>current. if 0 < direction then xs_Price prev < bar_Close (bars ! current) else bar_Close (bars ! current) < xs_Price prev"
  have swing: "xs_Index swing < length bars" using assms(2) by (simp add: swing_ok_def)
  have ok: "event_ok bars (structure_event kind side (xs_Price prev) (bar_OpenTime (bars ! i)) z)" if "i < length bars" for kind side i z
    using that swing_ok_price [OF assms(1)] by (auto simp: event_ok_def structure_event_def)
  show ?thesis
  proof (cases "find ?P [xs_Index prev + 1 ..< xs_Index swing + 1]")
    case None
    then show ?thesis using assms(3) ok swing by (auto simp: scan_break_def Let_def)
  next
    case (Some i)
    then have "i \<in> set [xs_Index prev + 1 ..< xs_Index swing + 1]" by (rule find_SomeD_set)
    then have i: "i < length bars" using swing by auto
    let ?r = "evaluateBreakout bars i (xs_Price prev) direction config"
    have valid: "br_Status ?r = ''valid'' \<Longrightarrow> br_ConfirmIndex ?r < length bars"
      using evaluateBreakout_range [OF i, of "xs_Price prev" direction config] by simp
    show ?thesis
    proof (cases "br_Status ?r = ''valid''")
      case True
      with valid ok Some assms(3) show ?thesis by (auto simp: scan_break_def Let_def)
    next
      case False
      with ok [OF i] Some assms(3) show ?thesis by (auto simp: scan_break_def Let_def split: if_splits)
    qed
  qed
qed

lemma scan_step_ok:
  assumes "swing_ok bars w" and "\<And>v. sc_lastHigh s = Some v \<or> sc_lastLow s = Some v \<Longrightarrow> swing_ok bars v"
    and "list_all (event_ok bars) (sc_events s)"
  shows "length (sc_events (scan_step bars config s w)) \<le> Suc (length (sc_events s)) \<and>
    list_all (event_ok bars) (sc_events (scan_step bars config s w)) \<and>
    (\<forall>v. sc_lastHigh (scan_step bars config s w) = Some v \<or> sc_lastLow (scan_step bars config s w) = Some v \<longrightarrow> swing_ok bars v)"
proof -
  have brk: "length (sc_events s @ fst (scan_break bars config d v w t)) \<le> Suc (length (sc_events s)) \<and>
      list_all (event_ok bars) (sc_events s @ fst (scan_break bars config d v w t))"
    if "sc_lastHigh s = Some v \<or> sc_lastLow s = Some v" for d v t
    using scan_break_ok [OF assms(2) [OF that] assms(1), of config d t "fst (scan_break bars config d v w t)" "snd (scan_break bars config d v w t)"]
      assms(3) by simp
  show ?thesis
  proof (cases "xs_Type w = ''H''")
    case True
    then show ?thesis using assms brk
      by (cases "sc_lastHigh s") (auto simp: scan_step_def case_prod_unfold Let_def simp del: length_append list_all_append)
  next
    case False
    then show ?thesis using assms brk
      by (cases "sc_lastLow s") (auto simp: scan_step_def case_prod_unfold Let_def simp del: length_append list_all_append)
  qed
qed

lemma scan_fold_ok:
  assumes "list_all (swing_ok bars) ws" and "\<And>v. sc_lastHigh s = Some v \<or> sc_lastLow s = Some v \<Longrightarrow> swing_ok bars v"
    and "list_all (event_ok bars) (sc_events s)"
  shows "length (sc_events (foldl (scan_step bars config) s ws)) \<le> length (sc_events s) + length ws \<and>
    list_all (event_ok bars) (sc_events (foldl (scan_step bars config) s ws))"
  using assms
proof (induction ws arbitrary: s)
  case (Cons w ws)
  have w: "swing_ok bars w" using Cons.prems(1) by simp
  have step: "length (sc_events (scan_step bars config s w)) \<le> Suc (length (sc_events s))"
      "list_all (event_ok bars) (sc_events (scan_step bars config s w))"
      "\<And>v. sc_lastHigh (scan_step bars config s w) = Some v \<or> sc_lastLow (scan_step bars config s w) = Some v \<Longrightarrow> swing_ok bars v"
    using scan_step_ok [OF w Cons.prems(2,3), of config] by blast+
  have "list_all (swing_ok bars) ws" using Cons.prems(1) by simp
  from Cons.IH [OF this step(3) step(2)] step(1) show ?case by simp
qed simp

lemma scanBreaks_ok:
  assumes "list_all (swing_ok bars) ws"
  shows "length (scanBreaks bars ws config) \<le> length ws \<and> list_all (event_ok bars) (scanBreaks bars ws config)"
  using scan_fold_ok [OF assms, of "\<lparr>sc_events = [], sc_trend = ''range'', sc_lastHigh = None, sc_lastLow = None\<rparr>" config]
  by (simp add: scanBreaks_def)

lemma structure_bars_window: "structure_bars config cs = keep_last (nat (cfg_RecentBars config)) cs"
proof (cases "0 \<le> cfg_RecentBars config")
  case True
  then show ?thesis by (auto simp: structure_bars_def keep_last_alt nat_diff_distrib nat_less_iff not_less)
qed (simp add: structure_bars_def keep_last_alt)

text \<open>The swings and the structure of a state come from the bars of a window.\<close>

definition structure_within :: "Bar list \<Rightarrow> MarketState \<Rightarrow> bool" where
  "structure_within window s \<longleftrightarrow>
     length (ms_Swings s) \<le> length window - 1 \<and> length (ms_Structure s) \<le> length (ms_Swings s) \<and>
     (\<forall>w \<in> set (ms_Swings s). \<exists>b \<in> set window. \<exists>c \<in> set window. sw_Time w = bar_OpenTime b \<and> sw_ConfirmTime w = bar_OpenTime c \<and>
        (sw_Type w = ''H'' \<and> sw_Price w = bar_High b \<or> sw_Type w = ''L'' \<and> sw_Price w = bar_Low b)) \<and>
     (\<forall>e \<in> set (ms_Structure s). \<exists>b \<in> set window. \<exists>c \<in> set window. se_Time e = bar_OpenTime b \<and>
        (se_Price e = bar_High c \<or> se_Price e = bar_Low c))"

lemma swing_ok_bars:
  assumes "swing_ok bars v"
  shows "\<exists>b \<in> set bars. \<exists>c \<in> set bars. xs_Time v = bar_OpenTime b \<and> xs_ConfirmTime v = bar_OpenTime c \<and>
    (xs_Type v = ''H'' \<and> xs_Price v = bar_High b \<or> xs_Type v = ''L'' \<and> xs_Price v = bar_Low b)"
  using assms
  by (intro bexI [of _ "bars ! xs_Index v"] bexI [of _ "bars ! xs_ConfirmIndex v"]) (auto simp: swing_ok_def)

lemma structure_within_window:
  fixes bars :: "Bar list"
  assumes "merged = mergeByValidPullback bars (zigzag bars config) config" and "events = scanBreaks bars merged config"
    and "ms_Swings s = publicSwings (labelSwings merged events)" and "ms_Structure s = publicStructure events"
  shows "structure_within bars s"
proof -
  have ok: "list_all (swing_ok bars) merged"
    using mergeByValidPullback_ok [OF zigzag_ok] by (simp add: assms(1) swings_ok_def)
  have "length merged \<le> length bars - 1"
    unfolding assms(1) by (rule order_trans [OF length_merge length_zigzag])
  moreover have "length events \<le> length merged" "list_all (event_ok bars) events"
    unfolding assms(2) using scanBreaks_ok [OF ok] by simp_all
  moreover have "\<exists>b \<in> set bars. \<exists>c \<in> set bars. xs_Time w = bar_OpenTime b \<and> xs_ConfirmTime w = bar_OpenTime c \<and>
      (xs_Type w = ''H'' \<and> xs_Price w = bar_High b \<or> xs_Type w = ''L'' \<and> xs_Price w = bar_Low b)"
    if "w \<in> set (labelSwings merged events)" for w
  proof -
    obtain v where v: "v \<in> set merged" "unlabelled w = unlabelled v" using labelSwings_member [OF \<open>w \<in> _\<close>] by blast
    then show ?thesis using ok swing_ok_bars [of bars v] by (simp add: list_all_iff unlabelled_fields [OF v(2)])
  qed
  ultimately show ?thesis
    unfolding structure_within_def assms(3,4) publicSwings_def publicStructure_def
    by (auto simp: length_labelSwings list_all_iff event_ok_def)
qed

lemma evaluate_structure_within:
  assumes "ms_Swings st = []" and "ms_Structure st = []"
  shows "structure_within (keep_last (nat (cfg_RecentBars config)) cs) (evaluate_structure cs config st)"
proof (cases "int (length (structure_bars config cs)) < cfg_ATRPeriod config + 4")
  case True
  then show ?thesis using assms by (simp add: evaluate_structure_def structure_within_def)
next
  case False
  then show ?thesis unfolding structure_bars_window [symmetric]
    by (intro structure_within_window [OF refl refl]) (simp_all add: evaluate_structure_def Let_def)
qed

lemma detectLiquidity_bounded:
  "length (fst (detectLiquidity cs lb tol)) \<le> 6 \<and> length (snd (detectLiquidity cs lb tol)) \<le> 6 \<and>
   (\<forall>p \<in> set (snd (detectLiquidity cs lb tol)). pat_Time p = bar_OpenTime (last cs))"
proof -
  have c: "length (clusterExtrema t vs) \<le> 3" for t vs by (simp add: clusterExtrema_def)
  have "length (filter P (clusterExtrema t vs)) \<le> 3" for P t vs
    using length_filter_le [of P "clusterExtrema t vs"] c [of t vs] by linarith
  from add_mono [OF c c] add_mono [OF this this] show ?thesis by (auto simp: detectLiquidity_def Let_def)
qed

subsection \<open>Properties\<close>

text \<open>
  C29. The zigzag finds exactly the turning points of the bars. Read leg by leg from the first bar, each swing
  is the highest high (lowest low) of its leg, which starts at the bar that confirmed the swing before; it is
  confirmed by the first bar that moved away from the extreme by the configured deviation, no bar before the
  confirmation and none after the last swing having done so; highs and lows alternate, and each swing lies at or
  after the confirmation of the one before.
\<close>

theorem zigzag_alternates:
  "swings_of bars config 0 0 (zigzag bars config) \<and> list_all (swing_ok bars) (zigzag bars config) \<and>
   successively (\<lambda>a b. xs_Type a \<noteq> xs_Type b \<and> xs_ConfirmIndex a \<le> xs_Index b) (zigzag bars config)"
  using zigzag_swings_of [of bars config] zigzag_ok [of bars config] by (simp add: swings_ok_def follows_def [abs_def])

definition swing_config :: MarketConfig where
  "swing_config = DefaultMarketConfig\<lparr>cfg_MinSwingPct := 0, cfg_ATRMult := 0\<rparr>"

lemma sample_atr: "averageTrueRange [sample_bar 1 1, sample_bar 2 1] 14 = [Fin 8, Fin 8]"
  by (simp add: averageTrueRange_def sample_bar_def Let_def of_int64_def f64_ops fadd_def fdiv_def fmax_def abs_f64_def
      zero_f64_def fzero_def)

lemma sample_deviation: "deviation swing_config [Fin 8, Fin 8] (Suc 0) (Fin 9) = Fin 0"
  by (simp add: deviation_def swing_config_def fmax_def f64_ops fmul_def fdiv_def zero_f64_def fzero_def fle_def feq_def)

lemma sample_drop:
  assumes "k \<le> 1"
  shows "dropped [sample_bar 1 1, sample_bar 2 1] swing_config 1 k"
proof -
  have "cfg_ATRPeriod swing_config = 14" "bar_High (sample_bar t p) = Fin 9" "bar_Low (sample_bar t p) = Fin 1" for t p
    by (simp_all add: swing_config_def DefaultMarketConfig_def sample_bar_def)
  with assms show ?thesis
    by (cases k) (simp_all add: dropped_def swing_size_def sample_atr sample_deviation f64_ops fadd_def fmul_def one_f64_def fle_def)
qed

theorem zigzag_alternates_witness:
  "swings_of [sample_bar 1 1, sample_bar 2 1] swing_config 0 0 (zigzag [sample_bar 1 1, sample_bar 2 1] swing_config) \<and>
   zigzag [sample_bar 1 1, sample_bar 2 1] swing_config \<noteq> []"
proof -
  let ?bars = "[sample_bar 1 1, sample_bar 2 1]"
  have s: "swings_of ?bars swing_config 0 0 (zigzag ?bars swing_config)"
    using zigzag_alternates [of ?bars swing_config] by simp
  have "\<not> no_drop ?bars swing_config 0 0 1"
    using sample_drop by (auto simp: no_drop_def highest_def)
  then have "\<not> quiet ?bars swing_config 0 0 (length ?bars)" by (auto simp: quiet_def)
  with s show ?thesis by (cases "zigzag ?bars swing_config") simp_all
qed

text \<open>
  Merging pullbacks terminates and keeps the swings well formed: the result consists of swings of the
  zigzag, alternates like it, and no further merge applies to it.
\<close>

theorem merge_preserves_alternation:
  "swings_ok bars (mergeByValidPullback bars (zigzag bars config) config) \<and>
   set (mergeByValidPullback bars (zigzag bars config) config) \<subseteq> set (zigzag bars config) \<and>
   fully_merged bars config (mergeByValidPullback bars (zigzag bars config) config)"
  by (rule mergeByValidPullback_ok [OF zigzag_ok])

text \<open>
  C31. The market state is a function of the closed bars alone (a forming bar changes nothing), it is
  stamped with the last of them, and its size is bounded whatever the length of the history: at most eight gaps,
  six order blocks, twelve patterns, six liquidity levels, six sweeps (all of the last bar), one range and the
  configured number of key levels; and the swings and structure events are drawn from the configured number of
  recent closed bars: there are fewer swings than such bars and no more events than swings, and each of them
  has its times and its price from bars of that window.
\<close>

theorem evaluate_market_closed_and_bounded:
  "EvaluateMarket bars config = EvaluateMarket (filter bar_Closed bars) config \<and>
   (let s = EvaluateMarket bars config; cs = filter bar_Closed bars in
      (cs \<noteq> [] \<longrightarrow> ms_AsOf s = bar_OpenTime (last cs)) \<and>
      length (ms_FVGs s) \<le> 8 \<and> length (ms_OrderBlocks s) \<le> 6 \<and> length (ms_Patterns s) \<le> 12 \<and>
      length (ms_Liquidity s) \<le> 6 \<and> length (ms_LiquiditySweeps s) \<le> 6 \<and>
      (\<forall>p \<in> set (ms_LiquiditySweeps s). pat_Time p = bar_OpenTime (last cs)) \<and>
      length (ms_Ranges s) \<le> 1 \<and> length (ms_KeyLevels s) \<le> nat (cfg_MaxLevels config) \<and>
      structure_within (keep_last (nat (cfg_RecentBars config)) cs) s)"
proof -
  have f: "length (annotateZoneStates cs (detectFVG cs lb)) \<le> 8" "length (annotateZoneStates cs (detectOrderBlocks cs gs)) \<le> 6"
      "length (detectPatterns cs pl) \<le> 12" "length (keyLevels cs ws config) \<le> nat (cfg_MaxLevels config)" for cs lb gs pl ws
    by (simp_all add: annotateZoneStates_def detectFVG_def detectOrderBlocks_def detectPatterns_def keyLevels_def Let_def)
  have e: "ms_AsOf (evaluate_structure cs config st) = ms_AsOf st" "ms_FVGs (evaluate_structure cs config st) = ms_FVGs st"
      "ms_OrderBlocks (evaluate_structure cs config st) = ms_OrderBlocks st" "ms_Patterns (evaluate_structure cs config st) = ms_Patterns st"
      "ms_Liquidity (evaluate_structure cs config st) = ms_Liquidity st"
      "ms_LiquiditySweeps (evaluate_structure cs config st) = ms_LiquiditySweeps st"
      "length (ms_Ranges st) \<le> 1 \<Longrightarrow> length (ms_Ranges (evaluate_structure cs config st)) \<le> 1"
      "length (ms_KeyLevels st) \<le> nat (cfg_MaxLevels config) \<Longrightarrow>
         length (ms_KeyLevels (evaluate_structure cs config st)) \<le> nat (cfg_MaxLevels config)" for cs st
    using f(4) by (simp_all add: evaluate_structure_def Let_def split: option.split)
  show ?thesis
  proof (cases "filter bar_Closed bars = []")
    case True
    then show ?thesis by (simp add: EvaluateMarket_def zero_MarketState_def structure_within_def)
  next
    case False
    obtain lq sw where l: "detectLiquidity (filter bar_Closed bars) (cfg_LiquidityLookback config) (cfg_LiquidityTol config) = (lq, sw)"
      by fastforce
    with detectLiquidity_bounded [of "filter bar_Closed bars" "cfg_LiquidityLookback config" "cfg_LiquidityTol config"]
    have "length lq \<le> 6" "length sw \<le> 6" "\<forall>p \<in> set sw. pat_Time p = bar_OpenTime (last (filter bar_Closed bars))" by simp_all
    with False l e f evaluate_structure_within show ?thesis by (simp add: EvaluateMarket_def Let_def zero_MarketState_def)
  qed
qed

theorem evaluate_market_closed_and_bounded_witness:
  "filter bar_Closed [sample_bar 1 3, sample_bar 2 5] = [sample_bar 1 3, sample_bar 2 5] \<and>
   ms_AsOf (EvaluateMarket [sample_bar 1 3, sample_bar 2 5] DefaultMarketConfig) = bar_OpenTime (sample_bar 2 5)"
proof -
  have "filter bar_Closed [sample_bar 1 3, sample_bar 2 5] = [sample_bar 1 3, sample_bar 2 5]"
    by (simp add: sample_bar_def)
  then show ?thesis
    using evaluate_market_closed_and_bounded [of "[sample_bar 1 3, sample_bar 2 5]" DefaultMarketConfig]
    by (simp add: Let_def del: filter.simps)
qed

text \<open>
  A breakout is judged on bars that exist: it is reported valid only with a confirming bar after the
  breaking one and within the data, it is reported none exactly when the bar did not close beyond
  the line, and it stays pending only while the bars needed to decide are missing.
\<close>

theorem breakout_confirmation_in_range:
  assumes "index < length bars" and "0 \<le> cfg_PACWindow config" and "r = evaluateBreakout bars index line direction config"
  shows "br_Status r \<in> {''none'', ''pending'', ''valid'', ''fake''} \<and>
    (br_Status r \<in> {''valid'', ''fake''} \<longrightarrow> index < br_ConfirmIndex r \<and> br_ConfirmIndex r < length bars) \<and>
    (br_Status r = ''none'' \<longleftrightarrow>
       \<not> ((0 < direction \<and> line < bar_Close (bars ! index)) \<or> (direction < 0 \<and> bar_Close (bars ! index) < line))) \<and>
    (br_Status r = ''pending'' \<longrightarrow> int (length bars) \<le> int index + 1 + cfg_PACWindow config)"
  using evaluateBreakout_range [OF assms(1), of line direction config] assms(2) unfolding assms(3) by blast

theorem breakout_confirmation_in_range_witness:
  "br_Status (evaluateBreakout [sample_bar 1 3] 0 (lit 1) 1 DefaultMarketConfig) = ''pending''"
proof -
  have w: "cfg_PACWindow DefaultMarketConfig \<ge> 0" by (simp add: DefaultMarketConfig_def)
  have b: "lit 1 < bar_Close (sample_bar 1 3)" by (simp add: sample_bar_def of_int64_def f64_ops)
  have "br_Status (evaluateBreakout [sample_bar 1 3] 0 (lit 1) 1 DefaultMarketConfig) \<notin> {''none'', ''valid'', ''fake''}"
    using breakout_confirmation_in_range [OF _ w refl, of 0 "[sample_bar 1 3]" "lit 1" 1] b by auto
  with breakout_confirmation_in_range [OF _ w refl, of 0 "[sample_bar 1 3]" "lit 1" 1] show ?thesis by auto
qed

end
