(* ===== verification/Market.thy ===== *)
theory Market
  imports Market_Structure "HOL-Library.Multiset"
begin

text \<open>
  \<^verbatim>\<open>internal/indicator/market_reducer.go\<close>: the reducer that keeps a bounded history of closed
  bars, re-evaluates the market state after each of them and derives the lifecycle facts
  (pattern occurrences, zone transitions) from the previous and the current state.
\<close>

record Market =
  mk_config :: MarketConfig
  mk_historyLimit :: int
  mk_bars :: "Bar list"
  mk_samples :: uint64
  mk_state :: MarketState

datatype market_error =
    HistoryLimitTooSmall
  | MarketEncode
  | MarketDecode
  | MarketVersionUnsupported string
  | MarketTooManyBars nat int

definition NewMarket :: "MarketConfig \<Rightarrow> int \<Rightarrow> (market_error, Market) result" where
  "NewMarket config historyLimit =
     (if historyLimit < max (max (cfg_RecentBars config) (cfg_FVGLookback config)) (cfg_LiquidityLookback config)
      then Inl HistoryLimitTooSmall
      else Inr \<lparr>mk_config = config, mk_historyLimit = historyLimit, mk_bars = [], mk_samples = 0,
                mk_state = zero_MarketState\<rparr>)"

definition patternOccurrences :: "PatternEvent list \<Rightarrow> time \<Rightarrow> PatternEvent list" where
  "patternOccurrences patterns t = filter (\<lambda>p. pat_Time p = t) patterns"

definition allZones :: "MarketState \<Rightarrow> PriceZone list" where
  "allZones state = ms_FVGs state @ ms_OrderBlocks state"

text \<open>
  A Go map from zone identities to zones, built by successive assignments: an association
  list in order of first assignment. The order in which Go ranges over it is not specified, and
  differs from one range loop to the next: it is the parameter \<open>order\<close> of the loop, any rearrangement
  of the entries.
\<close>

definition zone_map :: "PriceZone list \<Rightarrow> (string \<times> PriceZone) list" where
  "zone_map zones = foldl (\<lambda>m z. AList.update (zone_ID z) z m) [] zones"

type_synonym range_order = "(string \<times> PriceZone) list \<Rightarrow> (string \<times> PriceZone) list"

definition is_range :: "range_order \<Rightarrow> bool" where
  "is_range order \<longleftrightarrow> (\<forall>m. mset (order m) = mset m)"

definition transition :: "Bar \<Rightarrow> PriceZone \<Rightarrow> string \<Rightarrow> ZoneTransition" where
  "transition bar zone name = \<lparr>zt_Zone = zone, zt_Transition = name, zt_At = bar_OpenTime bar\<rparr>"

text \<open>The first loop: zones that are present now.\<close>

definition appeared :: "Bar \<Rightarrow> (string \<times> PriceZone) list \<Rightarrow> PriceZone \<Rightarrow> ZoneTransition list" where
  "appeared bar before zone =
     (case map_of before (zone_ID zone) of
        None \<Rightarrow> [transition bar zone ''created'']
      | Some old \<Rightarrow>
          if zone_State old \<noteq> ''touched'' \<and> zone_State zone = ''touched''
          then [transition bar zone ''touched''] else [])"

text \<open>The second loop: zones that were present and are gone.\<close>

definition disappeared :: "Bar \<Rightarrow> PriceZone \<Rightarrow> ZoneTransition list" where
  "disappeared bar zone =
     (if \<not> intersectsZone bar zone then [transition bar zone ''expired'']
      else (if zone_State zone \<noteq> ''touched'' then [transition bar zone ''touched''] else []) @
        [transition bar zone
          (if zone_Kind zone = ''order_block'' \<and>
              ((zone_Side zone = ''up'' \<and> bar_Close bar < zone_Bottom zone) \<or>
               (zone_Side zone = ''down'' \<and> zone_Top zone < bar_Close bar))
           then ''invalidated'' else ''mitigated'')])"

definition zoneTransitions_in :: "range_order \<Rightarrow> MarketState \<Rightarrow> MarketState \<Rightarrow> Bar \<Rightarrow> ZoneTransition list" where
  "zoneTransitions_in order previous current bar =
     (let before = zone_map (allZones previous); after = zone_map (allZones current)
      in concat (map (appeared bar before) (allZones current)) @
         concat (map (\<lambda>(i, zone). if map_of after i \<noteq> None then [] else disappeared bar zone) (order before)))"

text \<open>One of the orders: the one of insertion. The lanes are modelled with it, see \<open>Market_OnClosed\<close>.\<close>

definition zoneTransitions :: "MarketState \<Rightarrow> MarketState \<Rightarrow> Bar \<Rightarrow> ZoneTransition list" where
  "zoneTransitions = zoneTransitions_in (\<lambda>entries. entries)"

definition trim_history :: "int \<Rightarrow> Bar list \<Rightarrow> Bar list" where
  "trim_history limit bars = (if limit < int (length bars) then drop (nat (int (length bars) - limit)) bars else bars)"

definition Market_OnClosed_in :: "range_order \<Rightarrow> Market \<Rightarrow> Bar \<Rightarrow> Market" where
  "Market_OnClosed_in order m bar =
     (let previous = mk_state m;
          bars = trim_history (mk_historyLimit m) (mk_bars m @ [bar]);
          state = EvaluateMarket bars (mk_config m);
          state' = state\<lparr>ms_PatternOccurrences := patternOccurrences (ms_Patterns state) (bar_OpenTime bar)\<rparr>
      in m\<lparr>mk_bars := bars, mk_samples := mk_samples m + 1,
           mk_state := state'\<lparr>ms_ZoneTransitions := zoneTransitions_in order previous state' bar\<rparr>\<rparr>)"

text \<open>
  The execution in which every loop ranges in the order of insertion. By \<open>Market_OnClosed_in_like\<close> below, any
  other one differs from it in nothing but the order of the zone transitions of the bar.
\<close>

definition Market_OnClosed :: "Market \<Rightarrow> Bar \<Rightarrow> Market" where
  "Market_OnClosed = Market_OnClosed_in (\<lambda>entries. entries)"

definition Market_Seed :: "Market \<Rightarrow> Bar list \<Rightarrow> Market" where
  "Market_Seed m bars =
     (let closedBars = filter bar_Closed bars;
          kept = trim_history (mk_historyLimit m) closedBars
      in m\<lparr>mk_bars := kept, mk_samples := of_nat (length closedBars),
           mk_state := EvaluateMarket kept (mk_config m)\<rparr>)"

text \<open>
  \<^verbatim>\<open>json.Marshal\<close> of a bar fails on a price that is not finite and on a year outside the four
  digits of RFC 3339.
\<close>

definition bar_encodable :: "Bar \<Rightarrow> bool" where
  "bar_encodable b \<longleftrightarrow> list_all finite64 [bar_Open b, bar_High b, bar_Low b, bar_Close b, bar_Volume b] \<and>
     0 \<le> year_of (bar_OpenTime b) \<and> year_of (bar_OpenTime b) \<le> 9999"

definition Market_Snapshot :: "Market \<Rightarrow> (market_error, state_bytes) result" where
  "Market_Snapshot m =
     (if list_all bar_encodable (mk_bars m)
      then Inr (MarketDoc \<lparr>mks_Version = MarketAlgorithmVersion, mks_Samples = mk_samples m, mks_Bars = mk_bars m\<rparr>)
      else Inl MarketEncode)"

text \<open>An EMA document has the key \<^verbatim>\<open>samples\<close> and no version.\<close>

fun unmarshal_marketSnapshot :: "state_bytes \<Rightarrow> marketSnapshot option" where
  "unmarshal_marketSnapshot (MarketDoc m) = Some m"
| "unmarshal_marketSnapshot (EMADoc e) = Some \<lparr>mks_Version = [], mks_Samples = es_Samples e, mks_Bars = []\<rparr>"
| "unmarshal_marketSnapshot Malformed = None"

definition Market_Restore :: "Market \<Rightarrow> state_bytes \<Rightarrow> (market_error, Market) result" where
  "Market_Restore m data =
     (case unmarshal_marketSnapshot data of
        None \<Rightarrow> Inl MarketDecode
      | Some s \<Rightarrow>
          if mks_Version s \<noteq> MarketAlgorithmVersion then Inl (MarketVersionUnsupported (mks_Version s))
          else if mk_historyLimit m < int (length (mks_Bars s))
            then Inl (MarketTooManyBars (length (mks_Bars s)) (mk_historyLimit m))
          else Inr (m\<lparr>mk_bars := mks_Bars s, mk_samples := mks_Samples s,
                      mk_state := EvaluateMarket (mks_Bars s) (mk_config m)\<rparr>))"

definition Market_Clone :: "Market \<Rightarrow> (market_error, Market) result" where
  "Market_Clone m =
     (case NewMarket (mk_config m) (mk_historyLimit m) of
        Inl e \<Rightarrow> Inl e
      | Inr clone \<Rightarrow>
          (case Market_Snapshot m of
             Inl e \<Rightarrow> Inl e
           | Inr state \<Rightarrow> Market_Restore clone state))"

subsection \<open>The state after a history of bars\<close>

text \<open>Reference definition: the reducer after the closed bars \<open>hist\<close>, which keeps the last \<open>limit\<close> of them.\<close>

definition market_state_of :: "MarketConfig \<Rightarrow> int \<Rightarrow> Bar list \<Rightarrow> MarketState" where
  "market_state_of cfg limit hist =
     (if hist = [] then zero_MarketState
      else let cur = EvaluateMarket (keep_last (nat limit) hist) cfg;
          st = cur\<lparr>ms_PatternOccurrences := patternOccurrences (ms_Patterns cur) (bar_OpenTime (last hist))\<rparr>
      in st\<lparr>ms_ZoneTransitions :=
           zoneTransitions (EvaluateMarket (keep_last (nat limit) (butlast hist)) cfg) st (last hist)\<rparr>)"

definition market_of :: "MarketConfig \<Rightarrow> int \<Rightarrow> Bar list \<Rightarrow> Market" where
  "market_of cfg limit hist =
     \<lparr>mk_config = cfg, mk_historyLimit = limit, mk_bars = keep_last (nat limit) hist,
      mk_samples = of_nat (length hist), mk_state = market_state_of cfg limit hist\<rparr>"

lemma trim_history_keep_last: "0 \<le> limit \<Longrightarrow> trim_history limit bars = keep_last (nat limit) bars"
  by (auto simp: trim_history_def keep_last_alt nat_diff_distrib nat_less_iff)

lemma zoneTransitions_cong: "allZones p = allZones p' \<Longrightarrow> zoneTransitions p c b = zoneTransitions p' c b"
  by (simp add: zoneTransitions_def zoneTransitions_in_def)

lemma EvaluateMarket_Nil [simp]: "allZones (EvaluateMarket [] cfg) = []" "allZones zero_MarketState = []"
  by (simp_all add: EvaluateMarket_def allZones_def zero_MarketState_def)

lemma allZones_update [simp]:
  "allZones (s\<lparr>ms_PatternOccurrences := x\<rparr>) = allZones s" "allZones (s\<lparr>ms_ZoneTransitions := y\<rparr>) = allZones s"
  by (simp_all add: allZones_def)

lemma allZones_market_state_of: "allZones (market_state_of cfg limit hist) = allZones (EvaluateMarket (keep_last (nat limit) hist) cfg)"
  by (simp add: market_state_of_def Let_def)

lemma Market_OnClosed_unfold:
  "Market_OnClosed m bar =
     (let bars = trim_history (mk_historyLimit m) (mk_bars m @ [bar]);
          state = EvaluateMarket bars (mk_config m);
          state' = state\<lparr>ms_PatternOccurrences := patternOccurrences (ms_Patterns state) (bar_OpenTime bar)\<rparr>
      in m\<lparr>mk_bars := bars, mk_samples := mk_samples m + 1,
           mk_state := state'\<lparr>ms_ZoneTransitions := zoneTransitions (mk_state m) state' bar\<rparr>\<rparr>)"
  by (simp add: Market_OnClosed_def Market_OnClosed_in_def zoneTransitions_def Let_def)

text \<open>What the next step of the reducer can see of its state.\<close>

definition market_sim :: "Market \<Rightarrow> Market \<Rightarrow> bool" where
  "market_sim m m' \<longleftrightarrow> mk_config m = mk_config m' \<and> mk_historyLimit m = mk_historyLimit m' \<and> mk_bars m = mk_bars m' \<and>
     mk_samples m = mk_samples m' \<and> allZones (mk_state m) = allZones (mk_state m')"

lemma market_sim_OnClosed: "market_sim m m' \<Longrightarrow> Market_OnClosed m bar = Market_OnClosed m' bar"
  using zoneTransitions_cong [of "mk_state m" "mk_state m'"]
  by (simp add: market_sim_def Market_OnClosed_unfold Let_def)

lemma market_sim_refl [simp]: "market_sim m m"
  by (simp add: market_sim_def)

lemma Market_OnClosed_market_of:
  assumes "0 \<le> limit" and "market_sim m (market_of cfg limit hist)"
  shows "Market_OnClosed m bar = market_of cfg limit (hist @ [bar])"
proof -
  let ?old = "EvaluateMarket (keep_last (nat limit) hist) cfg"
  have "zoneTransitions (market_state_of cfg limit hist) c bar = zoneTransitions ?old c bar" for c
    by (rule zoneTransitions_cong) (simp add: allZones_market_state_of)
  then have "Market_OnClosed (market_of cfg limit hist) bar = market_of cfg limit (hist @ [bar])"
    using assms(1)
    by (simp add: market_of_def Market_OnClosed_unfold Let_def trim_history_keep_last keep_last_snoc)
      (simp add: market_state_of_def Let_def)
  with market_sim_OnClosed [OF assms(2)] show ?thesis by simp
qed

lemma Market_OnClosed_fold:
  assumes "0 \<le> limit"
  shows "foldl Market_OnClosed (market_of cfg limit hist) bars = market_of cfg limit (hist @ bars)"
  by (induction bars arbitrary: hist) (simp_all add: Market_OnClosed_market_of [OF assms market_sim_refl])

lemma market_of_Nil: "NewMarket cfg limit = Inr m \<Longrightarrow> m = market_of cfg limit []"
  by (auto simp: NewMarket_def market_of_def market_state_of_def split: if_splits)

subsection \<open>The order of the range loop\<close>

text \<open>Equal but for the order of the zone transitions of the last bar.\<close>

definition market_like :: "Market \<Rightarrow> Market \<Rightarrow> bool" where
  "market_like m m' \<longleftrightarrow>
     m\<lparr>mk_state := (mk_state m)\<lparr>ms_ZoneTransitions := []\<rparr>\<rparr> = m'\<lparr>mk_state := (mk_state m')\<lparr>ms_ZoneTransitions := []\<rparr>\<rparr> \<and>
     mset (ms_ZoneTransitions (mk_state m)) = mset (ms_ZoneTransitions (mk_state m'))"

text \<open>The reducer over a run of closed bars, each with the order its own range loop happens to take.\<close>

definition market_run :: "Market \<Rightarrow> (range_order \<times> Bar) list \<Rightarrow> Market" where
  "market_run = foldl (\<lambda>m (order, bar). Market_OnClosed_in order m bar)"

lemma market_run_simps [simp]:
  "market_run m [] = m" "market_run m ((order, bar) # run) = market_run (Market_OnClosed_in order m bar) run"
  by (simp_all add: market_run_def)

lemma market_like_fields:
  assumes "market_like m m'"
  shows "mk_config m = mk_config m'" "mk_historyLimit m = mk_historyLimit m'" "mk_bars m = mk_bars m'"
    "mk_samples m = mk_samples m'" "allZones (mk_state m) = allZones (mk_state m')"
proof -
  let ?f = "\<lambda>m :: Market. m\<lparr>mk_state := (mk_state m)\<lparr>ms_ZoneTransitions := []\<rparr>\<rparr>"
  have eq: "?f m = ?f m'" using assms by (simp add: market_like_def)
  from arg_cong [OF eq, of mk_config] show "mk_config m = mk_config m'" by simp
  from arg_cong [OF eq, of mk_historyLimit] show "mk_historyLimit m = mk_historyLimit m'" by simp
  from arg_cong [OF eq, of mk_bars] show "mk_bars m = mk_bars m'" by simp
  from arg_cong [OF eq, of mk_samples] show "mk_samples m = mk_samples m'" by simp
  from arg_cong [OF eq, of "\<lambda>m. allZones (mk_state m)"] show "allZones (mk_state m) = allZones (mk_state m')" by simp
qed

lemma market_like_sim: "market_like m m' \<Longrightarrow> market_sim m m'"
  by (simp add: market_sim_def market_like_fields)

lemma mset_concat_map_cong: "mset xs = mset ys \<Longrightarrow> mset (concat (map f xs)) = mset (concat (map f ys))"
  by (simp add: mset_concat flip: sum_mset_sum_list)

lemma zoneTransitions_in_mset:
  assumes "is_range order"
  shows "mset (zoneTransitions_in order previous current bar) = mset (zoneTransitions previous current bar)"
  using assms
  by (auto simp: zoneTransitions_def zoneTransitions_in_def is_range_def Let_def intro!: mset_concat_map_cong)

lemma Market_OnClosed_in_like:
  assumes "is_range order"
  shows "market_like (Market_OnClosed_in order m bar) (Market_OnClosed m bar)"
  using zoneTransitions_in_mset [OF assms]
  by (simp add: market_like_def Market_OnClosed_unfold Market_OnClosed_in_def Let_def)

lemma market_run_like:
  assumes "0 \<le> limit" and "list_all (is_range \<circ> fst) run" and "run \<noteq> []"
    and "market_sim m (market_of cfg limit hist)"
  shows "market_like (market_run m run) (market_of cfg limit (hist @ map snd run))"
  using assms(2-)
proof (induction run arbitrary: m hist)
  case (Cons step run)
  obtain order bar where step: "step = (order, bar)" by force
  have like: "market_like (Market_OnClosed_in order m bar) (market_of cfg limit (hist @ [bar]))"
    using Market_OnClosed_in_like [of order m bar] Cons.prems Market_OnClosed_market_of [OF assms(1), of m cfg hist bar]
    by (simp add: step)
  show ?case
  proof (cases "run = []")
    case False
    with Cons.IH [of "Market_OnClosed_in order m bar" "hist @ [bar]"] Cons.prems market_like_sim [OF like]
    show ?thesis by (simp add: step)
  qed (use like in \<open>simp add: step\<close>)
qed simp

lemma market_like_refl [simp]: "market_like m m"
  by (simp add: market_like_def)

subsection \<open>Snapshots and clones\<close>

definition market_good :: "Market \<Rightarrow> bool" where
  "market_good m \<longleftrightarrow> int (length (mk_bars m)) \<le> mk_historyLimit m \<and>
     allZones (mk_state m) = allZones (EvaluateMarket (mk_bars m) (mk_config m))"

definition same_setup :: "Market \<Rightarrow> Market \<Rightarrow> bool" where
  "same_setup m m' \<longleftrightarrow> mk_config m = mk_config m' \<and> mk_historyLimit m = mk_historyLimit m'"

lemma market_of_good: "0 \<le> limit \<Longrightarrow> market_good (market_of cfg limit hist)"
  by (simp add: market_good_def market_of_def allZones_market_state_of)

interpretation market_checkpoint: checkpointed Market_OnClosed Market_Snapshot Market_Restore same_setup market_good market_sim
proof unfold_locales
  fix s fresh d
  assume "market_good s" "same_setup fresh s" "Market_Snapshot s = Inr d"
  then show "\<exists>t. Market_Restore fresh d = Inr t \<and> market_sim s t"
    by (auto simp: Market_Snapshot_def Market_Restore_def market_good_def same_setup_def market_sim_def split: if_splits)
qed (simp add: market_sim_OnClosed)

lemma Market_Clone_sim:
  assumes "market_good m" and "Market_Clone m = Inr m'"
  shows "market_sim m' m"
  using assms
  by (auto simp: Market_Clone_def NewMarket_def Market_Snapshot_def Market_Restore_def market_good_def market_sim_def
      split: if_splits)

lemma Market_Clone_ok:
  assumes "market_good m" and "list_all bar_encodable (mk_bars m)"
    and "max (max (cfg_RecentBars (mk_config m)) (cfg_FVGLookback (mk_config m))) (cfg_LiquidityLookback (mk_config m)) \<le> mk_historyLimit m"
  shows "is_ok (Market_Clone m)"
  using assms by (auto simp: Market_Clone_def NewMarket_def Market_Snapshot_def Market_Restore_def market_good_def)

subsection \<open>Zone maps\<close>

lemma zone_map_foldl:
  "set (foldl (\<lambda>m z. AList.update (zone_ID z) z m) m zs) \<subseteq> set m \<union> (\<lambda>z. (zone_ID z, z)) ` set zs \<and>
   fst ` set (foldl (\<lambda>m z. AList.update (zone_ID z) z m) m zs) = fst ` set m \<union> zone_ID ` set zs"
proof (induction zs arbitrary: m)
  case (Cons z zs)
  have "set (AList.update (zone_ID z) z m) \<subseteq> insert (zone_ID z, z) (set m)" by (rule set_AList_update)
  moreover have "fst ` set (AList.update (zone_ID z) z m) = insert (zone_ID z) (fst ` set m)" by (simp add: dom_update)
  ultimately show ?case using Cons [of "AList.update (zone_ID z) z m"] by auto
qed simp

lemma zone_map_entry: "(i, z) \<in> set (zone_map zs) \<Longrightarrow> zone_ID z = i \<and> z \<in> set zs"
  using zone_map_foldl [of "[]" zs] by (auto simp: zone_map_def)

lemma zone_map_ids: "fst ` set (zone_map zs) = zone_ID ` set zs"
  using zone_map_foldl [of "[]" zs] by (simp add: zone_map_def)

lemma map_of_zone_map: "map_of (zone_map zs) i = None \<longleftrightarrow> i \<notin> zone_ID ` set zs"
  by (simp add: map_of_eq_None_iff zone_map_ids)

definition zone_ids :: "MarketState \<Rightarrow> string set" where
  "zone_ids s = zone_ID ` set (allZones s)"

definition ending :: "string \<Rightarrow> bool" where
  "ending name \<longleftrightarrow> name \<in> {''expired'', ''mitigated'', ''invalidated''}"

lemma appeared_transition:
  assumes "t \<in> set (appeared bar (zone_map (allZones prev)) zone)" and "zone \<in> set (allZones cur)"
  shows "zt_At t = bar_OpenTime bar \<and> zone_ID (zt_Zone t) \<in> zone_ids cur \<and>
    (zt_Transition t = ''created'' \<and> zone_ID (zt_Zone t) \<notin> zone_ids prev \<or>
     zt_Transition t = ''touched'' \<and> zone_ID (zt_Zone t) \<in> zone_ids prev)"
  using assms map_of_zone_map [of "allZones prev" "zone_ID zone"]
  by (auto simp: appeared_def transition_def zone_ids_def split: option.splits if_splits)

lemma disappeared_transition:
  assumes "t \<in> set (disappeared bar zone)"
  shows "zt_At t = bar_OpenTime bar \<and> zt_Zone t = zone \<and> (zt_Transition t = ''touched'' \<or> ending (zt_Transition t))"
  using assms by (auto simp: disappeared_def transition_def ending_def split: if_splits)

lemma disappeared_ends: "\<exists>t \<in> set (disappeared bar zone). zt_Zone t = zone \<and> ending (zt_Transition t)"
  by (auto simp: disappeared_def transition_def ending_def)

lemma zoneTransitions_iff:
  "t \<in> set (zoneTransitions prev cur bar) \<longleftrightarrow>
     (\<exists>zone \<in> set (allZones cur). t \<in> set (appeared bar (zone_map (allZones prev)) zone)) \<or>
     (\<exists>(i, zone) \<in> set (zone_map (allZones prev)). i \<notin> zone_ids cur \<and> t \<in> set (disappeared bar zone))"
proof -
  have "map_of (zone_map (allZones cur)) i \<noteq> None \<longleftrightarrow> i \<in> zone_ids cur" for i
    using map_of_zone_map [of "allZones cur" i] by (simp add: zone_ids_def)
  then show ?thesis by (auto simp: zoneTransitions_def zoneTransitions_in_def Let_def split: if_splits; blast)
qed

lemma sample_encodable: "bar_encodable (sample_bar 1 3)"
proof -
  have "year_of minute = 1970" by code_simp
  then show ?thesis by (simp add: bar_encodable_def sample_bar_def of_int64_def)
qed

lemma default_limit: "NewMarket DefaultMarketConfig 500 = Inr (market_of DefaultMarketConfig 500 [])"
  by (simp add: NewMarket_def DefaultMarketConfig_def market_of_def market_state_of_def)

subsection \<open>Properties\<close>

text \<open>
  C18. The reducer refines its reference, in whatever order its range loops take the entries of the
  map of zones: after any number of closed bars it holds the last \<open>limit\<close> of them, has counted all
  of them, and its state is the evaluation of that bounded history with the pattern occurrences
  and the zone transitions of the last bar, the latter up to their order.
\<close>

theorem market_refines_reference:
  assumes "NewMarket cfg limit = Inr m" and "0 \<le> limit" and "list_all (is_range \<circ> fst) run"
  shows "market_like (market_run m run) (market_of cfg limit (map snd run)) \<and>
    int (length (mk_bars (market_run m run))) \<le> limit"
proof -
  have m: "m = market_of cfg limit []" by (rule market_of_Nil [OF assms(1)])
  have like: "market_like (market_run m run) (market_of cfg limit (map snd run))"
  proof (cases "run = []")
    case False
    from market_run_like [OF assms(2,3) this, of m cfg "[]"] show ?thesis by (simp add: m)
  qed (simp add: m)
  with market_like_fields(3) [OF like] assms(2) show ?thesis by (simp add: market_of_def)
qed

theorem market_refines_reference_witness:
  "market_like (market_run (market_of DefaultMarketConfig 500 []) [(rev, sample_bar 1 3), (\<lambda>m. m, sample_bar 2 5)])
     (market_of DefaultMarketConfig 500 [sample_bar 1 3, sample_bar 2 5])"
  using market_refines_reference [OF default_limit, of "[(rev, sample_bar 1 3), (\<lambda>m. m, sample_bar 2 5)]"]
  by (simp add: is_range_def)

text \<open>
  C19. Restarting from a snapshot loses nothing: a reducer restored from the snapshot of any
  earlier moment and given the bars since is, once it has seen one of them, in the state it would
  have had without the restart, pattern occurrences and zone transitions of the last bar included;
  only the order of the latter may differ, as it does between any two runs.
\<close>

theorem market_restore_replay:
  assumes "0 \<le> limit" and "NewMarket cfg limit = Inr fresh" and "Market_Snapshot (market_of cfg limit hist) = Inr d"
  shows "\<exists>t. Market_Restore fresh d = Inr t \<and> mk_bars t = keep_last (nat limit) hist \<and>
    (\<forall>run. run \<noteq> [] \<and> list_all (is_range \<circ> fst) run \<longrightarrow>
      market_like (market_run t run) (market_of cfg limit (hist @ map snd run)))"
proof -
  have "same_setup fresh (market_of cfg limit hist)"
    using market_of_Nil [OF assms(2)] by (simp add: same_setup_def market_of_def)
  then obtain t where t: "Market_Restore fresh d = Inr t" "market_sim (market_of cfg limit hist) t"
    using market_checkpoint.load_save [OF market_of_good [OF assms(1)] _ assms(3)] by blast
  then have "market_sim t (market_of cfg limit hist)" by (simp add: market_sim_def)
  then have "\<forall>run. run \<noteq> [] \<and> list_all (is_range \<circ> fst) run \<longrightarrow>
      market_like (market_run t run) (market_of cfg limit (hist @ map snd run))"
    using market_run_like [OF assms(1)] by blast
  with t show ?thesis by (auto simp: market_sim_def market_of_def)
qed

theorem market_restore_replay_witness:
  "\<exists>d t. Market_Snapshot (market_of DefaultMarketConfig 500 [sample_bar 1 3]) = Inr d \<and>
     Market_Restore (market_of DefaultMarketConfig 500 []) d = Inr t \<and>
     market_like (market_run t [(rev, sample_bar 2 5)]) (market_of DefaultMarketConfig 500 [sample_bar 1 3, sample_bar 2 5])"
proof -
  have "list_all bar_encodable (keep_last 500 [sample_bar 1 3])"
    using sample_encodable by (simp add: keep_last_alt)
  then obtain d where d: "Market_Snapshot (market_of DefaultMarketConfig 500 [sample_bar 1 3]) = Inr d"
    by (simp add: Market_Snapshot_def market_of_def)
  obtain t where t: "Market_Restore (market_of DefaultMarketConfig 500 []) d = Inr t"
      "\<forall>run. run \<noteq> [] \<and> list_all (is_range \<circ> fst) run \<longrightarrow>
         market_like (market_run t run) (market_of DefaultMarketConfig 500 ([sample_bar 1 3] @ map snd run))"
    using market_restore_replay [OF _ default_limit d] by auto
  with d show ?thesis using spec [OF t(2), of "[(rev, sample_bar 2 5)]"] by (auto simp: is_range_def)
qed

text \<open>
  Seeding is replaying: a reducer seeded with a batch and then given a closed bar is in the
  state of a reducer that was given the closed bars of the batch one by one.
\<close>

theorem market_seed_replay:
  assumes "0 \<le> limit" and "NewMarket cfg limit = Inr fresh"
  shows "Market_OnClosed (Market_Seed fresh bars) bar = foldl Market_OnClosed fresh (filter bar_Closed bars @ [bar])"
proof -
  have fresh: "fresh = market_of cfg limit []" by (rule market_of_Nil [OF assms(2)])
  have "market_sim (Market_Seed fresh bars) (market_of cfg limit (filter bar_Closed bars))"
    using assms(1) by (simp add: fresh Market_Seed_def market_sim_def market_of_def Let_def trim_history_keep_last
        allZones_market_state_of)
  then have "Market_OnClosed (Market_Seed fresh bars) bar = market_of cfg limit (filter bar_Closed bars @ [bar])"
    by (rule Market_OnClosed_market_of [OF assms(1)])
  also have "\<dots> = foldl Market_OnClosed fresh (filter bar_Closed bars @ [bar])"
    using Market_OnClosed_fold [OF assms(1), of cfg "[]" "filter bar_Closed bars @ [bar]"] unfolding fresh by simp
  finally show ?thesis .
qed

theorem market_seed_replay_witness:
  "Market_OnClosed (Market_Seed (market_of DefaultMarketConfig 500 []) [sample_bar 1 3]) (sample_bar 2 5) =
     foldl Market_OnClosed (market_of DefaultMarketConfig 500 []) [sample_bar 1 3, sample_bar 2 5]"
  using market_seed_replay [OF _ default_limit, of "[sample_bar 1 3]" "sample_bar 2 5"] by (simp add: sample_bar_def)

text \<open>
  The lifecycle of zones: every transition is stamped with the bar; a zone is created exactly
  when its identity is new, ends (expired, mitigated or invalidated) exactly when its identity
  is gone, and is touched only when it was known before.
\<close>

theorem zone_transitions_lifecycle:
  "(\<forall>t \<in> set (zoneTransitions prev cur bar). zt_At t = bar_OpenTime bar \<and>
      (zt_Transition t = ''created'' \<and> zone_ID (zt_Zone t) \<in> zone_ids cur - zone_ids prev \<or>
       zt_Transition t = ''touched'' \<and> zone_ID (zt_Zone t) \<in> zone_ids prev \<or>
       ending (zt_Transition t) \<and> zone_ID (zt_Zone t) \<in> zone_ids prev - zone_ids cur)) \<and>
   (\<forall>i \<in> zone_ids cur - zone_ids prev.
      \<exists>t \<in> set (zoneTransitions prev cur bar). zone_ID (zt_Zone t) = i \<and> zt_Transition t = ''created'') \<and>
   (\<forall>i \<in> zone_ids prev - zone_ids cur.
      \<exists>t \<in> set (zoneTransitions prev cur bar). zone_ID (zt_Zone t) = i \<and> ending (zt_Transition t))"
proof (intro conjI ballI)
  fix t assume "t \<in> set (zoneTransitions prev cur bar)"
  then consider zone where "zone \<in> set (allZones cur)" "t \<in> set (appeared bar (zone_map (allZones prev)) zone)"
    | i zone where "(i, zone) \<in> set (zone_map (allZones prev))" "i \<notin> zone_ids cur" "t \<in> set (disappeared bar zone)"
    unfolding zoneTransitions_iff by blast
  then have "zt_At t = bar_OpenTime bar \<and>
      (zt_Transition t = ''created'' \<and> zone_ID (zt_Zone t) \<in> zone_ids cur - zone_ids prev \<or>
       zt_Transition t = ''touched'' \<and> zone_ID (zt_Zone t) \<in> zone_ids prev \<or>
       ending (zt_Transition t) \<and> zone_ID (zt_Zone t) \<in> zone_ids prev - zone_ids cur)"
  proof cases
    case 1
    then show ?thesis using appeared_transition by blast
  next
    case 2
    then have "zone_ID zone = i" "i \<in> zone_ids prev" using zone_map_entry unfolding zone_ids_def by blast+
    with 2 disappeared_transition [OF 2(3)] show ?thesis by auto
  qed
  then show "zt_At t = bar_OpenTime bar" "zt_Transition t = ''created'' \<and> zone_ID (zt_Zone t) \<in> zone_ids cur - zone_ids prev \<or>
       zt_Transition t = ''touched'' \<and> zone_ID (zt_Zone t) \<in> zone_ids prev \<or>
       ending (zt_Transition t) \<and> zone_ID (zt_Zone t) \<in> zone_ids prev - zone_ids cur"
    by blast+
next
  fix i assume i: "i \<in> zone_ids cur - zone_ids prev"
  then obtain zone where z: "zone \<in> set (allZones cur)" "i = zone_ID zone" by (auto simp: zone_ids_def)
  then have "appeared bar (zone_map (allZones prev)) zone = [transition bar zone ''created'']"
    using i map_of_zone_map [of "allZones prev" i] by (simp add: appeared_def zone_ids_def)
  then show "\<exists>t \<in> set (zoneTransitions prev cur bar). zone_ID (zt_Zone t) = i \<and> zt_Transition t = ''created''"
    using z unfolding Bex_def zoneTransitions_iff
    by (intro exI [of _ "transition bar zone ''created''"]) (force simp: transition_def)
next
  fix i assume i: "i \<in> zone_ids prev - zone_ids cur"
  then obtain zone where z: "(i, zone) \<in> set (zone_map (allZones prev))"
    using zone_map_ids [of "allZones prev"] by (fastforce simp: zone_ids_def)
  obtain t where "t \<in> set (disappeared bar zone)" "zt_Zone t = zone" "ending (zt_Transition t)"
    using disappeared_ends by blast
  with z i zone_map_entry [OF z] show "\<exists>t \<in> set (zoneTransitions prev cur bar). zone_ID (zt_Zone t) = i \<and> ending (zt_Transition t)"
    unfolding Bex_def zoneTransitions_iff by blast
qed

definition sample_zone :: PriceZone where
  "sample_zone = \<lparr>zone_ID = ''z'', zone_Kind = ''fvg'', zone_Side = ''up'', zone_Grade = [], zone_FromTime = 0, zone_ToTime = 0,
     zone_Top = Fin 4, zone_Bottom = Fin 3, zone_State = ''fresh''\<rparr>"

theorem zone_transitions_lifecycle_witness:
  "\<exists>t. t \<in> set (zoneTransitions (zero_MarketState) (zero_MarketState\<lparr>ms_FVGs := [sample_zone]\<rparr>) (sample_bar 1 3)) \<and>
     zone_ID (zt_Zone t) = ''z'' \<and> zt_Transition t = ''created''"
proof -
  have "''z'' \<in> zone_ids (zero_MarketState\<lparr>ms_FVGs := [sample_zone]\<rparr>) - zone_ids zero_MarketState"
    by (simp add: zone_ids_def allZones_def zero_MarketState_def sample_zone_def)
  with zone_transitions_lifecycle [THEN conjunct2, THEN conjunct1] show ?thesis by blast
qed

text \<open>
  The order of the range loop shows: when a gap and the order block behind it vanish with the same bar, two
  executions of the loop list their transitions in different orders.
\<close>

lemma zone_transition_order_varies:
  "\<exists>order previous current bar. is_range order \<and>
     zoneTransitions_in order previous current bar \<noteq> zoneTransitions previous current bar"
proof -
  let ?previous = "zero_MarketState\<lparr>ms_FVGs := [sample_zone], ms_OrderBlocks := [sample_zone\<lparr>zone_ID := ''o'', zone_Kind := ''order_block''\<rparr>]\<rparr>"
  have "zoneTransitions_in rev ?previous zero_MarketState (sample_bar 1 3) \<noteq> zoneTransitions ?previous zero_MarketState (sample_bar 1 3)"
    by (simp add: zoneTransitions_def zoneTransitions_in_def Let_def zone_map_def allZones_def zero_MarketState_def sample_zone_def
        disappeared_def transition_def)
  moreover have "is_range rev" by (simp add: is_range_def)
  ultimately show ?thesis by blast
qed

end
