(* ===== verification/Store.thy ===== *)
theory Store
  imports Market
begin

text \<open>
  The interface \<^verbatim>\<open>engine.Store\<close> of \<^verbatim>\<open>internal/engine/lane.go\<close> as a record of operations on a
  store state, and its in-memory implementation \<^verbatim>\<open>internal/store/memory.go\<close> with the filters and
  the bar hash of \<^verbatim>\<open>internal/store/postgres.go\<close>. An operation returns its result together with
  the store afterwards. Go maps are association lists where the code ranges over them.
\<close>

datatype store_error = CursorBackwards | CursorConflict | Unavailable string

record 's store_ops =
  LoadRecovery :: "'s \<Rightarrow> SeriesKey \<Rightarrow> (store_error, SeriesRecovery) result"
  RebuildSeries :: "'s \<Rightarrow> SeriesKey \<Rightarrow> SignalEvent list \<Rightarrow> ReducerSnapshot list \<Rightarrow> Bar option \<Rightarrow>
    (store_error, SignalEvent list) result \<times> 's"
  CommitClosed :: "'s \<Rightarrow> SeriesKey \<Rightarrow> Bar \<Rightarrow> SignalEvent list \<Rightarrow> ReducerSnapshot list \<Rightarrow>
    (store_error, SignalEvent list) result \<times> 's"
  MarkPublished :: "'s \<Rightarrow> int list \<Rightarrow> (store_error, unit) result \<times> 's"

subsection \<open>Hash and filters\<close>

definition barHash :: "Bar \<Rightarrow> string" where
  "barHash bar = hex_encode (sha256_bytes (map of_char (bar_Symbol bar) @ map of_char (bar_Timeframe bar) @
     concat (map (\<lambda>v. put_uint64 (float64_bits v))
       [bar_Open bar, bar_High bar, bar_Low bar, bar_Close bar, bar_Volume bar]) @
     put_uint64 (unat (bar_Trades bar))))"

definition eventPeriod :: "SignalEvent \<Rightarrow> int" where
  "eventPeriod event = (case ev_Indicator event of None \<Rightarrow> 0 | Some p \<Rightarrow> ip_Period p)"

record EventFilter =
  ef_AfterCursor :: int
  ef_Dataset :: string
  ef_Symbol :: string
  ef_Timeframe :: string
  ef_Period :: int
  ef_EventType :: string
  ef_Analysis :: string
  ef_Limit :: int

record PointFilter =
  pf_Dataset :: string
  pf_Symbol :: string
  pf_Timeframe :: string
  pf_Period :: int
  pf_Algorithm :: AlgorithmRef
  pf_Limit :: int

definition normalize_limit :: "int \<Rightarrow> int" where
  "normalize_limit n = (let m = (if n \<le> 0 then 500 else n) in if 5000 < m then 5000 else m)"

subsection \<open>The memory store\<close>

text \<open>
  The counter behind the cursors is an \<^verbatim>\<open>int64\<close> in the code and an \<^typ>\<open>int\<close> here: the model is that of a store that has logged fewer
  than \<open>2 ^ 63\<close> events. Where a cursor is printed and read back this bound is a hypothesis.
\<close>

record Memory =
  mem_next :: int
  mem_events :: "SignalEvent list"
  mem_points :: "(string \<times> SignalEvent) list"
  mem_markets :: "(string \<times> SignalEvent) list"
  mem_cursors :: "(string \<times> Bar) list"
  mem_snapshots :: "(string \<times> ReducerSnapshot) list"
  mem_published :: "int \<Rightarrow> bool"

definition NewMemory :: Memory where
  "NewMemory = \<lparr>mem_next = 0, mem_events = [], mem_points = [], mem_markets = [], mem_cursors = [],
     mem_snapshots = [], mem_published = (\<lambda>_. False)\<rparr>"

definition snapshotKey :: "SeriesKey \<Rightarrow> ReducerSnapshot \<Rightarrow> string" where
  "snapshotKey key snapshot = SeriesKey_String key @ ''|'' @ alg_Name (rs_Algorithm snapshot) @ ''|'' @
     alg_Version (rs_Algorithm snapshot) @ ''|'' @ alg_ConfigHash (rs_Algorithm snapshot) @ ''|'' @
     itoa (rs_Period snapshot)"

definition marketKey :: "SignalEvent \<Rightarrow> string" where
  "marketKey event = ev_Dataset event @ ''|'' @ ev_Symbol event @ ''|'' @ ev_Timeframe event @ ''|'' @
     alg_Name (ev_Algorithm event) @ ''|'' @ alg_Version (ev_Algorithm event) @ ''|'' @
     alg_ConfigHash (ev_Algorithm event)"

definition Memory_LoadRecovery :: "Memory \<Rightarrow> SeriesKey \<Rightarrow> (store_error, SeriesRecovery) result" where
  "Memory_LoadRecovery s key =
     (let snapshots = map snd (filter (\<lambda>(k, _). has_prefix k (SeriesKey_String key @ ''|'')) (mem_snapshots s))
      in Inr (case map_of (mem_cursors s) (SeriesKey_String key) of
           Some cursor \<Rightarrow> \<lparr>rec_Snapshots = snapshots, rec_CursorOpenTime = bar_OpenTime cursor,
                            rec_CursorHash = barHash cursor, rec_HasCursor = True\<rparr>
         | None \<Rightarrow> \<lparr>rec_Snapshots = snapshots, rec_CursorOpenTime = zero_time, rec_CursorHash = [],
                      rec_HasCursor = False\<rparr>))"

definition same_point :: "SignalEvent \<Rightarrow> SignalEvent \<Rightarrow> bool" where
  "same_point existing event \<longleftrightarrow> ev_Dataset existing = ev_Dataset event \<and> ev_Symbol existing = ev_Symbol event \<and>
     ev_Timeframe existing = ev_Timeframe event \<and> ev_BarOpenTime existing = ev_BarOpenTime event \<and>
     ev_BarRevision existing = ev_BarRevision event \<and> eventPeriod existing = eventPeriod event \<and>
     alg_Name (ev_Algorithm existing) = alg_Name (ev_Algorithm event)"

definition persistEventState :: "Memory \<Rightarrow> SignalEvent \<Rightarrow> Memory" where
  "persistEventState s event =
     (if ev_EventType event = ''market.state''
      then s\<lparr>mem_markets := AList.update (marketKey event) event (mem_markets s)\<rparr>
      else s\<lparr>mem_points := AList.update (ev_EventID event) event
               (filter (\<lambda>(_, existing). \<not> same_point existing event) (mem_points s))\<rparr>)"

definition eventByID :: "Memory \<Rightarrow> string \<Rightarrow> SignalEvent option" where
  "eventByID s eventID =
     (case map_of (mem_points s) eventID of
        Some event \<Rightarrow> Some event
      | None \<Rightarrow> find (\<lambda>event. ev_EventID event = eventID) (mem_events s))"

definition put_snapshots :: "SeriesKey \<Rightarrow> ReducerSnapshot list \<Rightarrow> Memory \<Rightarrow> Memory" where
  "put_snapshots key snapshots s =
     s\<lparr>mem_snapshots := foldl (\<lambda>m r. AList.update (snapshotKey key r) r m) (mem_snapshots s) snapshots\<rparr>"

text \<open>The loop over the events of a rebuild: reset events get a cursor and an outbox row.\<close>

definition rebuild_event :: "SignalEvent list \<times> Memory \<Rightarrow> SignalEvent \<Rightarrow> SignalEvent list \<times> Memory" where
  "rebuild_event = (\<lambda>(committed, s0) event.
     (let s = persistEventState s0 event in
      if ev_Reset event then
        (let cursor = mem_next s + 1; event' = event\<lparr>ev_Cursor := cursor\<rparr>
         in (committed @ [event'],
             s\<lparr>mem_next := cursor, mem_events := mem_events s @ [event'],
               mem_published := (mem_published s)(cursor := False)\<rparr>))
      else (committed, s)))"

definition of_series :: "SeriesKey \<Rightarrow> SignalEvent \<Rightarrow> bool" where
  "of_series key event \<longleftrightarrow> ev_Dataset event = key_Dataset key \<and> ev_Symbol event = key_Symbol key \<and>
     ev_Timeframe event = key_Timeframe key"

definition clear_series :: "SeriesKey \<Rightarrow> Memory \<Rightarrow> Memory" where
  "clear_series key s =
     s\<lparr>mem_snapshots := filter (\<lambda>(k, _). \<not> has_prefix k (SeriesKey_String key @ ''|'')) (mem_snapshots s),
       mem_points := filter (\<lambda>(_, event). \<not> of_series key event) (mem_points s)\<rparr>"

definition set_cursor :: "SeriesKey \<Rightarrow> Bar \<Rightarrow> Memory \<Rightarrow> Memory" where
  "set_cursor key bar s = s\<lparr>mem_cursors := AList.update (SeriesKey_String key) bar (mem_cursors s)\<rparr>"

definition cursor_of :: "Memory \<Rightarrow> SeriesKey \<Rightarrow> Bar option" where
  "cursor_of s key = map_of (mem_cursors s) (SeriesKey_String key)"

definition Memory_RebuildSeries :: "Memory \<Rightarrow> SeriesKey \<Rightarrow> SignalEvent list \<Rightarrow> ReducerSnapshot list \<Rightarrow> Bar option \<Rightarrow>
    (store_error, SignalEvent list) result \<times> Memory" where
  "Memory_RebuildSeries s key events snapshots lastBar =
     (let backwards = (case (lastBar, cursor_of s key) of
            (Some b, Some current) \<Rightarrow> bar_OpenTime b < bar_OpenTime current | _ \<Rightarrow> False)
      in if backwards then (Inl CursorBackwards, s)
         else let (committed, s1) = foldl rebuild_event ([], clear_series key s) events;
             s2 = put_snapshots key snapshots s1
         in (Inr committed, case lastBar of None \<Rightarrow> s2 | Some b \<Rightarrow> set_cursor key b s2))"

definition commit_event :: "SignalEvent list \<times> Memory \<Rightarrow> SignalEvent \<Rightarrow> SignalEvent list \<times> Memory" where
  "commit_event = (\<lambda>(committed, s) event.
     (let fresh =
        (let cursor = mem_next s + 1; event' = event\<lparr>ev_Cursor := cursor\<rparr>;
             s' = persistEventState (s\<lparr>mem_next := cursor\<rparr>) event'
         in (committed @ [event'], s'\<lparr>mem_events := mem_events s' @ [event']\<rparr>))
      in case eventByID s (ev_EventID event) of
           Some existing \<Rightarrow> if 0 < ev_Cursor existing then (committed @ [existing], s) else fresh
         | None \<Rightarrow> fresh))"

definition Memory_CommitClosed :: "Memory \<Rightarrow> SeriesKey \<Rightarrow> Bar \<Rightarrow> SignalEvent list \<Rightarrow> ReducerSnapshot list \<Rightarrow>
    (store_error, SignalEvent list) result \<times> Memory" where
  "Memory_CommitClosed s key bar events snapshots =
     (let proceed =
        (let (committed, s1) = foldl commit_event ([], s) events
         in (Inr committed, set_cursor key bar (put_snapshots key snapshots s1)))
      in case cursor_of s key of
           Some current \<Rightarrow>
             if \<not> bar_OpenTime current < bar_OpenTime bar then
               (if bar_OpenTime bar = bar_OpenTime current \<and> barHash bar = barHash current
                then (Inr [], s) else (Inl CursorConflict, s))
             else proceed
         | None \<Rightarrow> proceed)"

definition event_matches :: "EventFilter \<Rightarrow> SignalEvent \<Rightarrow> bool" where
  "event_matches f event \<longleftrightarrow> \<not> (ev_Cursor event \<le> ef_AfterCursor f \<or>
     (ef_Dataset f \<noteq> [] \<and> ev_Dataset event \<noteq> ef_Dataset f) \<or>
     (ef_Symbol f \<noteq> [] \<and> ev_Symbol event \<noteq> ef_Symbol f) \<or>
     (ef_Timeframe f \<noteq> [] \<and> ev_Timeframe event \<noteq> ef_Timeframe f) \<or>
     (ef_Period f \<noteq> 0 \<and> eventPeriod event \<noteq> ef_Period f) \<or>
     (ef_EventType f \<noteq> [] \<and> ev_EventType event \<noteq> ef_EventType f) \<or>
     (ef_Analysis f \<noteq> [] \<and> alg_Name (ev_Algorithm event) \<noteq> ef_Analysis f))"

definition Memory_QueryEvents :: "Memory \<Rightarrow> EventFilter \<Rightarrow> SignalEvent list" where
  "Memory_QueryEvents s f = take (nat (normalize_limit (ef_Limit f))) (filter (event_matches f) (mem_events s))"

definition point_matches :: "PointFilter \<Rightarrow> SignalEvent \<Rightarrow> bool" where
  "point_matches f event \<longleftrightarrow> \<not> (
     (pf_Dataset f \<noteq> [] \<and> ev_Dataset event \<noteq> pf_Dataset f) \<or>
     (pf_Symbol f \<noteq> [] \<and> ev_Symbol event \<noteq> pf_Symbol f) \<or>
     (pf_Timeframe f \<noteq> [] \<and> ev_Timeframe event \<noteq> pf_Timeframe f) \<or>
     (pf_Period f \<noteq> 0 \<and> eventPeriod event \<noteq> pf_Period f) \<or>
     (alg_Name (pf_Algorithm f) \<noteq> [] \<and> alg_Name (ev_Algorithm event) \<noteq> alg_Name (pf_Algorithm f)) \<or>
     (alg_Version (pf_Algorithm f) \<noteq> [] \<and> alg_Version (ev_Algorithm event) \<noteq> alg_Version (pf_Algorithm f)) \<or>
     (alg_ConfigHash (pf_Algorithm f) \<noteq> [] \<and> alg_ConfigHash (ev_Algorithm event) \<noteq> alg_ConfigHash (pf_Algorithm f)))"

definition point_before :: "SignalEvent \<Rightarrow> SignalEvent \<Rightarrow> bool" where
  "point_before a b \<longleftrightarrow> (if ev_BarOpenTime a = ev_BarOpenTime b then str_lt (ev_EventID a) (ev_EventID b)
     else ev_BarOpenTime a < ev_BarOpenTime b)"

definition Memory_QueryRecentPoints :: "Memory \<Rightarrow> PointFilter \<Rightarrow> SignalEvent list" where
  "Memory_QueryRecentPoints s f =
     keep_last (nat (normalize_limit (pf_Limit f)))
       (slice_sort point_before
         (map (\<lambda>(_, event). event\<lparr>ev_Cursor := 0\<rparr>) (filter (\<lambda>(_, event). point_matches f event) (mem_points s))))"

definition Memory_PendingEvents :: "Memory \<Rightarrow> int \<Rightarrow> SignalEvent list" where
  "Memory_PendingEvents s limit =
     (let n = (if limit \<le> 0 then 100 else limit)
      in take (nat n) (filter (\<lambda>event. \<not> mem_published s (ev_Cursor event)) (mem_events s)))"

definition Memory_MarkPublished :: "Memory \<Rightarrow> int list \<Rightarrow> (store_error, unit) result \<times> Memory" where
  "Memory_MarkPublished s cursors =
     (Inr (), s\<lparr>mem_published := foldl (\<lambda>p c. p(c := True)) (mem_published s) cursors\<rparr>)"

definition memory_ops :: "Memory store_ops" where
  "memory_ops = \<lparr>LoadRecovery = Memory_LoadRecovery, RebuildSeries = Memory_RebuildSeries,
     CommitClosed = Memory_CommitClosed, MarkPublished = Memory_MarkPublished\<rparr>"

subsection \<open>What each operation changes\<close>

lemma persistEventState_frame [simp]:
  "mem_next (persistEventState s e) = mem_next s"
  "mem_events (persistEventState s e) = mem_events s"
  "mem_cursors (persistEventState s e) = mem_cursors s"
  "mem_snapshots (persistEventState s e) = mem_snapshots s"
  "mem_published (persistEventState s e) = mem_published s"
  by (simp_all add: persistEventState_def)

lemma put_snapshots_frame [simp]:
  "mem_next (put_snapshots key snaps s) = mem_next s"
  "mem_events (put_snapshots key snaps s) = mem_events s"
  "mem_cursors (put_snapshots key snaps s) = mem_cursors s"
  "mem_points (put_snapshots key snaps s) = mem_points s"
  "mem_published (put_snapshots key snaps s) = mem_published s"
  by (simp_all add: put_snapshots_def)

lemma clear_series_frame [simp]:
  "mem_next (clear_series key s) = mem_next s"
  "mem_events (clear_series key s) = mem_events s"
  "mem_cursors (clear_series key s) = mem_cursors s"
  "mem_published (clear_series key s) = mem_published s"
  by (simp_all add: clear_series_def)

lemma set_cursor_frame [simp]:
  "mem_next (set_cursor key b s) = mem_next s"
  "mem_events (set_cursor key b s) = mem_events s"
  "mem_snapshots (set_cursor key b s) = mem_snapshots s"
  "mem_points (set_cursor key b s) = mem_points s"
  "mem_published (set_cursor key b s) = mem_published s"
  by (simp_all add: set_cursor_def)

lemma cursor_of_set_cursor:
  "cursor_of (set_cursor key b s) key' = (if SeriesKey_String key' = SeriesKey_String key then Some b else cursor_of s key')"
  by (simp add: cursor_of_def set_cursor_def update_conv')

lemma cursor_of_frame: "mem_cursors s' = mem_cursors s \<Longrightarrow> cursor_of s' key = cursor_of s key"
  by (simp add: cursor_of_def)

lemma cursor_of_cong: "SeriesKey_String k = SeriesKey_String key \<Longrightarrow> cursor_of s k = cursor_of s key"
  by (simp add: cursor_of_def)

lemma mark_published_foldl: "foldl (\<lambda>p c. p(c := True)) p cs = (\<lambda>c. c \<in> set cs \<or> p c)"
  by (induction cs arbitrary: p) auto

lemma Memory_MarkPublished_alt:
  "Memory_MarkPublished s cs = (Inr (), s\<lparr>mem_published := (\<lambda>c. c \<in> set cs \<or> mem_published s c)\<rparr>)"
  by (simp add: Memory_MarkPublished_def mark_published_foldl)

subsection \<open>The event log\<close>

text \<open>
  The log is in the order of its cursors, which were all handed out, no cursor still to
  be handed out is marked as published, and points are filed under their own identity.
\<close>

definition wf_memory :: "Memory \<Rightarrow> bool" where
  "wf_memory s \<longleftrightarrow> 0 \<le> mem_next s \<and> sorted_wrt (<) (map ev_Cursor (mem_events s)) \<and>
     (\<forall>e \<in> set (mem_events s). 0 < ev_Cursor e \<and> ev_Cursor e \<le> mem_next s) \<and>
     (\<forall>c. mem_next s < c \<longrightarrow> \<not> mem_published s c) \<and>
     (\<forall>(k, e) \<in> set (mem_points s). ev_EventID e = k)"

definition append_event :: "SignalEvent \<Rightarrow> Memory \<Rightarrow> bool \<Rightarrow> Memory \<Rightarrow> bool" where
  "append_event e s reset s' \<longleftrightarrow> mem_next s' = mem_next s + 1 \<and> ev_Cursor e = mem_next s + 1 \<and>
     mem_events s' = mem_events s @ [e] \<and> mem_cursors s' = mem_cursors s \<and> mem_snapshots s' = mem_snapshots s \<and>
     (\<forall>p \<in> set (mem_points s'). p \<in> set (mem_points s) \<or> fst p = ev_EventID (snd p)) \<and>
     mem_published s' = (if reset then (mem_published s)(mem_next s + 1 := False) else mem_published s)"

lemma persistEventState_points:
  "(k, x) \<in> set (mem_points (persistEventState s e)) \<Longrightarrow> (k, x) \<in> set (mem_points s) \<or> k = ev_EventID x"
  using set_AList_update [of "ev_EventID e" e "filter (\<lambda>(_, existing). \<not> same_point existing e) (mem_points s)"]
  by (auto simp: persistEventState_def split: if_splits)

lemma wf_append_event: "append_event e s reset s' \<Longrightarrow> wf_memory s \<Longrightarrow> wf_memory s'"
  by (fastforce simp: wf_memory_def append_event_def sorted_wrt_append)

lemma rebuild_event_cases:
  assumes "rebuild_event (committed, s) e = (committed', s')"
  shows "(\<not> ev_Reset e \<and> committed' = committed \<and> s' = persistEventState s e) \<or>
    (ev_Reset e \<and> (\<exists>e'. e' = e\<lparr>ev_Cursor := mem_next s + 1\<rparr> \<and> committed' = committed @ [e'] \<and> append_event e' s True s'))"
  using assms by (auto simp: rebuild_event_def append_event_def Let_def split: if_splits dest!: persistEventState_points)

lemma commit_event_cases:
  assumes "commit_event (committed, s) e = (committed', s')"
  shows "(\<exists>old. eventByID s (ev_EventID e) = Some old \<and> 0 < ev_Cursor old \<and> committed' = committed @ [old] \<and> s' = s) \<or>
    (\<exists>e'. e' = e\<lparr>ev_Cursor := mem_next s + 1\<rparr> \<and> committed' = committed @ [e'] \<and> append_event e' s False s')"
  using assms
  by (auto simp: commit_event_def append_event_def Let_def split: if_splits option.splits dest!: persistEventState_points)

lemma wf_persistEventState: "wf_memory s \<Longrightarrow> wf_memory (persistEventState s e)"
  using persistEventState_points [of _ _ s e] by (fastforce simp: wf_memory_def)

lemma wf_rebuild_events: "foldl rebuild_event (committed, s) evs = (committed', s') \<Longrightarrow> wf_memory s \<Longrightarrow> wf_memory s'"
proof (induction evs arbitrary: committed s)
  case (Cons e evs)
  obtain c1 s1 where 1: "rebuild_event (committed, s) e = (c1, s1)" by fastforce
  have "wf_memory s1"
    using rebuild_event_cases [OF 1] Cons.prems(2) wf_append_event by (auto simp: wf_persistEventState)
  with Cons.IH Cons.prems(1) 1 show ?case by simp
qed simp

lemma wf_commit_events: "foldl commit_event (committed, s) evs = (committed', s') \<Longrightarrow> wf_memory s \<Longrightarrow> wf_memory s'"
proof (induction evs arbitrary: committed s)
  case (Cons e evs)
  obtain c1 s1 where 1: "commit_event (committed, s) e = (c1, s1)" by fastforce
  have "wf_memory s1" using commit_event_cases [OF 1] Cons.prems(2) wf_append_event by auto
  with Cons.IH Cons.prems(1) 1 show ?case by simp
qed simp

text \<open>The parts of the store that the loops over the events leave alone.\<close>

lemma rebuild_events_frame:
  "foldl rebuild_event (committed, s) evs = (committed', s') \<Longrightarrow>
     mem_cursors s' = mem_cursors s \<and> mem_snapshots s' = mem_snapshots s"
proof (induction evs arbitrary: committed s)
  case (Cons e evs)
  obtain c1 s1 where 1: "rebuild_event (committed, s) e = (c1, s1)" by fastforce
  have "mem_cursors s1 = mem_cursors s \<and> mem_snapshots s1 = mem_snapshots s"
    using rebuild_event_cases [OF 1] by (auto simp: append_event_def)
  with Cons.IH Cons.prems 1 show ?case by simp
qed simp

lemma commit_events_frame:
  "foldl commit_event (committed, s) evs = (committed', s') \<Longrightarrow>
     mem_cursors s' = mem_cursors s \<and> mem_snapshots s' = mem_snapshots s \<and> mem_published s' = mem_published s \<and>
     (\<exists>new. mem_events s' = mem_events s @ new) \<and> mem_next s \<le> mem_next s'"
proof (induction evs arbitrary: committed s)
  case (Cons e evs)
  obtain c1 s1 where 1: "commit_event (committed, s) e = (c1, s1)" by fastforce
  have "mem_cursors s1 = mem_cursors s \<and> mem_snapshots s1 = mem_snapshots s \<and> mem_published s1 = mem_published s \<and>
     (\<exists>new. mem_events s1 = mem_events s @ new) \<and> mem_next s \<le> mem_next s1"
    using commit_event_cases [OF 1] by (auto simp: append_event_def)
  moreover have "mem_cursors s' = mem_cursors s1 \<and> mem_snapshots s' = mem_snapshots s1 \<and> mem_published s' = mem_published s1 \<and>
     (\<exists>new. mem_events s' = mem_events s1 @ new) \<and> mem_next s1 \<le> mem_next s'"
    using Cons.IH [of c1 s1] Cons.prems 1 by simp
  ultimately show ?case by fastforce
qed simp

lemma eventByID_id:
  assumes "wf_memory s" and "eventByID s i = Some e"
  shows "ev_EventID e = i"
proof (cases "map_of (mem_points s) i")
  case None
  with assms(2) show ?thesis by (auto simp: eventByID_def find_Some_iff)
next
  case (Some e')
  then have "(i, e') \<in> set (mem_points s)" by (rule map_of_SomeD)
  then have "ev_EventID e' = i" using assms(1) unfolding wf_memory_def by blast
  with Some assms(2) show ?thesis by (simp add: eventByID_def)
qed

text \<open>What the commit loop returns and appends.\<close>

lemma commit_events_spec:
  assumes "foldl commit_event (committed, s) evs = (committed', s')" and "wf_memory s"
  shows "\<exists>cs new. committed' = committed @ cs \<and> mem_events s' = mem_events s @ new \<and> set new \<subseteq> set cs \<and>
    map ev_EventID cs = map ev_EventID evs \<and> (\<forall>e \<in> set cs. 0 < ev_Cursor e)"
  using assms
proof (induction evs arbitrary: committed s)
  case (Cons e evs)
  obtain c1 s1 where 1: "commit_event (committed, s) e = (c1, s1)" by fastforce
  have wf1: "wf_memory s1" using commit_event_cases [OF 1] Cons.prems(2) wf_append_event by auto
  obtain c n where 2: "c1 = committed @ [c]" "mem_events s1 = mem_events s @ n" "set n \<subseteq> {c}"
      "ev_EventID c = ev_EventID e" "0 < ev_Cursor c"
    using commit_event_cases [OF 1]
  proof (elim disjE exE conjE)
    fix old
    assume "eventByID s (ev_EventID e) = Some old" "0 < ev_Cursor old" "c1 = committed @ [old]" "s1 = s"
    then show thesis using that [of old "[]"] eventByID_id [OF Cons.prems(2)] by simp
  next
    fix e'
    assume "e' = e\<lparr>ev_Cursor := mem_next s + 1\<rparr>" "c1 = committed @ [e']" "append_event e' s False s1"
    then show thesis using that [of e' "[e']"] Cons.prems(2) by (simp add: append_event_def wf_memory_def)
  qed
  obtain cs new where "committed' = c1 @ cs" "mem_events s' = mem_events s1 @ new" "set new \<subseteq> set cs"
      "map ev_EventID cs = map ev_EventID evs" "\<forall>e \<in> set cs. 0 < ev_Cursor e"
    using Cons.IH [OF _ wf1, of c1] Cons.prems(1) 1 by auto
  with 2 show ?case by (intro exI [of _ "c # cs"] exI [of _ "n @ new"]) auto
qed auto

subsection \<open>Commits and rebuilds\<close>

lemma Memory_CommitClosed_cases:
  assumes "Memory_CommitClosed s key bar evs snaps = (r, s')"
  obtains (conflict) old where "cursor_of s key = Some old" "bar_OpenTime bar \<le> bar_OpenTime old" "r = Inl CursorConflict" "s' = s"
    | (duplicate) old where "cursor_of s key = Some old" "bar_OpenTime bar = bar_OpenTime old" "barHash bar = barHash old"
        "r = Inr []" "s' = s"
    | (commit) committed s1 where "\<And>old. cursor_of s key = Some old \<Longrightarrow> bar_OpenTime old < bar_OpenTime bar"
        "foldl commit_event ([], s) evs = (committed, s1)" "r = Inr committed"
        "s' = set_cursor key bar (put_snapshots key snaps s1)"
proof -
  obtain committed s1 where f: "foldl commit_event ([], s) evs = (committed, s1)" by fastforce
  show thesis
  proof (cases "cursor_of s key")
    case None
    with assms f show thesis by (intro commit) (auto simp: Memory_CommitClosed_def)
  next
    case (Some old)
    with assms f show thesis
      using conflict [of old] duplicate [of old] commit [of committed s1]
      by (simp add: Memory_CommitClosed_def split: if_splits)
  qed
qed

lemma Memory_RebuildSeries_cases:
  assumes "Memory_RebuildSeries s key evs snaps lastBar = (r, s')"
  obtains (backwards) b old where "lastBar = Some b" "cursor_of s key = Some old" "bar_OpenTime b < bar_OpenTime old"
        "r = Inl CursorBackwards" "s' = s"
    | (rebuilt) committed s1 where
        "\<And>b old. lastBar = Some b \<Longrightarrow> cursor_of s key = Some old \<Longrightarrow> bar_OpenTime old \<le> bar_OpenTime b"
        "foldl rebuild_event ([], clear_series key s) evs = (committed, s1)" "r = Inr committed"
        "s' = (case lastBar of None \<Rightarrow> put_snapshots key snaps s1 | Some b \<Rightarrow> set_cursor key b (put_snapshots key snaps s1))"
proof -
  obtain committed s1 where f: "foldl rebuild_event ([], clear_series key s) evs = (committed, s1)" by fastforce
  show thesis
  proof (cases "\<exists>b old. lastBar = Some b \<and> cursor_of s key = Some old \<and> bar_OpenTime b < bar_OpenTime old")
    case True
    then obtain b old where "lastBar = Some b" "cursor_of s key = Some old" "bar_OpenTime b < bar_OpenTime old" by blast
    with assms show thesis by (intro backwards) (auto simp: Memory_RebuildSeries_def)
  next
    case False
    with assms f show thesis
      by (intro rebuilt [of committed s1]) (auto simp: Memory_RebuildSeries_def not_less split: option.splits)
  qed
qed

text \<open>The histories of a store: any sequence of commits, rebuilds and publication marks, where
  only cursors that were handed out are marked.\<close>

inductive mem_step :: "Memory \<Rightarrow> Memory \<Rightarrow> bool" where
  commit: "Memory_CommitClosed s key bar evs snaps = (r, s') \<Longrightarrow> mem_step s s'"
| rebuild: "Memory_RebuildSeries s key evs snaps lastBar = (r, s') \<Longrightarrow> mem_step s s'"
| mark: "\<forall>c \<in> set cs. c \<le> mem_next s \<Longrightarrow> Memory_MarkPublished s cs = (r, s') \<Longrightarrow> mem_step s s'"

lemma wf_memory_cong:
  assumes "mem_next s' = mem_next s" "mem_events s' = mem_events s" "mem_published s' = mem_published s"
    "set (mem_points s') \<subseteq> set (mem_points s)" "wf_memory s"
  shows "wf_memory s'"
  using assms unfolding wf_memory_def by auto

lemma mem_step_wf: "mem_step s s' \<Longrightarrow> wf_memory s \<Longrightarrow> wf_memory s'"
proof (induction rule: mem_step.induct)
  case (commit s key bar evs snaps r s')
  from commit(1) show ?case
  proof (cases rule: Memory_CommitClosed_cases)
    case (commit committed s1)
    with wf_commit_events \<open>wf_memory s\<close> have "wf_memory s1" by blast
    then show ?thesis unfolding commit(4) by (rule wf_memory_cong [rotated -1]) simp_all
  qed (use commit in simp_all)
next
  case (rebuild s key evs snaps lastBar r s')
  from rebuild(1) show ?case
  proof (cases rule: Memory_RebuildSeries_cases)
    case (rebuilt committed s1)
    have "wf_memory (clear_series key s)"
      using \<open>wf_memory s\<close> by (rule wf_memory_cong [rotated -1]) (auto simp: clear_series_def)
    with rebuilt(2) wf_rebuild_events have "wf_memory s1" by blast
    then show ?thesis unfolding rebuilt(4) by (rule wf_memory_cong [rotated -1]) (simp_all split: option.split)
  qed (use rebuild in simp_all)
next
  case (mark cs s r s')
  then show ?case by (fastforce simp: Memory_MarkPublished_alt wf_memory_def)
qed

lemma wf_NewMemory: "wf_memory NewMemory"
  by (simp add: NewMemory_def wf_memory_def)

interpretation memory: transition_system "\<lambda>s. s = NewMemory" mem_step wf_memory
  by unfold_locales (use wf_NewMemory mem_step_wf in blast)+

subsection \<open>What a commit means\<close>

text \<open>The store seen as the tables it stands for: maps instead of association lists.\<close>

record store_view =
  vw_next :: int
  vw_log :: "SignalEvent list"
  vw_points :: "string \<rightharpoonup> SignalEvent"
  vw_markets :: "string \<rightharpoonup> SignalEvent"
  vw_cursors :: "string \<rightharpoonup> Bar"
  vw_snapshots :: "string \<rightharpoonup> ReducerSnapshot"
  vw_published :: "int \<Rightarrow> bool"

definition view :: "Memory \<Rightarrow> store_view" where
  "view s = \<lparr>vw_next = mem_next s, vw_log = mem_events s, vw_points = map_of (mem_points s), vw_markets = map_of (mem_markets s),
     vw_cursors = map_of (mem_cursors s), vw_snapshots = map_of (mem_snapshots s), vw_published = mem_published s\<rparr>"

definition stored :: "store_view \<Rightarrow> string \<Rightarrow> SignalEvent option" where
  "stored v i = (case vw_points v i of Some e \<Rightarrow> Some e | None \<Rightarrow> find (\<lambda>e. ev_EventID e = i) (vw_log v))"

definition known :: "store_view \<Rightarrow> string \<Rightarrow> SignalEvent option" where
  "known v i = (case stored v i of None \<Rightarrow> None | Some e \<Rightarrow> if 0 < ev_Cursor e then Some e else None)"

text \<open>A point takes the place of the point of the same bar, revision and period.\<close>

definition file_event :: "SignalEvent \<Rightarrow> store_view \<Rightarrow> store_view" where
  "file_event e v =
     (if ev_EventType e = ''market.state'' then v\<lparr>vw_markets := (vw_markets v)(marketKey e \<mapsto> e)\<rparr>
      else v\<lparr>vw_points := (\<lambda>i. case vw_points v i of
          Some p \<Rightarrow> if same_point p e then None else Some p | None \<Rightarrow> None)(ev_EventID e \<mapsto> e)\<rparr>)"

fun log_events :: "SignalEvent list \<Rightarrow> store_view \<Rightarrow> SignalEvent list \<times> store_view" where
  "log_events [] v = ([], v)"
| "log_events (e # es) v =
     (case known v (ev_EventID e) of
        Some old \<Rightarrow> (case log_events es v of (cs, v') \<Rightarrow> (old # cs, v'))
      | None \<Rightarrow>
          (let e' = e\<lparr>ev_Cursor := vw_next v + 1\<rparr>;
               v1 = (file_event e' v)\<lparr>vw_next := vw_next v + 1, vw_log := vw_log v @ [e']\<rparr>
           in case log_events es v1 of (cs, v') \<Rightarrow> (e' # cs, v')))"

definition commit_view :: "SeriesKey \<Rightarrow> Bar \<Rightarrow> SignalEvent list \<Rightarrow> ReducerSnapshot list \<Rightarrow> store_view \<Rightarrow> SignalEvent list \<times> store_view" where
  "commit_view key bar evs snaps v =
     (case log_events evs v of (cs, v') \<Rightarrow>
        (cs, v'\<lparr>vw_cursors := (vw_cursors v')(SeriesKey_String key \<mapsto> bar),
                vw_snapshots := vw_snapshots v' ++ map_of (rev (map (\<lambda>r. (snapshotKey key r, r)) snaps))\<rparr>))"

lemma view_set_cursor: "view (set_cursor key bar s) = (view s)\<lparr>vw_cursors := (vw_cursors (view s))(SeriesKey_String key \<mapsto> bar)\<rparr>"
  by (simp add: view_def set_cursor_def update_conv')

lemma view_put_snapshots:
  "view (put_snapshots key snaps s) =
     (view s)\<lparr>vw_snapshots := vw_snapshots (view s) ++ map_of (rev (map (\<lambda>r. (snapshotKey key r, r)) snaps))\<rparr>"
proof -
  have "map_of (foldl (\<lambda>m r. AList.update (snapshotKey key r) r m) m snaps) =
      map_of m ++ map_of (rev (map (\<lambda>r. (snapshotKey key r, r)) snaps))" for m
    by (induction snaps arbitrary: m) (simp_all add: update_conv' map_add_upd_left map_add_upd)
  then show ?thesis by (simp add: view_def put_snapshots_def)
qed

lemma map_of_filter_distinct:
  "distinct (map fst m) \<Longrightarrow> map_of (filter (\<lambda>(_, x). P x) m) i = (case map_of m i of Some x \<Rightarrow> if P x then Some x else None | None \<Rightarrow> None)"
  by (induction m) (auto split: option.splits simp: map_of_eq_None_iff)

lemma view_persistEventState:
  assumes "distinct (map fst (mem_points s))"
  shows "view (persistEventState s e) = file_event e (view s)"
  using assms map_of_filter_distinct [OF assms, of "\<lambda>p. \<not> same_point p e"]
  by (auto simp: persistEventState_def file_event_def view_def update_conv' fun_eq_iff split: option.splits)

lemma distinct_persistEventState:
  "distinct (map fst (mem_points s)) \<Longrightarrow> distinct (map fst (mem_points (persistEventState s e)))"
  by (auto simp: persistEventState_def distinct_update distinct_map_filter)

lemma commit_event_view:
  assumes "commit_event (committed, s) e = (committed', s')" and "distinct (map fst (mem_points s))"
  shows "distinct (map fst (mem_points s')) \<and> (\<exists>c. committed' = committed @ [c] \<and> log_events [e] (view s) = ([c], view s'))"
proof -
  have k: "stored (view s) i = eventByID s i" for i
    by (cases "map_of (mem_points s) i") (simp_all add: stored_def eventByID_def view_def)
  have n: "view (s\<lparr>mem_next := c\<rparr>) = (view s)\<lparr>vw_next := c\<rparr>" "view (s\<lparr>mem_events := l\<rparr>) = (view s)\<lparr>vw_log := l\<rparr>" for s c l
    by (simp_all add: view_def)
  have f: "file_event e (v\<lparr>vw_next := c\<rparr>) = (file_event e v)\<lparr>vw_next := c\<rparr>" for e v c by (simp add: file_event_def)
  have l: "vw_log (file_event e v) = vw_log v" for e v by (simp add: file_event_def)
  show ?thesis
  proof (cases "known (view s) (ev_EventID e)")
    case (Some old)
    then have "eventByID s (ev_EventID e) = Some old" "0 < ev_Cursor old" by (auto simp: known_def k split: option.splits if_splits)
    with assms Some show ?thesis by (simp add: commit_event_def)
  next
    case None
    let ?e = "e\<lparr>ev_Cursor := mem_next s + 1\<rparr>" and ?p = "\<lambda>e. persistEventState (s\<lparr>mem_next := mem_next s + 1\<rparr>) e"
    have s': "committed' = committed @ [?e]" "s' = (?p ?e)\<lparr>mem_events := mem_events s @ [?e]\<rparr>"
      using assms(1) None by (auto simp: known_def k commit_event_def Let_def split: option.splits if_splits)
    have "view s' = (file_event ?e (view s))\<lparr>vw_next := mem_next s + 1, vw_log := mem_events s @ [?e]\<rparr>"
      using assms(2) by (simp add: s'(2) n view_persistEventState f)
    moreover have "distinct (map fst (mem_points s'))" using assms(2) distinct_persistEventState by (simp add: s'(2))
    ultimately show ?thesis using None s'(1) by (simp add: view_def Let_def)
  qed
qed

lemma log_events_append:
  "log_events (xs @ ys) v = (case log_events xs v of (cs, v1) \<Rightarrow> case log_events ys v1 of (ds, v2) \<Rightarrow> (cs @ ds, v2))"
  by (induction xs arbitrary: v) (auto simp: Let_def split: prod.splits option.splits)

lemma commit_events_view:
  assumes "foldl commit_event (committed, s) evs = (committed', s')" and "distinct (map fst (mem_points s))"
  shows "distinct (map fst (mem_points s')) \<and> (\<exists>cs. committed' = committed @ cs \<and> log_events evs (view s) = (cs, view s'))"
  using assms
proof (induction evs arbitrary: committed s)
  case (Cons e evs)
  obtain c1 s1 where 1: "commit_event (committed, s) e = (c1, s1)" by fastforce
  obtain c where 2: "c1 = committed @ [c]" "log_events [e] (view s) = ([c], view s1)" "distinct (map fst (mem_points s1))"
    using commit_event_view [OF 1 Cons.prems(2)] by blast
  obtain cs where 3: "distinct (map fst (mem_points s'))" "committed' = c1 @ cs" "log_events evs (view s1) = (cs, view s')"
    using Cons.IH [of c1 s1] Cons.prems(1) 1 2(3) by auto
  have "log_events ([e] @ evs) (view s) = (c # cs, view s')" unfolding log_events_append using 2(2) 3(3) by simp
  with 2(1) 3 show ?case by simp
qed simp

lemma rebuild_events_distinct:
  "foldl rebuild_event (committed, s) evs = (committed', s') \<Longrightarrow> distinct (map fst (mem_points s)) \<Longrightarrow> distinct (map fst (mem_points s'))"
proof (induction evs arbitrary: committed s)
  case (Cons e evs)
  obtain c1 s1 where 1: "rebuild_event (committed, s) e = (c1, s1)" by fastforce
  have "distinct (map fst (mem_points s1))"
    using 1 distinct_persistEventState [OF Cons.prems(2), of e] by (auto simp: rebuild_event_def Let_def split: if_splits)
  with Cons.IH Cons.prems(1) 1 show ?case by simp
qed simp

lemma mem_step_distinct: "mem_step s s' \<Longrightarrow> distinct (map fst (mem_points s)) \<Longrightarrow> distinct (map fst (mem_points s'))"
proof (induction rule: mem_step.induct)
  case (commit s key bar evs snaps r s')
  from commit(1) show ?case
  proof (cases rule: Memory_CommitClosed_cases)
    case (commit committed s1)
    with commit_events_view [OF commit(2)] \<open>distinct _\<close> show ?thesis by simp
  qed (use commit in simp_all)
next
  case (rebuild s key evs snaps lastBar r s')
  from rebuild(1) show ?case
  proof (cases rule: Memory_RebuildSeries_cases)
    case (rebuilt committed s1)
    have "distinct (map fst (mem_points (clear_series key s)))" using rebuild(2) by (simp add: clear_series_def distinct_map_filter)
    from rebuild_events_distinct [OF rebuilt(2) this] show ?thesis by (simp add: rebuilt(4) split: option.split)
  qed (use rebuild in simp_all)
next
  case (mark cs s r s')
  then show ?case by (auto simp: Memory_MarkPublished_alt)
qed

lemma reachable_points_distinct: "mem_step\<^sup>*\<^sup>* NewMemory s \<Longrightarrow> distinct (map fst (mem_points s))"
  by (induction rule: rtranclp_induct) (simp_all add: mem_step_distinct, simp add: NewMemory_def)

definition sample_memory :: Memory where
  "sample_memory = snd (Memory_CommitClosed NewMemory sample_key (sample_bar 1 3) [sample_event 0] [])"

lemma sample_memory_reachable: "mem_step\<^sup>*\<^sup>* NewMemory sample_memory"
  unfolding sample_memory_def by (rule r_into_rtranclp, rule mem_step.commit [OF surjective_pairing])

lemma sample_memory_wf: "wf_memory sample_memory"
  by (rule memory.reachable_inv [OF refl sample_memory_reachable])

lemma sample_memory_events: "mem_events sample_memory = [sample_event 1]"
  by (simp add: sample_memory_def Memory_CommitClosed_def cursor_of_def NewMemory_def commit_event_def eventByID_def
      sample_event_def Let_def)

subsection \<open>Properties\<close>

text \<open>
  After any history of commits, rebuilds and marks, the event log is strictly ordered by
  cursor, every cursor in it was handed out by the counter, and nothing that is still to be
  handed out counts as published.
\<close>

theorem memory_log_ordered:
  assumes "mem_step\<^sup>*\<^sup>* NewMemory s"
  shows "sorted_wrt (<) (map ev_Cursor (mem_events s)) \<and>
    (\<forall>e \<in> set (mem_events s). 0 < ev_Cursor e \<and> ev_Cursor e \<le> mem_next s) \<and>
    (\<forall>c. mem_next s < c \<longrightarrow> \<not> mem_published s c)"
  using memory.reachable_inv [OF refl assms] by (simp add: wf_memory_def)

theorem memory_log_ordered_witness:
  "map ev_Cursor (mem_events sample_memory) = [1] \<and> sorted_wrt (<) (map ev_Cursor (mem_events sample_memory))"
  using memory_log_ordered [OF sample_memory_reachable] sample_memory_events by (simp add: sample_event_def)

text \<open>
  C22. Whatever happened to the store before, a commit is all or nothing. It is refused, with the store unchanged, exactly when the
  bar is not after the cursor of its series and is not the bar at the cursor; repeating that bar changes nothing and returns no
  event. Any other commit changes the store as specified: each event whose identity is not stored with a cursor is appended to the
  log with the next cursor and filed as a point (in place of the point of the same bar, revision and period) or as a market state,
  each event already stored is returned as it was stored, the snapshots are filed, the cursor of this series becomes the bar, and
  nothing else changes; one event with a positive cursor is returned for each event given, in order.
\<close>

theorem memory_commit_closed:
  assumes "mem_step\<^sup>*\<^sup>* NewMemory s" and "Memory_CommitClosed s key bar evs snaps = (r, s')"
  shows "case r of
      Inl e \<Rightarrow> s' = s \<and> e = CursorConflict \<and> (\<exists>old. cursor_of s key = Some old \<and> bar_OpenTime bar \<le> bar_OpenTime old \<and>
        \<not> (bar_OpenTime bar = bar_OpenTime old \<and> barHash bar = barHash old))
    | Inr committed \<Rightarrow>
        (s' = s \<and> committed = [] \<and> (\<exists>old. cursor_of s key = Some old \<and> bar_OpenTime bar = bar_OpenTime old \<and>
           barHash bar = barHash old)) \<or>
        ((\<forall>old. cursor_of s key = Some old \<longrightarrow> bar_OpenTime old < bar_OpenTime bar) \<and>
         (committed, view s') = commit_view key bar evs snaps (view s) \<and>
         map ev_EventID committed = map ev_EventID evs \<and> (\<forall>e \<in> set committed. 0 < ev_Cursor e))"
  using assms(2)
proof (cases rule: Memory_CommitClosed_cases)
  case (conflict old)
  with assms(2) show ?thesis by (auto simp: Memory_CommitClosed_def split: if_splits)
next
  case (commit committed s1)
  have wf: "wf_memory s" by (rule memory.reachable_inv [OF refl assms(1)])
  obtain cs new where "committed = cs" "map ev_EventID cs = map ev_EventID evs" "\<forall>e \<in> set cs. 0 < ev_Cursor e"
    using commit_events_spec [OF commit(2) wf] by auto
  moreover have "log_events evs (view s) = (committed, view s1)"
    using commit_events_view [OF commit(2) reachable_points_distinct [OF assms(1)]] by auto
  ultimately show ?thesis using commit(1,3,4) by (auto simp: commit_view_def view_set_cursor view_put_snapshots)
qed simp

theorem memory_commit_closed_witness:
  "\<exists>committed s'. Memory_CommitClosed NewMemory sample_key (sample_bar 1 3) [sample_event 0] [] = (Inr committed, s') \<and>
     (committed, view s') = commit_view sample_key (sample_bar 1 3) [sample_event 0] [] (view NewMemory) \<and>
     committed = [sample_event 1] \<and> vw_log (view s') = [sample_event 1] \<and> vw_points (view s') [] = Some (sample_event 1)"
proof -
  obtain committed s' where 1: "Memory_CommitClosed NewMemory sample_key (sample_bar 1 3) [sample_event 0] [] = (Inr committed, s')"
    by (cases "commit_event ([], NewMemory) (sample_event 0)")
      (simp add: Memory_CommitClosed_def cursor_of_def, simp add: NewMemory_def)
  have "(committed, view s') = commit_view sample_key (sample_bar 1 3) [sample_event 0] [] (view NewMemory)"
    using memory_commit_closed [OF rtranclp.rtrancl_refl 1] by (auto simp: cursor_of_def NewMemory_def)
  moreover have "fst (commit_view sample_key (sample_bar 1 3) [sample_event 0] [] (view NewMemory)) = [sample_event 1]"
      "vw_log (snd (commit_view sample_key (sample_bar 1 3) [sample_event 0] [] (view NewMemory))) = [sample_event 1]"
      "vw_points (snd (commit_view sample_key (sample_bar 1 3) [sample_event 0] [] (view NewMemory))) [] = Some (sample_event 1)"
    by (simp_all add: commit_view_def view_def NewMemory_def known_def stored_def file_event_def sample_event_def Let_def)
  ultimately show ?thesis using 1 by (metis fst_conv snd_conv)
qed

text \<open>
  Delivery of a closed bar is idempotent: committing the same bar again after a success
  succeeds, returns no event and leaves the store as it is, whatever events and snapshots are
  offered the second time.
\<close>

theorem memory_commit_idempotent:
  assumes "Memory_CommitClosed s key bar evs snaps = (Inr committed, s')"
  shows "Memory_CommitClosed s' key bar evs' snaps' = (Inr [], s')"
  using assms
proof (cases rule: Memory_CommitClosed_cases)
  case (commit committed' s1)
  then show ?thesis by (simp add: Memory_CommitClosed_def cursor_of_set_cursor)
qed (auto simp: Memory_CommitClosed_def)

theorem memory_commit_idempotent_witness:
  "\<exists>committed s'. Memory_CommitClosed NewMemory sample_key (sample_bar 1 3) [] [] = (Inr committed, s') \<and>
     Memory_CommitClosed s' sample_key (sample_bar 1 3) [sample_event 0] [] = (Inr [], s')"
proof -
  obtain committed s' where 1: "Memory_CommitClosed NewMemory sample_key (sample_bar 1 3) [] [] = (Inr committed, s')"
    by (simp add: Memory_CommitClosed_def cursor_of_def NewMemory_def)
  show ?thesis using 1 memory_commit_idempotent [OF 1] by blast
qed

text \<open>How the rebuild loop uses the log: one new entry, pending, for each reset event.\<close>

lemma rebuild_events_spec:
  assumes "foldl rebuild_event (committed, s) evs = (committed', s')"
  shows "\<exists>cs. committed' = committed @ cs \<and> mem_events s' = mem_events s @ cs \<and> mem_next s \<le> mem_next s' \<and>
    map (\<lambda>e. e\<lparr>ev_Cursor := 0\<rparr>) cs = map (\<lambda>e. e\<lparr>ev_Cursor := 0\<rparr>) (filter ev_Reset evs) \<and>
    (\<forall>e \<in> set cs. mem_next s < ev_Cursor e \<and> \<not> mem_published s' (ev_Cursor e)) \<and>
    (\<forall>c \<le> mem_next s. mem_published s' c = mem_published s c)"
  using assms
proof (induction evs arbitrary: committed s)
  case (Cons e evs)
  obtain c1 s1 where 1: "rebuild_event (committed, s) e = (c1, s1)" by fastforce
  obtain cs where 2: "committed' = c1 @ cs" "mem_events s' = mem_events s1 @ cs" "mem_next s1 \<le> mem_next s'"
      "map (\<lambda>e. e\<lparr>ev_Cursor := 0\<rparr>) cs = map (\<lambda>e. e\<lparr>ev_Cursor := 0\<rparr>) (filter ev_Reset evs)"
      "\<forall>e \<in> set cs. mem_next s1 < ev_Cursor e \<and> \<not> mem_published s' (ev_Cursor e)"
      "\<forall>c \<le> mem_next s1. mem_published s' c = mem_published s1 c"
    using Cons.IH [of c1 s1] Cons.prems 1 by auto
  from rebuild_event_cases [OF 1] show ?case
  proof (elim disjE exE conjE)
    assume "\<not> ev_Reset e" "c1 = committed" "s1 = persistEventState s e"
    with 2 show ?thesis by (intro exI [of _ cs]) simp
  next
    fix e'
    assume "ev_Reset e" "e' = e\<lparr>ev_Cursor := mem_next s + 1\<rparr>" "c1 = committed @ [e']" "append_event e' s True s1"
    with 2 show ?thesis by (intro exI [of _ "e' # cs"]) (auto simp: append_event_def)
  qed
qed simp

text \<open>
  A rebuild is refused, with the store unchanged, exactly when it would move the cursor of the
  series back. Otherwise the cursor becomes the last bar of the seed, no other cursor moves,
  the log grows by exactly the reset events, and each of these is pending for delivery while
  what was published before stays so.
\<close>

theorem memory_rebuild_series:
  assumes "wf_memory s" and "Memory_RebuildSeries s key evs snaps lastBar = (r, s')"
  shows "case r of
      Inl _ \<Rightarrow> s' = s \<and> (\<exists>b old. lastBar = Some b \<and> cursor_of s key = Some old \<and> bar_OpenTime b < bar_OpenTime old)
    | Inr committed \<Rightarrow>
        (\<forall>b old. lastBar = Some b \<and> cursor_of s key = Some old \<longrightarrow> bar_OpenTime old \<le> bar_OpenTime b) \<and>
        (\<forall>k. cursor_of s' k = (case lastBar of
            Some b \<Rightarrow> if SeriesKey_String k = SeriesKey_String key then Some b else cursor_of s k
          | None \<Rightarrow> cursor_of s k)) \<and>
        mem_events s' = mem_events s @ committed \<and>
        map (\<lambda>e. e\<lparr>ev_Cursor := 0\<rparr>) committed = map (\<lambda>e. e\<lparr>ev_Cursor := 0\<rparr>) (filter ev_Reset evs) \<and>
        (\<forall>e \<in> set committed. \<not> mem_published s' (ev_Cursor e)) \<and>
        (\<forall>e \<in> set (mem_events s). mem_published s' (ev_Cursor e) = mem_published s (ev_Cursor e))"
  using assms(2)
proof (cases rule: Memory_RebuildSeries_cases)
  case (rebuilt committed s1)
  have c: "cursor_of (put_snapshots key snaps s1) k = cursor_of s k" for k
    using rebuild_events_frame [OF rebuilt(2)] by (simp add: cursor_of_def)
  have old: "ev_Cursor e \<le> mem_next s" if "e \<in> set (mem_events s)" for e
    using assms(1) that by (simp add: wf_memory_def)
  from rebuild_events_spec [OF rebuilt(2)] old rebuilt(1,3,4) show ?thesis
    by (auto simp: cursor_of_set_cursor c split: option.split)
qed simp

theorem memory_rebuild_series_witness:
  "\<exists>committed s'. Memory_RebuildSeries NewMemory sample_key [(sample_event 0)\<lparr>ev_Reset := True\<rparr>] [] (Some (sample_bar 1 3))
     = (Inr committed, s') \<and> mem_events s' = committed"
  using memory_rebuild_series [OF wf_NewMemory surjective_pairing, of sample_key "[(sample_event 0)\<lparr>ev_Reset := True\<rparr>]" "[]"
      "Some (sample_bar 1 3)"]
  by (auto simp: Memory_RebuildSeries_def cursor_of_def NewMemory_def split: prod.splits)

subsection \<open>The contract of a series store\<close>

text \<open>
  What a lane relies on: an operation that fails changes nothing, a commit that succeeds leaves
  the cursor at the bar (by its time and hash), a rebuild leaves it at the last bar of the seed,
  no operation moves a cursor back or loses it, and the recovery reports the cursor.
\<close>

locale series_store =
  fixes ops :: "'s store_ops"
    and cursor :: "'s \<Rightarrow> SeriesKey \<Rightarrow> Bar option"
  assumes commit_error: "CommitClosed ops s key bar evs snaps = (Inl e, s') \<Longrightarrow> s' = s"
    and commit_cursor: "CommitClosed ops s key bar evs snaps = (Inr committed, s') \<Longrightarrow>
      \<exists>b. cursor s' key = Some b \<and> bar_OpenTime b = bar_OpenTime bar \<and> barHash b = barHash bar"
    and commit_forward: "CommitClosed ops s key bar evs snaps = (r, s') \<Longrightarrow> cursor s k = Some old \<Longrightarrow>
      \<exists>b. cursor s' k = Some b \<and> bar_OpenTime old \<le> bar_OpenTime b"
    and rebuild_error: "RebuildSeries ops s key evs snaps lastBar = (Inl e, s') \<Longrightarrow> s' = s"
    and rebuild_cursor: "RebuildSeries ops s key evs snaps (Some bar) = (Inr committed, s') \<Longrightarrow>
      cursor s' key = Some bar"
    and rebuild_forward: "RebuildSeries ops s key evs snaps lastBar = (r, s') \<Longrightarrow> cursor s k = Some old \<Longrightarrow>
      \<exists>b. cursor s' k = Some b \<and> bar_OpenTime old \<le> bar_OpenTime b"
    and mark_cursor: "MarkPublished ops s cs = (r', s') \<Longrightarrow> cursor s' k = cursor s k"
    and load_cursor: "LoadRecovery ops s key = Inr recovery \<Longrightarrow> rec_HasCursor recovery \<Longrightarrow>
      \<exists>b. cursor s key = Some b \<and> bar_OpenTime b = rec_CursorOpenTime recovery \<and> barHash b = rec_CursorHash recovery"

lemma memory_ops_simps [simp]:
  "LoadRecovery memory_ops = Memory_LoadRecovery" "RebuildSeries memory_ops = Memory_RebuildSeries"
  "CommitClosed memory_ops = Memory_CommitClosed" "MarkPublished memory_ops = Memory_MarkPublished"
  by (simp_all add: memory_ops_def)

lemma Memory_CommitClosed_cursor:
  assumes "Memory_CommitClosed s key bar evs snaps = (Inr committed, s')"
  shows "\<exists>b. cursor_of s' key = Some b \<and> bar_OpenTime b = bar_OpenTime bar \<and> barHash b = barHash bar"
  using assms by (cases rule: Memory_CommitClosed_cases) (auto simp: cursor_of_set_cursor)

lemma Memory_CommitClosed_forward:
  assumes "Memory_CommitClosed s key bar evs snaps = (r, s')" and "cursor_of s k = Some old"
  shows "\<exists>b. cursor_of s' k = Some b \<and> bar_OpenTime old \<le> bar_OpenTime b"
  using assms(1)
proof (cases rule: Memory_CommitClosed_cases)
  case (commit committed s1)
  then have "cursor_of (put_snapshots key snaps s1) k = cursor_of s k" for k
    using commit_events_frame [OF commit(2)] by (simp add: cursor_of_def)
  with commit(1,4) assms(2) cursor_of_cong [of k key s] show ?thesis by (auto simp: cursor_of_set_cursor less_imp_le)
qed (use assms(2) in auto)

lemma Memory_RebuildSeries_forward:
  assumes "Memory_RebuildSeries s key evs snaps lastBar = (r, s')" and "cursor_of s k = Some old"
  shows "\<exists>b. cursor_of s' k = Some b \<and> bar_OpenTime old \<le> bar_OpenTime b"
  using assms(1)
proof (cases rule: Memory_RebuildSeries_cases)
  case (rebuilt committed s1)
  then have "cursor_of (put_snapshots key snaps s1) k = cursor_of s k" for k
    using rebuild_events_frame [OF rebuilt(2)] by (simp add: cursor_of_def)
  with rebuilt(1,4) assms(2) cursor_of_cong [of k key s] show ?thesis
    by (auto simp: cursor_of_set_cursor split: option.splits)
qed (use assms(2) in auto)

interpretation memory_store: series_store memory_ops cursor_of
proof unfold_locales
  show "\<And>s key bar evs snaps e s'. CommitClosed memory_ops s key bar evs snaps = (Inl e, s') \<Longrightarrow> s' = s"
    by (auto elim: Memory_CommitClosed_cases)
  show "\<And>s key evs snaps lastBar e s'. RebuildSeries memory_ops s key evs snaps lastBar = (Inl e, s') \<Longrightarrow> s' = s"
    by (auto elim: Memory_RebuildSeries_cases)
  show "\<And>s key evs snaps bar committed s'. RebuildSeries memory_ops s key evs snaps (Some bar) = (Inr committed, s') \<Longrightarrow>
      cursor_of s' key = Some bar"
    by (auto simp: cursor_of_set_cursor elim: Memory_RebuildSeries_cases)
  show "\<And>s cs r' s' k. MarkPublished memory_ops s cs = (r', s') \<Longrightarrow> cursor_of s' k = cursor_of s k"
    by (auto simp: Memory_MarkPublished_alt cursor_of_def)
  show "\<And>s key recovery. LoadRecovery memory_ops s key = Inr recovery \<Longrightarrow> rec_HasCursor recovery \<Longrightarrow>
      \<exists>b. cursor_of s key = Some b \<and> bar_OpenTime b = rec_CursorOpenTime recovery \<and> barHash b = rec_CursorHash recovery"
    by (auto simp: Memory_LoadRecovery_def cursor_of_def Let_def split: option.splits)
qed (auto intro: Memory_CommitClosed_cursor Memory_CommitClosed_forward Memory_RebuildSeries_forward)

text \<open>
  The contract the registry needs of the store its lanes share: an operation on one series leaves
  the cursors of the others alone.
\<close>

locale isolated_store = series_store +
  assumes commit_other: "CommitClosed ops s key bar evs snaps = (r, s') \<Longrightarrow>
      SeriesKey_String k \<noteq> SeriesKey_String key \<Longrightarrow> cursor s' k = cursor s k"
    and rebuild_other: "RebuildSeries ops s key evs snaps lastBar = (r, s') \<Longrightarrow>
      SeriesKey_String k \<noteq> SeriesKey_String key \<Longrightarrow> cursor s' k = cursor s k"

lemma Memory_CommitClosed_other:
  assumes "Memory_CommitClosed s key bar evs snaps = (r, s')" and "SeriesKey_String k \<noteq> SeriesKey_String key"
  shows "cursor_of s' k = cursor_of s k"
  using assms(1)
proof (cases rule: Memory_CommitClosed_cases)
  case (commit committed s1)
  have "cursor_of (put_snapshots key snaps s1) k = cursor_of s k"
    using commit_events_frame [OF commit(2)] by (simp add: cursor_of_def)
  with commit(4) assms(2) show ?thesis by (simp add: cursor_of_set_cursor)
qed simp_all

lemma Memory_RebuildSeries_other:
  assumes "Memory_RebuildSeries s key evs snaps lastBar = (r, s')" and "SeriesKey_String k \<noteq> SeriesKey_String key"
  shows "cursor_of s' k = cursor_of s k"
  using assms(1)
proof (cases rule: Memory_RebuildSeries_cases)
  case (rebuilt committed s1)
  have "cursor_of (put_snapshots key snaps s1) k = cursor_of s k"
    using rebuild_events_frame [OF rebuilt(2)] by (simp add: cursor_of_def)
  with rebuilt(4) assms(2) show ?thesis by (simp add: cursor_of_set_cursor split: option.splits)
qed simp_all

interpretation memory_isolated: isolated_store memory_ops cursor_of
  by unfold_locales (auto intro: Memory_CommitClosed_other Memory_RebuildSeries_other)

subsection \<open>Replay queries\<close>

lemma take_filter_complete:
  fixes f :: "'a \<Rightarrow> int"
  assumes "sorted_wrt (<) (map f xs)" and "ys = take n (filter P xs)"
  shows "set ys = {x \<in> set xs. P x \<and> (length ys < n \<or> (ys \<noteq> [] \<and> f x \<le> f (last ys)))}" (is "_ = ?R")
proof -
  let ?zs = "filter P xs"
  have srt: "sorted_wrt (\<lambda>x y. f x < f y) ?zs"
    using assms(1) by (simp add: sorted_wrt_map sorted_wrt_filter)
  show ?thesis
  proof (cases "length ?zs < n")
    case True
    with assms(2) show ?thesis by auto
  next
    case False
    then have len: "length ys = n" using assms(2) by simp
    have split: "?zs = ys @ drop n ?zs" using assms(2) by simp
    then have s2: "sorted_wrt (\<lambda>x y. f x < f y) (ys @ drop n ?zs)" using srt by simp
    have up: "f x \<le> f (last ys)" if "x \<in> set ys" for x
      using that s2 by (cases ys rule: rev_cases) (auto simp: sorted_wrt_append)
    have down: "f (last ys) < f x" if "x \<in> set (drop n ?zs)" "ys \<noteq> []" for x
      using that s2 by (simp add: sorted_wrt_append)
    have "set ys \<subseteq> ?R" using up assms(2) len by (fastforce dest: in_set_takeD)
    moreover have "x \<in> set ys" if "x \<in> ?R" for x
    proof -
      have "x \<in> set ?zs" using that by simp
      then have "x \<in> set (ys @ drop n ?zs)" using split by (rule subst [rotated])
      with that len down show ?thesis by fastforce
    qed
    ultimately show ?thesis by blast
  qed
qed

text \<open>
  A page of the event query holds at most the normalised limit of events, in strictly
  increasing cursor order, all beyond the cursor asked for; it is complete up to its last event,
  so asking again after that cursor never skips a matching event, and a short page is the end.
\<close>

theorem memory_query_events_page:
  assumes "wf_memory s" and "page = Memory_QueryEvents s f"
  shows "int (length page) \<le> normalize_limit (ef_Limit f) \<and> sorted_wrt (<) (map ev_Cursor page) \<and>
    (\<forall>e \<in> set page. ef_AfterCursor f < ev_Cursor e) \<and>
    set page = {e \<in> set (mem_events s). event_matches f e \<and>
      (int (length page) < normalize_limit (ef_Limit f) \<or> (page \<noteq> [] \<and> ev_Cursor e \<le> ev_Cursor (last page)))}"
proof -
  have l: "0 < normalize_limit n" for n by (simp add: normalize_limit_def)
  have srt: "sorted_wrt (<) (map ev_Cursor (mem_events s))" using assms(1) by (simp add: wf_memory_def)
  have p: "page = take (nat (normalize_limit (ef_Limit f))) (filter (event_matches f) (mem_events s))"
    using assms(2) by (simp add: Memory_QueryEvents_def)
  have "sorted_wrt (<) (map ev_Cursor page)"
    using srt unfolding p by (simp add: sorted_wrt_map sorted_wrt_take sorted_wrt_filter)
  moreover have "\<forall>e \<in> set page. ef_AfterCursor f < ev_Cursor e"
    unfolding p by (auto simp: event_matches_def dest: in_set_takeD)
  moreover have "int (length page) \<le> normalize_limit (ef_Limit f)" using l [of "ef_Limit f"] unfolding p by simp
  ultimately show ?thesis
    using take_filter_complete [OF srt p] l [of "ef_Limit f"] by (simp add: zless_nat_eq_int_zless)
qed

theorem memory_query_events_page_witness:
  "\<exists>page. page = Memory_QueryEvents sample_memory \<lparr>ef_AfterCursor = 0, ef_Dataset = [], ef_Symbol = [], ef_Timeframe = [],
       ef_Period = 0, ef_EventType = [], ef_Analysis = [], ef_Limit = 1\<rparr> \<and> page = [sample_event 1] \<and> length page \<le> 1"
  using memory_query_events_page [OF sample_memory_wf refl, of "\<lparr>ef_AfterCursor = 0, ef_Dataset = [], ef_Symbol = [],
      ef_Timeframe = [], ef_Period = 0, ef_EventType = [], ef_Analysis = [], ef_Limit = 1\<rparr>"]
  by (simp add: Memory_QueryEvents_def sample_memory_events event_matches_def normalize_limit_def sample_event_def)

end
