(* ===== verification/Lane.thy ===== *)
theory Lane
  imports EMA Store
begin

unbundle bit_operations_syntax

text \<open>
  \<^verbatim>\<open>internal/engine/lane.go\<close>: the actor of one series. Its state is the record \<open>Lane\<close>; each
  handler takes the lane and the world (the store, and what the two publishers were given so
  far) and returns its error result with both afterwards. The store is the interface record
  of theory \<^verbatim>\<open>Store\<close>, so that every handler is stated for any implementation. Reducers are an
  association list from periods, kept in the order of the sorted periods.
\<close>

definition signalSchema :: string where "signalSchema = ''signal.event.v1''"
definition marketHistoryLimit :: int where "marketHistoryLimit = 500"

type_synonym reducers = "(int \<times> EMA) list"

record LaneOptions =
  lo_Key :: SeriesKey
  lo_Periods :: "int list"
  lo_MailboxSize :: int
  lo_SnapshotEvery :: uint64
  lo_Store :: bool
  lo_Publisher :: bool
  lo_LivePublisher :: bool
  lo_OutboxDelivery :: bool

datatype lane_error =
    SeriesKeyIncomplete | BadTimeframe timeframe_error | NoPeriods | StoreRequired | PeriodsInvalid
  | EMAFailed ema_error | MarketFailed market_error
  | BarMismatch | BarTimeRequired | BarNotFinite | BarInconsistent
  | ClosedInputOpen | FormingInputClosed | ClosedBarOlder | ClosedBarGap
  | SeedOutOfOrder | SeedConflictsCurrent
  | LoadFailed store_error | PersistFailed store_error | CommitFailed store_error | MarkFailed store_error
  | MultipleSnapshots int | IncompleteSnapshots | SnapshotNewer | CheckpointsDiffer
  | SeedMissesSnapshot | SeedConflictsCursor | SeedMissesRange | MarketSnapshotNewer

record Lane =
  ln_key :: SeriesKey
  ln_periods :: "int list"
  ln_mailboxSize :: int
  ln_snapshotEvery :: uint64
  ln_publisher :: bool
  ln_livePublisher :: bool
  ln_outboxDelivery :: bool
  ln_reducers :: reducers
  ln_market :: Market
  ln_lastBar :: "Bar option"
  ln_lastClosedRevision :: uint64
  ln_closedCount :: uint64
  ln_provisional :: "(int \<times> f64) list"
  ln_formingTime :: "time option"
  ln_formingBar :: "Bar option"
  ln_formingRevision :: uint64
  ln_lastErr :: "lane_error option"

record 's world =
  w_store :: 's
  w_hub :: "SignalEvent list"
  w_live :: "SignalEvent list"

type_synonym 's outcome = "(lane_error, unit) result \<times> Lane \<times> 's world"

definition publish_hub :: "SignalEvent list \<Rightarrow> 's world \<Rightarrow> 's world" where
  "publish_hub evs w = w\<lparr>w_hub := w_hub w @ evs\<rparr>"

definition publish_live :: "SignalEvent list \<Rightarrow> 's world \<Rightarrow> 's world" where
  "publish_live evs w = w\<lparr>w_live := w_live w @ evs\<rparr>"

subsection \<open>Bars\<close>

definition revisionForBar :: "Bar \<Rightarrow> uint64" where
  "revisionForBar bar = (if bar_Closed bar \<and> bar_Trades bar < NOT 0 then bar_Trades bar + 1 else bar_Trades bar)"

definition validateBar :: "SeriesKey \<Rightarrow> Bar \<Rightarrow> lane_error option" where
  "validateBar key bar =
     (if bar_Symbol bar \<noteq> key_Symbol key \<or> bar_Timeframe bar \<noteq> key_Timeframe key then Some BarMismatch
      else if bar_OpenTime bar = zero_time then Some BarTimeRequired
      else if list_ex (\<lambda>v. isNaN v \<or> isInf v) [bar_Open bar, bar_High bar, bar_Low bar, bar_Close bar, bar_Volume bar]
        then Some BarNotFinite
      else if bar_High bar < bar_Low bar \<or> bar_High bar < bar_Open bar \<or> bar_High bar < bar_Close bar \<or>
          bar_Open bar < bar_Low bar \<or> bar_Close bar < bar_Low bar \<or> bar_Volume bar < 0 then Some BarInconsistent
      else None)"

text \<open>The engine's own copy of the store's \<open>barHash\<close>.\<close>

definition barFingerprint :: "Bar \<Rightarrow> string" where
  "barFingerprint bar = hex_encode (sha256_bytes (map of_char (bar_Symbol bar) @ map of_char (bar_Timeframe bar) @
     concat (map (\<lambda>v. put_uint64 (float64_bits v))
       [bar_Open bar, bar_High bar, bar_Low bar, bar_Close bar, bar_Volume bar]) @
     put_uint64 (unat (bar_Trades bar))))"

subsection \<open>Reducers\<close>

fun newReducers_loop :: "int list \<Rightarrow> reducers \<Rightarrow> (lane_error, reducers) result" where
  "newReducers_loop [] rs = Inr rs"
| "newReducers_loop (p # ps) rs =
     (case NewEMA p of
        Inl e \<Rightarrow> Inl (EMAFailed e)
      | Inr r \<Rightarrow> newReducers_loop ps (AList.update p r rs))"

definition newReducers :: "int list \<Rightarrow> (lane_error, reducers) result" where
  "newReducers periods = newReducers_loop periods []"

text \<open>\<^verbatim>\<open>reducers[period]\<close> for a period of the lane; the map holds every period.\<close>

definition reducer_at :: "reducers \<Rightarrow> int \<Rightarrow> EMA" where
  "reducer_at rs p = the (map_of rs p)"

fun clone_loop :: "reducers \<Rightarrow> int list \<Rightarrow> reducers \<Rightarrow> (lane_error, reducers) result" where
  "clone_loop source [] cloned = Inr cloned"
| "clone_loop source (p # ps) cloned =
     (case EMA_Snapshot (reducer_at source p) of
        Inl e \<Rightarrow> Inl (EMAFailed e)
      | Inr state \<Rightarrow>
          (case EMA_Restore (reducer_at cloned p) state of
             Inl e \<Rightarrow> Inl (EMAFailed e)
           | Inr r \<Rightarrow> clone_loop source ps (AList.update p r cloned)))"

definition cloneReducers :: "int list \<Rightarrow> reducers \<Rightarrow> (lane_error, reducers) result" where
  "cloneReducers periods source =
     (case newReducers periods of Inl e \<Rightarrow> Inl e | Inr cloned \<Rightarrow> clone_loop source periods cloned)"

definition emaAlgorithm :: "int \<Rightarrow> AlgorithmRef" where
  "emaAlgorithm period =
     \<lparr>alg_Name = ''ema'', alg_Version = EMAAlgorithmVersion,
      alg_ConfigHash = ''sha256:'' @ sha256_hex (''ema|'' @ EMAAlgorithmVersion @ ''|'' @ itoa period @ ''|sma-seed'')\<rparr>"

definition marketFactsAlgorithm :: "AlgorithmRef \<Rightarrow> int list \<Rightarrow> AlgorithmRef" where
  "marketFactsAlgorithm base periods =
     (let identity = alg_ConfigHash base @ concat (map (\<lambda>p. ''|'' @ alg_ConfigHash (emaAlgorithm p)) periods)
      in base\<lparr>alg_ConfigHash := ''sha256:'' @ sha256_hex identity\<rparr>)"

definition newEMAEvent :: "SeriesKey \<Rightarrow> Bar \<Rightarrow> int \<Rightarrow> uint64 \<Rightarrow> f64 \<Rightarrow> bool \<Rightarrow> uint64 \<Rightarrow> SignalEvent" where
  "newEMAEvent key bar period samples value provisional revision =
     (let algorithm = emaAlgorithm period;
          identity = SeriesKey_String key @ ''|'' @ rfc3339nano (bar_OpenTime bar) @ ''|ema|'' @
            alg_Version algorithm @ ''|'' @ alg_ConfigHash algorithm @ ''|'' @ itoa period @ ''|'' @
            format_bool provisional @ ''|'' @ format_uint revision
      in \<lparr>ev_Schema = signalSchema, ev_Cursor = 0, ev_EventID = sha256_hex identity,
          ev_EventType = ''indicator.point'', ev_Dataset = key_Dataset key, ev_Symbol = key_Symbol key,
          ev_Timeframe = key_Timeframe key, ev_BarOpenTime = bar_OpenTime bar, ev_SourceBar = Some bar,
          ev_BarRevision = revision, ev_AnalysisRevision = revision, ev_Provisional = provisional,
          ev_Reset = False, ev_ResetHistory = [], ev_Algorithm = algorithm,
          ev_Indicator = Some \<lparr>ip_Period = period, ip_Value = value, ip_Samples = samples, ip_Ready = True\<rparr>,
          ev_Market = None, ev_Indicators = []\<rparr>)"

definition indicator_state :: "uint64 \<Rightarrow> int \<times> EMA \<Rightarrow> IndicatorState" where
  "indicator_state revision = (\<lambda>(period, r).
     (let (value, ready) = EMA_Value r
      in \<lparr>is_Algorithm = emaAlgorithm period, is_Period = period, is_Value = (if ready then Some value else None),
          is_Samples = ema_samples r, is_Ready = ready, is_AnalysisRevision = revision\<rparr>))"

definition newMarketEvent :: "SeriesKey \<Rightarrow> Bar \<Rightarrow> MarketState \<Rightarrow> uint64 \<Rightarrow> reducers \<Rightarrow> SignalEvent" where
  "newMarketEvent key bar state revision rs =
     (let sorted_rs = sort_key fst rs; algorithm = marketFactsAlgorithm (ms_Algorithm state) (map fst sorted_rs);
          identity = SeriesKey_String key @ ''|'' @ rfc3339nano (bar_OpenTime bar) @ ''|'' @ alg_Name algorithm @
            ''|'' @ alg_Version algorithm @ ''|'' @ alg_ConfigHash algorithm @ ''|false|'' @ format_uint revision
      in \<lparr>ev_Schema = signalSchema, ev_Cursor = 0, ev_EventID = sha256_hex identity,
          ev_EventType = ''market.state'', ev_Dataset = key_Dataset key, ev_Symbol = key_Symbol key,
          ev_Timeframe = key_Timeframe key, ev_BarOpenTime = bar_OpenTime bar, ev_SourceBar = Some bar,
          ev_BarRevision = revision, ev_AnalysisRevision = revision, ev_Provisional = False,
          ev_Reset = False, ev_ResetHistory = [], ev_Algorithm = algorithm, ev_Indicator = None,
          ev_Market = Some state, ev_Indicators = map (indicator_state revision) sorted_rs\<rparr>)"

text \<open>The reducers in the order of their periods, each with the closed bar applied.\<close>

fun reduce_loop :: "SeriesKey \<Rightarrow> Bar \<Rightarrow> uint64 \<Rightarrow> reducers \<Rightarrow> (lane_error, SignalEvent list \<times> reducers) result" where
  "reduce_loop key bar revision [] = Inr ([], [])"
| "reduce_loop key bar revision ((p, r) # rs) =
     (case EMA_OnClosed r (bar_Close bar) of
        (Inl e, _) \<Rightarrow> Inl (EMAFailed e)
      | (Inr (value, ready), r') \<Rightarrow>
          (case reduce_loop key bar revision rs of
             Inl e \<Rightarrow> Inl e
           | Inr (evs, rs') \<Rightarrow>
               Inr ((if ready then [newEMAEvent key bar p (ema_samples r') value False revision] else []) @ evs,
                    (p, r') # rs')))"

definition reduceEMAClosed :: "SeriesKey \<Rightarrow> reducers \<Rightarrow> Bar \<Rightarrow> uint64 \<Rightarrow> (lane_error, SignalEvent list \<times> reducers) result" where
  "reduceEMAClosed key rs bar revision = reduce_loop key bar revision (sort_key fst rs)"

fun snapshot_loop :: "time \<Rightarrow> reducers \<Rightarrow> (lane_error, ReducerSnapshot list) result" where
  "snapshot_loop t [] = Inr []"
| "snapshot_loop t ((p, r) # rs) =
     (case EMA_Snapshot r of
        Inl e \<Rightarrow> Inl (EMAFailed e)
      | Inr state \<Rightarrow>
          (case snapshot_loop t rs of
             Inl e \<Rightarrow> Inl e
           | Inr out \<Rightarrow> Inr (\<lparr>rs_Algorithm = emaAlgorithm p, rs_Period = p, rs_LastOpenTime = t, rs_State = state\<rparr> # out)))"

definition reducerSnapshots :: "reducers \<Rightarrow> Market \<Rightarrow> Bar option \<Rightarrow> (lane_error, ReducerSnapshot list) result" where
  "reducerSnapshots rs market lastBar =
     (case lastBar of
        None \<Rightarrow> Inr []
      | Some bar \<Rightarrow>
          (case snapshot_loop (bar_OpenTime bar) (sort_key fst rs) of
             Inl e \<Rightarrow> Inl e
           | Inr out \<Rightarrow>
               (case Market_Snapshot market of
                  Inl e \<Rightarrow> Inl (MarketFailed e)
                | Inr state \<Rightarrow> Inr (out @ [\<lparr>rs_Algorithm = MarketAlgorithm DefaultMarketConfig, rs_Period = 0,
                      rs_LastOpenTime = bar_OpenTime bar, rs_State = state\<rparr>]))))"

subsection \<open>Construction\<close>

fun periods_valid :: "int list \<Rightarrow> bool" where
  "periods_valid [] = True"
| "periods_valid [p] = (0 < p)"
| "periods_valid (p # q # ps) = (0 < p \<and> q \<noteq> p \<and> periods_valid (q # ps))"

definition NewLane :: "LaneOptions \<Rightarrow> (lane_error, Lane) result" where
  "NewLane opts =
     (if key_Dataset (lo_Key opts) = [] \<or> key_Symbol (lo_Key opts) = [] \<or> key_Timeframe (lo_Key opts) = [] then Inl SeriesKeyIncomplete
      else case TimeframeDuration (key_Timeframe (lo_Key opts)) of
          Inl e \<Rightarrow> Inl (BadTimeframe e)
        | Inr _ \<Rightarrow>
      if lo_Periods opts = [] then Inl NoPeriods
      else if \<not> lo_Store opts then Inl StoreRequired
      else let mailbox = (if lo_MailboxSize opts \<le> 0 then 256 else lo_MailboxSize opts);
          every = (if lo_SnapshotEvery opts = 0 then 100 else lo_SnapshotEvery opts);
          periods = sort (lo_Periods opts)
      in if \<not> periods_valid periods then Inl PeriodsInvalid
      else case newReducers periods of
          Inl e \<Rightarrow> Inl e
        | Inr rs \<Rightarrow>
      (case NewMarket DefaultMarketConfig marketHistoryLimit of
          Inl e \<Rightarrow> Inl (MarketFailed e)
        | Inr market \<Rightarrow>
            Inr \<lparr>ln_key = lo_Key opts, ln_periods = periods, ln_mailboxSize = mailbox, ln_snapshotEvery = every,
                 ln_publisher = lo_Publisher opts, ln_livePublisher = lo_LivePublisher opts,
                 ln_outboxDelivery = lo_OutboxDelivery opts, ln_reducers = rs, ln_market = market,
                 ln_lastBar = None, ln_lastClosedRevision = 0, ln_closedCount = 0, ln_provisional = [],
                 ln_formingTime = None, ln_formingBar = None, ln_formingRevision = 0, ln_lastErr = None\<rparr>))"

subsection \<open>Closed bars\<close>

text \<open>The block under the lock that installs a new canonical state and clears the forming one.\<close>

definition install :: "reducers \<Rightarrow> Market \<Rightarrow> Bar option \<Rightarrow> uint64 \<Rightarrow> uint64 \<Rightarrow> Lane \<Rightarrow> Lane" where
  "install rs market lastBar revision closedCount l =
     l\<lparr>ln_reducers := rs, ln_market := market, ln_lastBar := lastBar, ln_lastClosedRevision := revision,
       ln_closedCount := closedCount, ln_provisional := [], ln_formingTime := None, ln_formingBar := None,
       ln_formingRevision := 0\<rparr>"

text \<open>The tests of a closed bar against the cursor: \<open>Some (Inr ())\<close> is a duplicate, ignored.\<close>

definition check_cursor :: "Lane \<Rightarrow> Bar \<Rightarrow> (lane_error, unit) result option" where
  "check_cursor l bar =
     (case ln_lastBar l of
        None \<Rightarrow> None
      | Some lastBar \<Rightarrow>
          if \<not> bar_OpenTime lastBar < bar_OpenTime bar then
            (if bar_OpenTime bar = bar_OpenTime lastBar \<and> barFingerprint bar = barFingerprint lastBar
             then Some (Inr ()) else Some (Inl ClosedBarOlder))
          else (case TimeframeDuration (key_Timeframe (ln_key l)) of
                  Inl e \<Rightarrow> Some (Inl (BadTimeframe e))
                | Inr step \<Rightarrow>
                    if bar_OpenTime bar \<noteq> bar_OpenTime lastBar + step then Some (Inl ClosedBarGap) else None))"

text \<open>The pure part of \<^verbatim>\<open>applyClosed\<close> between the checks and the commit.\<close>

definition prepare_closed :: "Lane \<Rightarrow> reducers \<Rightarrow> Market \<Rightarrow> Bar \<Rightarrow>
    (lane_error, SignalEvent list \<times> ReducerSnapshot list \<times> reducers \<times> Market \<times> uint64) result" where
  "prepare_closed l rs market bar =
     (let revision = revisionForBar bar in
      case reduceEMAClosed (ln_key l) rs bar revision of
        Inl e \<Rightarrow> Inl e
      | Inr (evs, rs') \<Rightarrow>
          (let market' = Market_OnClosed market bar;
               events = evs @ [newMarketEvent (ln_key l) bar (mk_state market') revision rs'];
               closedCount = ln_closedCount l + 1
           in if closedCount mod ln_snapshotEvery l = 0 then
                (case reducerSnapshots rs' market' (Some bar) of
                   Inl e \<Rightarrow> Inl e
                 | Inr snapshots \<Rightarrow> Inr (events, snapshots, rs', market', closedCount))
              else Inr (events, [], rs', market', closedCount)))"

definition applyClosed :: "'s store_ops \<Rightarrow> Lane \<Rightarrow> 's world \<Rightarrow> Bar \<Rightarrow> 's outcome" where
  "applyClosed ops l w bar =
     (if \<not> bar_Closed bar then (Inl ClosedInputOpen, l, w)
      else case validateBar (ln_key l) bar of Some e \<Rightarrow> (Inl e, l, w) | None \<Rightarrow>
      (case cloneReducers (ln_periods l) (ln_reducers l) of Inl e \<Rightarrow> (Inl e, l, w) | Inr rs \<Rightarrow>
      (case Market_Clone (ln_market l) of Inl e \<Rightarrow> (Inl (MarketFailed e), l, w) | Inr market \<Rightarrow>
      (case check_cursor l bar of Some r \<Rightarrow> (r, l, w) | None \<Rightarrow>
      (case prepare_closed l rs market bar of
         Inl e \<Rightarrow> (Inl e, l, w)
       | Inr (events, snapshots, rs', market', closedCount) \<Rightarrow>
      (case CommitClosed ops (w_store w) (ln_key l) bar events snapshots of
         (Inl e, s) \<Rightarrow> (Inl (CommitFailed e), l, w\<lparr>w_store := s\<rparr>)
       | (Inr committed, s) \<Rightarrow>
           (let w1 = w\<lparr>w_store := s\<rparr>;
                w2 = (if ln_livePublisher l
                      then publish_live (filter (\<lambda>e. ev_EventType e = ''market.state'') committed) w1 else w1);
                l' = install rs' market' (Some bar) (revisionForBar bar) closedCount l
            in if ln_publisher l \<and> \<not> ln_outboxDelivery l then
                 (let w3 = publish_hub committed w2
                  in case MarkPublished ops (w_store w3) (map ev_Cursor committed) of
                       (Inl e, s') \<Rightarrow> (Inl (MarkFailed e), l', w3\<lparr>w_store := s'\<rparr>)
                     | (Inr _, s') \<Rightarrow> (Inr (), l', w3\<lparr>w_store := s'\<rparr>))
               else (Inr (), l', w2))))))))"

fun applyCatchUpSeed :: "'s store_ops \<Rightarrow> Lane \<Rightarrow> 's world \<Rightarrow> Bar list \<Rightarrow> 's outcome" where
  "applyCatchUpSeed ops l w [] = (Inr (), l, w)"
| "applyCatchUpSeed ops l w (bar # bars) =
     (if \<not> bar_Closed bar then applyCatchUpSeed ops l w bars
      else let behind = (case ln_lastBar l of None \<Rightarrow> False | Some b \<Rightarrow> \<not> bar_OpenTime b < bar_OpenTime bar);
          conflict = (case ln_lastBar l of None \<Rightarrow> False
            | Some b \<Rightarrow> bar_OpenTime bar = bar_OpenTime b \<and> barFingerprint bar \<noteq> barFingerprint b)
      in if behind then
           (if conflict then (Inl SeedConflictsCurrent, l, w) else applyCatchUpSeed ops l w bars)
         else case applyClosed ops l w bar of
             (Inl e, l', w') \<Rightarrow> (Inl e, l', w')
           | (Inr _, l', w') \<Rightarrow> applyCatchUpSeed ops l' w' bars)"

subsection \<open>Forming bars\<close>

fun project_loop :: "SeriesKey \<Rightarrow> Bar \<Rightarrow> uint64 \<Rightarrow> reducers \<Rightarrow> int list \<Rightarrow>
    (lane_error, (int \<times> f64) list) result \<times> SignalEvent list" where
  "project_loop key bar revision rs [] = (Inr [], [])"
| "project_loop key bar revision rs (p # ps) =
     (let r = reducer_at rs p in
      case EMA_Project r (bar_Close bar) of
        Inl e \<Rightarrow> (Inl (EMAFailed e), [])
      | Inr (value, ready) \<Rightarrow>
          (let evs = (if ready then [newEMAEvent key bar p (ema_samples r + 1) value True revision] else []) in
           case project_loop key bar revision rs ps of
             (Inl e, published) \<Rightarrow> (Inl e, evs @ published)
           | (Inr prov, published) \<Rightarrow>
               (Inr ((if ready then [(p, value)] else []) @ prov), evs @ published)))"

text \<open>The live frame of a forming bar: the confirmed market state without its occurrences, and the
  projected indicators.\<close>

definition forming_frame :: "SeriesKey \<Rightarrow> Bar \<Rightarrow> MarketState \<Rightarrow> uint64 \<Rightarrow> reducers \<Rightarrow> (int \<times> f64) list \<Rightarrow> SignalEvent" where
  "forming_frame key bar state revision rs provisional =
     (let event = newMarketEvent key bar (state\<lparr>ms_PatternOccurrences := [], ms_ZoneTransitions := []\<rparr>) revision rs
      in event\<lparr>ev_Provisional := True,
          ev_Indicators := map (\<lambda>i. i\<lparr>is_Ready := map_of provisional (is_Period i) \<noteq> None,
             is_Samples := is_Samples i + 1, is_Value := map_of provisional (is_Period i)\<rparr>) (ev_Indicators event)\<rparr>)"

definition applyForming :: "Lane \<Rightarrow> 's world \<Rightarrow> Bar \<Rightarrow> 's outcome" where
  "applyForming l w bar =
     (if bar_Closed bar then (Inl FormingInputClosed, l, w)
      else case validateBar (ln_key l) bar of Some e \<Rightarrow> (Inl e, l, w) | None \<Rightarrow>
      (case cloneReducers (ln_periods l) (ln_reducers l) of Inl e \<Rightarrow> (Inl e, l, w) | Inr rs \<Rightarrow>
       if (case ln_lastBar l of None \<Rightarrow> False | Some b \<Rightarrow> bar_OpenTime bar < bar_OpenTime b) then (Inr (), l, w)
       else let revision = revisionForBar bar;
           (projected, published) = project_loop (ln_key l) bar revision rs (ln_periods l);
           w1 = (if ln_publisher l then publish_hub published w else w)
       in case projected of
            Inl e \<Rightarrow> (Inl e, l, w1)
          | Inr provisional \<Rightarrow>
              (let w2 = (if ln_livePublisher l
                   then publish_live [forming_frame (ln_key l) bar (mk_state (ln_market l)) revision rs provisional] w1
                   else w1)
               in (Inr (), l\<lparr>ln_provisional := provisional, ln_formingTime := Some (bar_OpenTime bar),
                     ln_formingBar := Some bar, ln_formingRevision := revision\<rparr>, w2))))"

end
