(* ===== verification/Lane_Recovery.thy ===== *)
theory Lane_Recovery
  imports Lane
begin

text \<open>
  The rest of \<^verbatim>\<open>internal/engine/lane.go\<close>: authoritative seeds (\<^verbatim>\<open>applySeed\<close> with its three
  ways: catch-up, restore from a durable checkpoint, deterministic rebuild), the read-only
  snapshot, and the handling of one command of the mailbox.
\<close>

subsection \<open>Conflicts between a seed and the live history\<close>

definition fingerprint_map :: "Bar list \<Rightarrow> (int \<times> string) list" where
  "fingerprint_map bars = foldl (\<lambda>m b. AList.update (unix_nano (bar_OpenTime b)) (barFingerprint b) m) [] bars"

fun seed_first :: "time \<Rightarrow> Bar list \<Rightarrow> time" where
  "seed_first t [] = t"
| "seed_first t (b # bs) =
     seed_first (if t = zero_time \<or> bar_OpenTime b < t then bar_OpenTime b else t) bs"

definition seedConflictsWithHistory :: "Lane \<Rightarrow> Bar list \<Rightarrow> bool" where
  "seedConflictsWithHistory l bars =
     (case ln_lastBar l of
        None \<Rightarrow> False
      | Some lastBar \<Rightarrow>
          (let localBars = mk_bars (ln_market l) in
           if localBars = [] then False
           else let local = fingerprint_map localBars;
               overlap = filter (\<lambda>b. bar_Closed b \<and> \<not> bar_OpenTime lastBar < bar_OpenTime b) bars;
               seed = fingerprint_map overlap;
               seedFirst = seed_first zero_time overlap
           in if seedFirst = zero_time then False
              else list_ex (\<lambda>(timestamp, fingerprint).
                       (case map_of local timestamp of
                          Some existing \<Rightarrow> existing \<noteq> fingerprint
                        | None \<Rightarrow> unix_nano (bar_OpenTime (hd localBars)) \<le> timestamp)) seed \<or>
                   list_ex (\<lambda>b. \<not> (bar_OpenTime b < seedFirst \<or> bar_OpenTime lastBar < bar_OpenTime b) \<and>
                       map_of seed (unix_nano (bar_OpenTime b)) = None) localBars))"

subsection \<open>Deterministic rebuild\<close>

text \<open>What the loop over the seed accumulates.\<close>

record rebuilt =
  rb_reducers :: reducers
  rb_market :: Market
  rb_lastBar :: "Bar option"
  rb_closedCount :: uint64
  rb_points :: "SignalEvent list"

definition reduce_bar :: "SeriesKey \<Rightarrow> rebuilt \<Rightarrow> Bar \<Rightarrow> (lane_error, rebuilt) result" where
  "reduce_bar key st bar =
     (case reduceEMAClosed key (rb_reducers st) bar (revisionForBar bar) of
        Inl e \<Rightarrow> Inl e
      | Inr (events, rs) \<Rightarrow>
          Inr \<lparr>rb_reducers = rs, rb_market = Market_OnClosed (rb_market st) bar, rb_lastBar = Some bar,
               rb_closedCount = rb_closedCount st + 1, rb_points = rb_points st @ events\<rparr>)"

definition rebuild_step :: "SeriesKey \<Rightarrow> rebuilt \<Rightarrow> Bar \<Rightarrow> (lane_error, rebuilt) result" where
  "rebuild_step key st bar =
     (if \<not> bar_Closed bar then Inr st
      else case validateBar key bar of Some e \<Rightarrow> Inl e | None \<Rightarrow>
        (case rb_lastBar st of
           None \<Rightarrow> reduce_bar key st bar
         | Some lastBar \<Rightarrow>
             if \<not> bar_OpenTime lastBar < bar_OpenTime bar then
               (if bar_OpenTime bar = bar_OpenTime lastBar \<and> barFingerprint bar = barFingerprint lastBar
                then Inr st else Inl SeedOutOfOrder)
             else reduce_bar key st bar))"

fun rebuild_loop :: "SeriesKey \<Rightarrow> rebuilt \<Rightarrow> Bar list \<Rightarrow> (lane_error, rebuilt) result" where
  "rebuild_loop key st [] = Inr st"
| "rebuild_loop key st (bar # bars) =
     (case rebuild_step key st bar of Inl e \<Rightarrow> Inl e | Inr st' \<Rightarrow> rebuild_loop key st' bars)"

text \<open>The market event of the last bar, marked as a reset with the confirmed history before it.\<close>

definition reset_event :: "Bar list \<Rightarrow> Bar \<Rightarrow> SignalEvent \<Rightarrow> SignalEvent" where
  "reset_event bars lastBar event =
     event\<lparr>ev_Reset := True,
       ev_ResetHistory := keep_last (nat marketHistoryLimit)
         (filter (\<lambda>b. bar_Closed b \<and> bar_OpenTime b < bar_OpenTime lastBar) bars),
       ev_EventID := sha256_hex (ev_EventID event @ CHR 0x00 # ''authoritative-reset'')\<rparr>"

definition rebuild_points :: "SeriesKey \<Rightarrow> Bar list \<Rightarrow> bool \<Rightarrow> rebuilt \<Rightarrow> SignalEvent list" where
  "rebuild_points key bars publishReset st =
     (case rb_lastBar st of
        None \<Rightarrow> rb_points st
      | Some lastBar \<Rightarrow>
          (let event = newMarketEvent key lastBar (mk_state (rb_market st)) (revisionForBar lastBar) (rb_reducers st)
           in rb_points st @ [if publishReset then reset_event bars lastBar event else event]))"

definition fresh_rebuilt :: "int list \<Rightarrow> (lane_error, rebuilt) result" where
  "fresh_rebuilt periods =
     (case newReducers periods of
        Inl e \<Rightarrow> Inl e
      | Inr rs \<Rightarrow>
          (case NewMarket DefaultMarketConfig marketHistoryLimit of
             Inl e \<Rightarrow> Inl (MarketFailed e)
           | Inr market \<Rightarrow> Inr \<lparr>rb_reducers = rs, rb_market = market, rb_lastBar = None, rb_closedCount = 0, rb_points = []\<rparr>))"

definition rebuildSeed :: "'s store_ops \<Rightarrow> Lane \<Rightarrow> 's world \<Rightarrow> Bar list \<Rightarrow> bool \<Rightarrow> 's outcome" where
  "rebuildSeed ops l w bars publishReset =
     (case fresh_rebuilt (ln_periods l) of Inl e \<Rightarrow> (Inl e, l, w) | Inr st0 \<Rightarrow>
     (case rebuild_loop (ln_key l) st0 bars of Inl e \<Rightarrow> (Inl e, l, w) | Inr st \<Rightarrow>
     (case reducerSnapshots (rb_reducers st) (rb_market st) (rb_lastBar st) of Inl e \<Rightarrow> (Inl e, l, w) | Inr snapshots \<Rightarrow>
     (case RebuildSeries ops (w_store w) (ln_key l) (rebuild_points (ln_key l) bars publishReset st) snapshots (rb_lastBar st) of
        (Inl e, s) \<Rightarrow> (Inl (PersistFailed e), l, w\<lparr>w_store := s\<rparr>)
      | (Inr committed, s) \<Rightarrow>
          (let w1 = w\<lparr>w_store := s\<rparr>;
               revision = (case rb_lastBar st of None \<Rightarrow> ln_lastClosedRevision l | Some b \<Rightarrow> revisionForBar b)
           in (Inr (), install (rb_reducers st) (rb_market st) (rb_lastBar st) revision (rb_closedCount st) l,
               if ln_livePublisher l then publish_live committed w1 else w1))))))"

subsection \<open>Recovery from a durable checkpoint\<close>

text \<open>The loop over the stored snapshots: the restored reducers, the snapshots by period and the
  market snapshot. Snapshots of other algorithms or of periods no longer configured are skipped.\<close>

type_synonym loaded = "reducers \<times> (int \<times> ReducerSnapshot) list \<times> ReducerSnapshot option"

definition load_snapshot :: "loaded \<Rightarrow> ReducerSnapshot \<Rightarrow> (lane_error, loaded) result" where
  "load_snapshot = (\<lambda>(rs, byPeriod, marketSnapshot) snapshot.
     (if rs_Period snapshot = 0 \<and> rs_Algorithm snapshot = MarketAlgorithm DefaultMarketConfig
      then Inr (rs, byPeriod, Some snapshot)
      else case map_of rs (rs_Period snapshot) of
          None \<Rightarrow> Inr (rs, byPeriod, marketSnapshot)
        | Some expected \<Rightarrow>
            if rs_Algorithm snapshot \<noteq> emaAlgorithm (rs_Period snapshot) then Inr (rs, byPeriod, marketSnapshot)
            else if map_of byPeriod (rs_Period snapshot) \<noteq> None then Inl (MultipleSnapshots (rs_Period snapshot))
            else case EMA_Restore expected (rs_State snapshot) of
                Inl e \<Rightarrow> Inl (EMAFailed e)
              | Inr r \<Rightarrow> Inr (AList.update (rs_Period snapshot) r rs,
                               AList.update (rs_Period snapshot) snapshot byPeriod, marketSnapshot)))"

fun load_loop :: "loaded \<Rightarrow> ReducerSnapshot list \<Rightarrow> (lane_error, loaded) result" where
  "load_loop st [] = Inr st"
| "load_loop st (snapshot # snapshots) =
     (case load_snapshot st snapshot of Inl e \<Rightarrow> Inl e | Inr st' \<Rightarrow> load_loop st' snapshots)"

text \<open>One checkpoint for all the periods: its time and its number of samples.\<close>

definition checkpoint :: "int list \<Rightarrow> reducers \<Rightarrow> (int \<times> ReducerSnapshot) list \<Rightarrow> time \<Rightarrow> (lane_error, time \<times> uint64) result" where
  "checkpoint periods rs byPeriod cursorTime =
     (if length byPeriod \<noteq> length periods then Inl IncompleteSnapshots
      else let at_time = (\<lambda>p. rs_LastOpenTime (the (map_of byPeriod p)));
          samples = (\<lambda>p. ema_samples (reducer_at rs p));
          snapshotTime = at_time (hd periods); closedCount = samples (hd periods)
      in if cursorTime < snapshotTime then Inl SnapshotNewer
         else if list_ex (\<lambda>p. at_time p \<noteq> snapshotTime \<or> samples p \<noteq> closedCount) (tl periods)
           then Inl CheckpointsDiffer
         else Inr (snapshotTime, closedCount))"

record replayed =
  rp_reducers :: reducers
  rp_lastBar :: "Bar option"
  rp_closedCount :: uint64
  rp_foundSnapshot :: bool
  rp_foundCursor :: bool
  rp_marketBars :: "Bar list"

text \<open>The branch chain on the bar's time against the checkpoint and the cursor.\<close>

definition replay_reduce :: "SeriesKey \<Rightarrow> time \<Rightarrow> time \<Rightarrow> replayed \<Rightarrow> Bar \<Rightarrow> (lane_error, replayed) result" where
  "replay_reduce key snapshotTime cursorTime st bar =
     (if bar_OpenTime bar = snapshotTime then Inr (st\<lparr>rp_lastBar := Some bar, rp_foundSnapshot := True\<rparr>)
      else if bar_OpenTime bar \<le> cursorTime then
        (if \<not> rp_foundSnapshot st then Inl SeedMissesSnapshot
         else case reduceEMAClosed key (rp_reducers st) bar (revisionForBar bar) of
             Inl e \<Rightarrow> Inl e
           | Inr (_, rs) \<Rightarrow> Inr (st\<lparr>rp_reducers := rs, rp_lastBar := Some bar, rp_closedCount := rp_closedCount st + 1\<rparr>))
      else Inr st)"

definition replay_step :: "SeriesKey \<Rightarrow> time \<Rightarrow> SeriesRecovery \<Rightarrow> replayed \<Rightarrow> Bar \<Rightarrow> (lane_error, replayed) result" where
  "replay_step key snapshotTime recovery st0 bar =
     (let cursorTime = rec_CursorOpenTime recovery;
          st = (if bar_Closed bar \<and> \<not> cursorTime < bar_OpenTime bar
                then st0\<lparr>rp_marketBars := rp_marketBars st0 @ [bar]\<rparr> else st0)
      in if \<not> bar_Closed bar \<or> bar_OpenTime bar < snapshotTime then Inr st
         else case validateBar key bar of Some e \<Rightarrow> Inl e | None \<Rightarrow>
           (case replay_reduce key snapshotTime cursorTime st bar of
              Inl e \<Rightarrow> Inl e
            | Inr st' \<Rightarrow>
                if bar_OpenTime bar = cursorTime then
                  (if barFingerprint bar \<noteq> rec_CursorHash recovery then Inl SeedConflictsCursor
                   else Inr (st'\<lparr>rp_foundCursor := True\<rparr>))
                else Inr st'))"

fun replay_loop :: "SeriesKey \<Rightarrow> time \<Rightarrow> SeriesRecovery \<Rightarrow> replayed \<Rightarrow> Bar list \<Rightarrow> (lane_error, replayed) result" where
  "replay_loop key t recovery st [] = Inr st"
| "replay_loop key t recovery st (bar # bars) =
     (case replay_step key t recovery st bar of Inl e \<Rightarrow> Inl e | Inr st' \<Rightarrow> replay_loop key t recovery st' bars)"

definition recover_market :: "Market \<Rightarrow> ReducerSnapshot option \<Rightarrow> time \<Rightarrow> Bar list \<Rightarrow> (lane_error, Market) result" where
  "recover_market market marketSnapshot cursorTime marketBars =
     (case marketSnapshot of
        None \<Rightarrow> Inr (Market_Seed market marketBars)
      | Some snapshot \<Rightarrow>
          if cursorTime < rs_LastOpenTime snapshot then Inl MarketSnapshotNewer
          else (case Market_Restore market (rs_State snapshot) of
                  Inl e \<Rightarrow> Inl (MarketFailed e)
                | Inr m \<Rightarrow> Inr (foldl Market_OnClosed m
                    (filter (\<lambda>b. rs_LastOpenTime snapshot < bar_OpenTime b) marketBars))))"

definition restoreRecoverySeed :: "Lane \<Rightarrow> SeriesRecovery \<Rightarrow> Bar list \<Rightarrow> (lane_error, Lane) result" where
  "restoreRecoverySeed l recovery bars =
     (case fresh_rebuilt (ln_periods l) of Inl e \<Rightarrow> Inl e | Inr st0 \<Rightarrow>
     (case load_loop (rb_reducers st0, [], None) (rec_Snapshots recovery) of Inl e \<Rightarrow> Inl e
      | Inr (rs, byPeriod, marketSnapshot) \<Rightarrow>
     (case checkpoint (ln_periods l) rs byPeriod (rec_CursorOpenTime recovery) of Inl e \<Rightarrow> Inl e
      | Inr (snapshotTime, closedCount) \<Rightarrow>
     (case replay_loop (ln_key l) snapshotTime recovery
          \<lparr>rp_reducers = rs, rp_lastBar = None, rp_closedCount = closedCount, rp_foundSnapshot = False,
           rp_foundCursor = False, rp_marketBars = []\<rparr> bars of Inl e \<Rightarrow> Inl e
      | Inr st \<Rightarrow>
     (case rp_lastBar st of
        None \<Rightarrow> Inl SeedMissesRange
      | Some lastBar \<Rightarrow>
          if \<not> rp_foundSnapshot st \<or> \<not> rp_foundCursor st then Inl SeedMissesRange
          else case recover_market (rb_market st0) marketSnapshot (rec_CursorOpenTime recovery) (rp_marketBars st) of
              Inl e \<Rightarrow> Inl e
            | Inr market \<Rightarrow>
                Inr (install (rp_reducers st) market (Some lastBar) (revisionForBar lastBar) (rp_closedCount st) l))))))"

subsection \<open>Seeds\<close>

definition applySeed :: "'s store_ops \<Rightarrow> Lane \<Rightarrow> 's world \<Rightarrow> Bar list \<Rightarrow> 's outcome" where
  "applySeed ops l w seed =
     (let bars = sort_key bar_OpenTime seed in
      if ln_lastBar l \<noteq> None then
        (if seedConflictsWithHistory l bars then rebuildSeed ops l w bars True
         else case applyCatchUpSeed ops l w bars of
             (Inl _, l', w') \<Rightarrow> rebuildSeed ops l' w' bars True
           | (Inr _, l', w') \<Rightarrow> (Inr (), l', w'))
      else case LoadRecovery ops (w_store w) (ln_key l) of
          Inl e \<Rightarrow> (Inl (LoadFailed e), l, w)
        | Inr recovery \<Rightarrow>
            if rec_HasCursor recovery then
              (case restoreRecoverySeed l recovery bars of
                 Inl _ \<Rightarrow> rebuildSeed ops l w bars True
               | Inr l' \<Rightarrow> applyCatchUpSeed ops l' w bars)
            else rebuildSeed ops l w bars False)"

subsection \<open>The read-only snapshot\<close>

definition projected_state :: "uint64 \<Rightarrow> (int \<times> f64) list \<Rightarrow> int \<times> EMA \<Rightarrow> IndicatorState list" where
  "projected_state revision provisional = (\<lambda>(period, r).
     (case map_of provisional period of
        None \<Rightarrow> []
      | Some projected \<Rightarrow> [\<lparr>is_Algorithm = emaAlgorithm period, is_Period = period, is_Value = Some projected,
          is_Samples = ema_samples r + 1, is_Ready = True, is_AnalysisRevision = revision\<rparr>]))"

definition makeSeriesSnapshot :: "SeriesKey \<Rightarrow> int list \<Rightarrow> reducers \<Rightarrow> Market \<Rightarrow> Bar option \<Rightarrow> uint64 \<Rightarrow> Bar option \<Rightarrow>
    time option \<Rightarrow> uint64 \<Rightarrow> (int \<times> f64) list \<Rightarrow> SeriesSnapshot" where
  "makeSeriesSnapshot key periods rs market lastBar lastClosedRevision formingBar formingTime formingRevision provisional =
     (let items = map (\<lambda>p. (p, reducer_at rs p)) periods
      in \<lparr>ss_Schema = ''signal.snapshot.v1'', ss_Series = key,
          ss_LastClosedTime = map_option bar_OpenTime lastBar, ss_LastClosedBar = lastBar,
          ss_LastClosedRevision = lastClosedRevision,
          ss_FormingOpenTime = formingTime, ss_FormingBar = (if formingTime = None then None else formingBar),
          ss_FormingRevision = formingRevision,
          ss_Ready = list_all (\<lambda>(_, r). EMA_Ready r) items,
          ss_Indicators = map (indicator_state lastClosedRevision) items,
          ss_Provisional = concat (map (projected_state formingRevision provisional) items),
          ss_Market = Some (mk_state market)\<rparr>)"

definition Lane_Snapshot :: "Lane \<Rightarrow> SeriesSnapshot" where
  "Lane_Snapshot l = makeSeriesSnapshot (ln_key l) (ln_periods l) (ln_reducers l) (ln_market l) (ln_lastBar l)
     (ln_lastClosedRevision l) (ln_formingBar l) (ln_formingTime l) (ln_formingRevision l) (ln_provisional l)"

subsection \<open>Commands\<close>

datatype command = commandSeed "Bar list" | commandClosed Bar | commandForming Bar

definition dispatch :: "'s store_ops \<Rightarrow> Lane \<Rightarrow> 's world \<Rightarrow> command \<Rightarrow> 's outcome" where
  "dispatch ops l w cmd =
     (let (r, l', w') = (case cmd of
            commandSeed bars \<Rightarrow> applySeed ops l w bars
          | commandClosed bar \<Rightarrow> applyClosed ops l w bar
          | commandForming bar \<Rightarrow> applyForming l w bar)
      in (r, l'\<lparr>ln_lastErr := (case r of Inl e \<Rightarrow> Some e | Inr _ \<Rightarrow> None)\<rparr>, w'))"

end
