(* ===== verification/Lane_Invariant.thy ===== *)
theory Lane_Invariant
  imports Lane_Recovery
begin

text \<open>
  What the lane of \<^verbatim>\<open>internal/engine/lane.go\<close> computes: after the closed bars \<open>hist\<close> its
  reducers are the reference averages of their closes and its market is the reference market of
  the history, whether the bars came one by one, as a seed, or partly through a checkpoint.
\<close>

subsection \<open>Reducers\<close>

definition valid_periods :: "int list \<Rightarrow> bool" where
  "valid_periods ps \<longleftrightarrow> sorted ps \<and> distinct ps \<and> (\<forall>p \<in> set ps. period_ok p)"

definition reducers_of :: "int list \<Rightarrow> Bar list \<Rightarrow> reducers" where
  "reducers_of ps hist = map (\<lambda>p. (p, ema_of p (map bar_Close hist))) ps"

lemma sort_reducers_of: "valid_periods ps \<Longrightarrow> sort_key fst (reducers_of ps hist) = reducers_of ps hist"
  by (rule sort_key_id_if_sorted) (simp add: valid_periods_def reducers_of_def comp_def)

lemma map_of_reducers_of: "p \<in> set ps \<Longrightarrow> map_of (reducers_of ps hist) p = Some (ema_of p (map bar_Close hist))"
  unfolding reducers_of_def by (induction ps) auto

lemma reducer_at_reducers_of: "p \<in> set ps \<Longrightarrow> reducer_at (reducers_of ps hist) p = ema_of p (map bar_Close hist)"
  by (simp add: reducer_at_def map_of_reducers_of)

lemma update_append_fresh: "k \<notin> fst ` set xs \<Longrightarrow> AList.update k v (xs @ (k, u) # ys) = xs @ (k, v) # ys"
  by (induction xs) auto

lemma update_new: "k \<notin> fst ` set xs \<Longrightarrow> AList.update k v xs = xs @ [(k, v)]"
  by (induction xs) auto

lemma newReducers_loop_ok:
  assumes "distinct ps" and "set ps \<inter> fst ` set rs = {}" and "\<forall>p \<in> set ps. 1 \<le> p"
  shows "newReducers_loop ps rs = Inr (rs @ reducers_of ps [])"
  using assms
proof (induction ps arbitrary: rs)
  case (Cons p ps)
  then show ?case by (simp add: NewEMA_ema_of update_new reducers_of_def)
qed (simp add: reducers_of_def)

lemma newReducers_ok: "valid_periods ps \<Longrightarrow> newReducers ps = Inr (reducers_of ps [])"
  by (simp add: newReducers_def newReducers_loop_ok valid_periods_def period_ok_def)

text \<open>A clone, when the snapshots can be encoded, is the original.\<close>

lemma clone_loop_ok:
  assumes "clone_loop source ps (acc @ reducers_of ps []) = Inr rs"
    and "\<forall>p \<in> set ps. reducer_at source p = ema_of p cs \<and> period_ok p" and "length cs < 2 ^ 64"
    and "distinct ps" and "set ps \<inter> fst ` set acc = {}"
  shows "rs = acc @ map (\<lambda>p. (p, ema_of p cs)) ps"
  using assms(1,2,4,5)
proof (induction ps arbitrary: acc)
  case (Cons p ps)
  have acc: "map_of (acc @ (p, ema_of p []) # reducers_of ps []) p = Some (ema_of p [])"
    using Cons.prems(4) map_of_eq_None_iff [of acc p] by (simp add: map_add_def)
  obtain d where d: "EMA_Snapshot (ema_of p cs) = Inr d"
    using Cons.prems(1,2) by (auto split: sum.splits)
  then have "finite64 (ema_seedSum (ema_of p cs))" "finite64 (ema_value (ema_of p cs))"
    using EMA_Snapshot_ok_iff [of "ema_of p cs"] by simp_all
  then have wf: "wf_ema p (ema_of p cs)" using Cons.prems(2) assms(3) by (intro ema_of_wf) auto
  have "EMA_Restore (reducer_at (acc @ reducers_of (p # ps) []) p) d = Inr (ema_of p cs)"
    using EMA_Restore_Snapshot [OF wf d, of "ema_of p []"] acc by (simp add: reducer_at_def reducers_of_def)
  then have "clone_loop source ps ((acc @ [(p, ema_of p cs)]) @ reducers_of ps []) = Inr rs"
    using Cons.prems(1,2,4) d by (simp add: reducers_of_def update_append_fresh)
  from Cons.IH [OF this] Cons.prems(2-4) show ?case by (auto simp: ema_of_def)
qed (simp add: reducers_of_def)

lemma cloneReducers_ok:
  assumes "cloneReducers ps (reducers_of ps hist) = Inr rs" and "valid_periods ps" and "length hist < 2 ^ 64"
  shows "rs = reducers_of ps hist"
proof -
  have "clone_loop (reducers_of ps hist) ps ([] @ reducers_of ps []) = Inr rs"
    using assms(1) newReducers_ok [OF assms(2)] by (simp add: cloneReducers_def)
  then have "rs = [] @ map (\<lambda>p. (p, ema_of p (map bar_Close hist))) ps"
    using assms(2,3) by (intro clone_loop_ok) (auto simp: reducer_at_reducers_of valid_periods_def)
  then show ?thesis by (simp add: reducers_of_def)
qed

text \<open>The points a closed bar confirms: one for each period that has enough bars.\<close>

definition closed_points :: "SeriesKey \<Rightarrow> int list \<Rightarrow> Bar list \<Rightarrow> Bar \<Rightarrow> SignalEvent list" where
  "closed_points key ps hist bar =
     map (\<lambda>p. newEMAEvent key bar p (of_nat (length hist + 1)) (ema_average p (map bar_Close (hist @ [bar]))) False
           (revisionForBar bar))
       (filter (\<lambda>p. nat p \<le> length hist + 1) ps)"

lemma reduce_loop_ok:
  assumes "\<forall>p \<in> set ps. period_ok p" and "length hist + 1 < 2 ^ 64" and "finite64 (bar_Close bar)"
  shows "reduce_loop key bar (revisionForBar bar) (reducers_of ps hist) =
    Inr (closed_points key ps hist bar, reducers_of ps (hist @ [bar]))"
  using assms(1)
proof (induction ps)
  case (Cons p ps)
  have "EMA_OnClosed (ema_of p (map bar_Close hist)) (bar_Close bar) =
     (Inr (if length hist + 1 < nat p then 0 else ema_average p (map bar_Close (hist @ [bar])), nat p \<le> length hist + 1),
      ema_of p (map bar_Close (hist @ [bar])))"
    using EMA_OnClosed_ema_of [of p "map bar_Close hist" "bar_Close bar"] assms(2,3) Cons.prems by simp
  moreover have "ema_samples (ema_of p (map bar_Close (hist @ [bar]))) = of_nat (length hist + 1)"
    by (simp add: ema_of_def)
  ultimately show ?case using Cons by (auto simp: reducers_of_def closed_points_def)
qed (simp add: reducers_of_def closed_points_def)

lemma validateBar_finite: "validateBar key bar = None \<Longrightarrow> finite64 (bar_Close bar)"
  by (auto simp: validateBar_def finite64_def split: if_splits)

lemma reduceEMAClosed_ok:
  assumes "valid_periods ps" and "length hist + 1 < 2 ^ 64" and "validateBar k bar = None"
  shows "reduceEMAClosed key (reducers_of ps hist) bar (revisionForBar bar) =
    Inr (closed_points key ps hist bar, reducers_of ps (hist @ [bar]))"
  using assms by (simp add: reduceEMAClosed_def sort_reducers_of reduce_loop_ok valid_periods_def validateBar_finite)

subsection \<open>The canonical state\<close>

abbreviation market_after :: "Bar list \<Rightarrow> Market" where
  "market_after \<equiv> market_of DefaultMarketConfig marketHistoryLimit"

text \<open>The lane \<open>l\<close> with the canonical state of the history \<open>hist\<close> (not empty) installed.\<close>

definition canonical :: "Lane \<Rightarrow> Bar list \<Rightarrow> Lane" where
  "canonical l hist = install (reducers_of (ln_periods l) hist) (market_after hist) (Some (last hist))
     (revisionForBar (last hist)) (of_nat (length hist)) l"

text \<open>The invariant of a lane that has processed the closed bars \<open>hist\<close>.\<close>

definition lane_inv :: "Lane \<Rightarrow> Bar list \<Rightarrow> bool" where
  "lane_inv l hist \<longleftrightarrow> valid_periods (ln_periods l) \<and>
     ln_reducers l = reducers_of (ln_periods l) hist \<and>
     market_sim (ln_market l) (market_after hist) \<and>
     ln_lastBar l = (if hist = [] then None else Some (last hist)) \<and>
     (hist \<noteq> [] \<longrightarrow> ln_lastClosedRevision l = revisionForBar (last hist)) \<and>
     ln_closedCount l = of_nat (length hist)"

lemma install_simps [simp]:
  "ln_key (install rs m lb r c l) = ln_key l" "ln_periods (install rs m lb r c l) = ln_periods l"
  "ln_snapshotEvery (install rs m lb r c l) = ln_snapshotEvery l" "ln_publisher (install rs m lb r c l) = ln_publisher l"
  "ln_livePublisher (install rs m lb r c l) = ln_livePublisher l"
  "ln_outboxDelivery (install rs m lb r c l) = ln_outboxDelivery l"
  "ln_reducers (install rs m lb r c l) = rs" "ln_market (install rs m lb r c l) = m"
  "ln_lastBar (install rs m lb r c l) = lb" "ln_lastClosedRevision (install rs m lb r c l) = r"
  "ln_closedCount (install rs m lb r c l) = c"
  by (simp_all add: install_def)

lemma canonical_simps [simp]:
  "ln_key (canonical l hist) = ln_key l" "ln_periods (canonical l hist) = ln_periods l"
  "ln_snapshotEvery (canonical l hist) = ln_snapshotEvery l" "ln_lastBar (canonical l hist) = Some (last hist)"
  "ln_market (canonical l hist) = market_after hist" "ln_reducers (canonical l hist) = reducers_of (ln_periods l) hist"
  by (simp_all add: canonical_def)

lemma canonical_inv: "valid_periods (ln_periods l) \<Longrightarrow> hist \<noteq> [] \<Longrightarrow> lane_inv (canonical l hist) hist"
  by (simp add: lane_inv_def canonical_def)

lemma canonical_canonical [simp]: "canonical (canonical l hist) hist' = canonical l hist'"
  by (simp add: canonical_def install_def)

lemma limit_nonneg: "0 \<le> marketHistoryLimit"
  by (simp add: marketHistoryLimit_def)

lemma NewMarket_default: "NewMarket DefaultMarketConfig marketHistoryLimit = Inr (market_after [])"
  using default_limit by (simp add: marketHistoryLimit_def)

subsection \<open>Closed bars\<close>

text \<open>The successful path up to the commit, on a lane in its invariant.\<close>

lemma prepare_closed_ok:
  assumes "lane_inv l hist" and "length hist + 1 < 2 ^ 64" and "validateBar k bar = None"
    and "market_sim market (market_after hist)"
    and "prepare_closed l (reducers_of (ln_periods l) hist) market bar = Inr (events, snapshots, rs, market', closedCount)"
  shows "rs = reducers_of (ln_periods l) (hist @ [bar])" and "market' = market_after (hist @ [bar])"
    and "closedCount = of_nat (length (hist @ [bar]))"
    and "events = closed_points (ln_key l) (ln_periods l) hist bar @
      [newMarketEvent (ln_key l) bar (mk_state market') (revisionForBar bar) rs]"
proof -
  have v: "valid_periods (ln_periods l)" using assms(1) by (simp add: lane_inv_def)
  note r = reduceEMAClosed_ok [OF v assms(2,3), of "ln_key l"]
  note m = Market_OnClosed_market_of [OF limit_nonneg assms(4), of bar]
  show "rs = reducers_of (ln_periods l) (hist @ [bar])" "market' = market_after (hist @ [bar])"
    "closedCount = of_nat (length (hist @ [bar]))"
    "events = closed_points (ln_key l) (ln_periods l) hist bar @
      [newMarketEvent (ln_key l) bar (mk_state market') (revisionForBar bar) rs]"
    using assms(1,5) by (auto simp: prepare_closed_def r m Let_def lane_inv_def split: if_splits sum.splits)
qed

text \<open>The outcome of a closed bar: refused without effect, ignored, or committed.\<close>

lemma applyClosed_cases:
  assumes "applyClosed ops l w bar = (r, l', w')"
  obtains (refused) e where "r = Inl e" "l' = l" "w' = w"
    | (ignored) "r = Inr ()" "l' = l" "w' = w" "check_cursor l bar = Some (Inr ())" "validateBar (ln_key l) bar = None"
    | (failed) e s where "r = Inl (CommitFailed e)" "l' = l" "w' = w\<lparr>w_store := s\<rparr>"
        "\<exists>events snapshots. CommitClosed ops (w_store w) (ln_key l) bar events snapshots = (Inl e, s)"
    | (committed) rs market events snapshots rs' market' closedCount stored s where
        "bar_Closed bar" "validateBar (ln_key l) bar = None" "check_cursor l bar = None"
        "cloneReducers (ln_periods l) (ln_reducers l) = Inr rs" "Market_Clone (ln_market l) = Inr market"
        "prepare_closed l rs market bar = Inr (events, snapshots, rs', market', closedCount)"
        "CommitClosed ops (w_store w) (ln_key l) bar events snapshots = (Inr stored, s)"
        "l' = install rs' market' (Some bar) (revisionForBar bar) closedCount l"
        "r = Inr () \<or> (\<exists>e. r = Inl (MarkFailed e))"
        "w_store w' = s \<or> (\<exists>cs m. MarkPublished ops s cs = (m, w_store w'))"
proof -
  note d = assms [unfolded applyClosed_def publish_live_def publish_hub_def Let_def]
  show thesis
  proof (cases "bar_Closed bar \<and> validateBar (ln_key l) bar = None \<and> is_ok (cloneReducers (ln_periods l) (ln_reducers l)) \<and>
      is_ok (Market_Clone (ln_market l)) \<and> check_cursor l bar = None")
    case False
    with d show thesis using refused ignored
      by (cases r) (auto simp: is_ok_def split: if_splits option.splits sum.splits)
  next
    case True
    then obtain rs market where ok: "cloneReducers (ln_periods l) (ln_reducers l) = Inr rs" "Market_Clone (ln_market l) = Inr market"
      by (auto simp: is_ok_def split: sum.splits)
    show thesis
    proof (cases "prepare_closed l rs market bar")
      case (Inl e)
      with d True ok show thesis using refused [of e] by auto
    next
      case (Inr x)
      obtain events snapshots rs' market' closedCount where x: "x = (events, snapshots, rs', market', closedCount)"
        by (cases x) auto
      obtain c s where c: "CommitClosed ops (w_store w) (ln_key l) bar events snapshots = (c, s)" by fastforce
      show thesis
      proof (cases c)
        case (Inl e)
        with d True ok Inr x c show thesis using failed [of e s] by auto
      next
        case stored: (Inr stored)
        show thesis
        proof (rule committed [OF _ _ _ ok])
          show "prepare_closed l rs market bar = Inr (events, snapshots, rs', market', closedCount)" using Inr x by simp
          show "CommitClosed ops (w_store w) (ln_key l) bar events snapshots = (Inr stored, s)" using c stored by simp
          show "l' = install rs' market' (Some bar) (revisionForBar bar) closedCount l"
            "r = Inr () \<or> (\<exists>e. r = Inl (MarkFailed e))"
            "w_store w' = s \<or> (\<exists>cs m. MarkPublished ops s cs = (m, w_store w'))"
            using d by (auto simp: True ok Inr x c stored split: if_splits prod.splits sum.splits)
        qed (use True in auto)
      qed
    qed
  qed
qed

lemma market_after_good: "market_good (market_after hist)"
  by (rule market_of_good [OF limit_nonneg])

lemma market_sim_good: "market_sim m m' \<Longrightarrow> market_good m' \<Longrightarrow> market_good m"
  by (simp add: market_sim_def market_good_def)

lemma market_sim_trans: "market_sim a b \<Longrightarrow> market_sim b c \<Longrightarrow> market_sim a c"
  by (simp add: market_sim_def)

text \<open>A committed bar takes the lane to the canonical state of the longer history.\<close>

lemma applyClosed_canonical:
  assumes "applyClosed ops l w bar = (r, l', w')" and "lane_inv l hist" and "length hist + 1 < 2 ^ 64" and "l' \<noteq> l"
  shows "l' = canonical l (hist @ [bar])"
  using assms(1)
proof (cases rule: applyClosed_cases)
  case (committed rs market events snapshots rs' market' closedCount stored s)
  have inv: "valid_periods (ln_periods l)" "ln_reducers l = reducers_of (ln_periods l) hist"
      "market_sim (ln_market l) (market_after hist)"
    using assms(2) by (simp_all add: lane_inv_def)
  have rs: "rs = reducers_of (ln_periods l) hist"
    using cloneReducers_ok [of "ln_periods l" hist rs] committed(4) inv assms(3) by simp
  have "market_sim market (market_after hist)"
    using Market_Clone_sim [OF _ committed(5)] inv(3) market_sim_good market_after_good market_sim_trans by blast
  note p = prepare_closed_ok [OF assms(2,3) committed(2) this committed(6) [unfolded rs]]
  show ?thesis unfolding committed(8) canonical_def p by simp
qed (use assms(4) in simp_all)

lemma applyClosed_inv:
  assumes "applyClosed ops l w bar = (r, l', w')" and "lane_inv l hist" and "length hist + 1 < 2 ^ 64"
  shows "lane_inv l' (if l' = l then hist else hist @ [bar])"
proof (cases "l' = l")
  case False
  then have "l' = canonical l (hist @ [bar])" by (rule applyClosed_canonical [OF assms])
  then show ?thesis using assms(2) False by (simp add: canonical_inv lane_inv_def [of l])
qed (use assms(2) in simp)

subsection \<open>Seeds\<close>

text \<open>The closed bars of an ordered seed without the repetitions of the bar before.\<close>

fun seed_history :: "Bar option \<Rightarrow> Bar list \<Rightarrow> Bar list" where
  "seed_history last_bar [] = []"
| "seed_history last_bar (b # bs) =
     (if \<not> bar_Closed b \<or> (case last_bar of None \<Rightarrow> False | Some lb \<Rightarrow> bar_OpenTime b \<le> bar_OpenTime lb)
      then seed_history last_bar bs else b # seed_history (Some b) bs)"

definition last_of :: "Bar list \<Rightarrow> Bar option" where
  "last_of hist = (if hist = [] then None else Some (last hist))"

lemma last_of_snoc [simp]: "last_of (hist @ [b]) = Some b" "last_of [] = None"
  by (simp_all add: last_of_def)

fun history_points :: "SeriesKey \<Rightarrow> int list \<Rightarrow> Bar list \<Rightarrow> Bar list \<Rightarrow> SignalEvent list" where
  "history_points key ps hist [] = []"
| "history_points key ps hist (b # bs) = closed_points key ps hist b @ history_points key ps (hist @ [b]) bs"

lemma history_points_snoc:
  "history_points key ps hist (bs @ [b]) = history_points key ps hist bs @ closed_points key ps (hist @ bs) b"
  by (induction bs arbitrary: hist) simp_all

definition rebuilt_of :: "SeriesKey \<Rightarrow> int list \<Rightarrow> Bar list \<Rightarrow> rebuilt" where
  "rebuilt_of key ps hist = \<lparr>rb_reducers = reducers_of ps hist, rb_market = market_after hist, rb_lastBar = last_of hist,
     rb_closedCount = of_nat (length hist), rb_points = history_points key ps [] hist\<rparr>"

lemma reduce_bar_ok:
  assumes "valid_periods ps" and "length hist + 1 < 2 ^ 64" and "validateBar key bar = None"
  shows "reduce_bar key (rebuilt_of key ps hist) bar = Inr (rebuilt_of key ps (hist @ [bar]))"
  by (simp add: reduce_bar_def rebuilt_of_def reduceEMAClosed_ok [OF assms] history_points_snoc
      Market_OnClosed_market_of [OF limit_nonneg market_sim_refl])

lemma rebuild_loop_ok:
  assumes "rebuild_loop key (rebuilt_of key ps hist) bars = Inr st" and "valid_periods ps"
    and "length hist + length bars < 2 ^ 64"
  shows "st = rebuilt_of key ps (hist @ seed_history (last_of hist) bars)"
  using assms(1,3)
proof (induction bars arbitrary: hist)
  case (Cons b bs)
  obtain st' where st': "rebuild_step key (rebuilt_of key ps hist) b = Inr st'" "rebuild_loop key st' bs = Inr st"
    using Cons.prems(1) by (auto split: sum.splits)
  consider (skip) "st' = rebuilt_of key ps hist" "seed_history (last_of hist) (b # bs) = seed_history (last_of hist) bs"
    | (take) "st' = rebuilt_of key ps (hist @ [b])" "seed_history (last_of hist) (b # bs) = b # seed_history (Some b) bs"
    using st'(1) reduce_bar_ok [OF assms(2), of hist key b] Cons.prems(2)
    by (auto simp: rebuild_step_def not_less split: if_splits option.splits)
      (auto simp: rebuilt_of_def last_of_def split: if_splits option.splits)
  then show ?case
  proof cases
    case skip
    with Cons.IH [of hist] st'(2) Cons.prems(2) show ?thesis by simp
  next
    case take
    with Cons.IH [of "hist @ [b]"] st'(2) Cons.prems(2) show ?thesis by simp
  qed
qed simp

lemma fresh_rebuilt_ok: "valid_periods ps \<Longrightarrow> fresh_rebuilt ps = Inr (rebuilt_of key ps [])"
  by (simp add: fresh_rebuilt_def newReducers_ok NewMarket_default rebuilt_of_def)

text \<open>The outcome of a rebuild: no effect, a failed transaction, or the canonical state of the seed.\<close>

lemma rebuildSeed_cases:
  assumes "rebuildSeed ops l w bars publishReset = (r, l', w')" and "valid_periods (ln_periods l)" and "length bars < 2 ^ 64"
  obtains (refused) e where "r = Inl e" "l' = l" "w' = w"
    | (failed) e s points snapshots lastBar where "r = Inl (PersistFailed e)" "l' = l" "w' = w\<lparr>w_store := s\<rparr>"
        "RebuildSeries ops (w_store w) (ln_key l) points snapshots lastBar = (Inl e, s)"
    | (rebuilt) hist snapshots committed where "hist = seed_history None bars" "r = Inr ()"
        "l' = (if hist = [] then install (reducers_of (ln_periods l) []) (market_after []) None (ln_lastClosedRevision l) 0 l
               else canonical l hist)"
        "RebuildSeries ops (w_store w) (ln_key l) (rebuild_points (ln_key l) bars publishReset (rebuilt_of (ln_key l) (ln_periods l) hist))
           snapshots (last_of hist) = (Inr committed, w_store w')"
        "reducerSnapshots (reducers_of (ln_periods l) hist) (market_after hist) (last_of hist) = Inr snapshots"
        "w_live w' = w_live w @ (if ln_livePublisher l then committed else [])" "w_hub w' = w_hub w"
proof -
  note d = assms(1) [unfolded rebuildSeed_def publish_live_def Let_def fresh_rebuilt_ok [OF assms(2), of "ln_key l"], simplified]
  show thesis
  proof (cases "rebuild_loop (ln_key l) (rebuilt_of (ln_key l) (ln_periods l) []) bars")
    case (Inl e)
    with d refused [of e] show thesis by auto
  next
    case (Inr st)
    define hist where "hist = seed_history None bars"
    have st: "st = rebuilt_of (ln_key l) (ln_periods l) hist"
      using rebuild_loop_ok [OF Inr assms(2)] assms(3) by (simp add: hist_def)
    show thesis
    proof (cases "reducerSnapshots (rb_reducers st) (rb_market st) (rb_lastBar st)")
      case snap: (Inl e)
      with d Inr refused [of e] show thesis by auto
    next
      case snap: (Inr snapshots)
      obtain c s where c: "RebuildSeries ops (w_store w) (ln_key l) (rebuild_points (ln_key l) bars publishReset st) snapshots (rb_lastBar st) = (c, s)"
        by fastforce
      show thesis
      proof (cases c)
        case err: (Inl e)
        show thesis by (rule failed [OF _ _ _ c [unfolded err]]) (use d in \<open>auto simp: Inr snap c err\<close>)
      next
        case stored: (Inr committed)
        have "w_store w' = s" using d by (auto simp: Inr snap c stored split: if_splits)
        show thesis
        proof (rule rebuilt [OF hist_def, of snapshots committed])
          show "reducerSnapshots (reducers_of (ln_periods l) hist) (market_after hist) (last_of hist) = Inr snapshots"
            using snap by (simp add: st rebuilt_of_def)
          show "r = Inr ()" using d by (simp add: Inr snap c stored)
          show "l' = (if hist = [] then install (reducers_of (ln_periods l) []) (market_after []) None (ln_lastClosedRevision l) 0 l
               else canonical l hist)"
            using d by (auto simp: Inr snap c stored) (auto simp: st rebuilt_of_def canonical_def last_of_def)
          show "RebuildSeries ops (w_store w) (ln_key l) (rebuild_points (ln_key l) bars publishReset
              (rebuilt_of (ln_key l) (ln_periods l) hist)) snapshots (last_of hist) = (Inr committed, w_store w')"
            using c stored \<open>w_store w' = s\<close> by (simp add: st rebuilt_of_def)
          show "w_live w' = w_live w @ (if ln_livePublisher l then committed else [])" "w_hub w' = w_hub w"
            using d by (auto simp: Inr snap c stored split: if_splits)
        qed
      qed
    qed
  qed
qed

lemma rebuildSeed_inv:
  assumes "rebuildSeed ops l w bars publishReset = (Inr (), l', w')" and "valid_periods (ln_periods l)" and "length bars < 2 ^ 64"
  shows "lane_inv l' (seed_history None bars)"
  using assms
proof (cases rule: rebuildSeed_cases)
  case (rebuilt hist snapshots committed)
  then show ?thesis using assms(2) canonical_inv [OF assms(2), of hist] by (auto simp: lane_inv_def)
qed simp_all

subsection \<open>The lane and its store\<close>

lemma barFingerprint_barHash: "barFingerprint = barHash"
  by (rule ext) (simp add: barFingerprint_def barHash_def)

lemma catch_up_cases:
  assumes "applyCatchUpSeed ops l w (bar # bars) = (r, l', w')"
  obtains (skip) "applyCatchUpSeed ops l w bars = (r, l', w')"
    | (conflict) "r = Inl SeedConflictsCurrent" "l' = l" "w' = w"
    | (error) e where "bar_Closed bar" "applyClosed ops l w bar = (Inl e, l', w')" "r = Inl e"
    | (continue) l1 w1 where "bar_Closed bar" "applyClosed ops l w bar = (Inr (), l1, w1)" "applyCatchUpSeed ops l1 w1 bars = (r, l', w')"
proof -
  have "applyCatchUpSeed ops l w bars = (r, l', w') \<or> (r = Inl SeedConflictsCurrent \<and> l' = l \<and> w' = w) \<or>
      (bar_Closed bar \<and> (case applyClosed ops l w bar of
         (Inl e, l1, w1) \<Rightarrow> (Inl e, l1, w1) | (Inr _, l1, w1) \<Rightarrow> applyCatchUpSeed ops l1 w1 bars) = (r, l', w'))"
    using assms by (simp add: Let_def split: if_splits)
  moreover obtain q l1 w1 where "applyClosed ops l w bar = (q, l1, w1)" by (rule prod_cases3)
  ultimately show thesis using skip conflict error continue by (cases q) auto
qed

text \<open>A forming bar publishes at most, and installs at most the projection.\<close>

lemma applyForming_cases:
  assumes "applyForming l w bar = (r, l', w')"
  obtains (refused) e where "r = Inl e" "l' = l" "w_store w' = w_store w"
    | (stale) "r = Inr ()" "l' = l" "w' = w"
    | (formed) rs provisional published where "r = Inr ()" "w_store w' = w_store w"
        "\<not> bar_Closed bar" "validateBar (ln_key l) bar = None"
        "cloneReducers (ln_periods l) (ln_reducers l) = Inr rs"
        "project_loop (ln_key l) bar (revisionForBar bar) rs (ln_periods l) = (Inr provisional, published)"
        "l' = l\<lparr>ln_provisional := provisional, ln_formingTime := Some (bar_OpenTime bar), ln_formingBar := Some bar,
           ln_formingRevision := revisionForBar bar\<rparr>"
proof -
  note d = assms [unfolded applyForming_def publish_hub_def publish_live_def Let_def]
  show thesis
  proof (cases "\<not> bar_Closed bar \<and> validateBar (ln_key l) bar = None \<and> is_ok (cloneReducers (ln_periods l) (ln_reducers l))")
    case False
    with d refused show thesis by (cases r) (auto simp: is_ok_def split: if_splits option.splits sum.splits)
  next
    case True
    then obtain rs where rs: "cloneReducers (ln_periods l) (ln_reducers l) = Inr rs" by (auto simp: is_ok_def split: sum.splits)
    obtain q published where q: "project_loop (ln_key l) bar (revisionForBar bar) rs (ln_periods l) = (q, published)" by fastforce
    show thesis
    proof (cases "case ln_lastBar l of None \<Rightarrow> False | Some b \<Rightarrow> bar_OpenTime bar < bar_OpenTime b")
      case True
      with d \<open>\<not> bar_Closed bar \<and> _\<close> rs stale show thesis by auto
    next
      case False
      show thesis
      proof (cases q)
        case (Inl e)
        show thesis by (rule refused [of e]) (use d False True rs q Inl in auto)
      next
        case (Inr provisional)
        show thesis by (rule formed [OF _ _ _ _ rs q [unfolded Inr]]) (use d False True rs q Inr in auto)
      qed
    qed
  qed
qed

lemma applyForming_frame:
  assumes "applyForming l w bar = (r, l', w')"
  shows "w_store w' = w_store w \<and> ln_key l' = ln_key l \<and> ln_periods l' = ln_periods l \<and> ln_reducers l' = ln_reducers l \<and>
    ln_market l' = ln_market l \<and> ln_lastBar l' = ln_lastBar l \<and> ln_lastClosedRevision l' = ln_lastClosedRevision l \<and>
    ln_closedCount l' = ln_closedCount l"
  using assms by (cases rule: applyForming_cases) simp_all

text \<open>
  What a lane maintains about its store: \<open>tracks key lastBar s\<close> relates the last bar of the lane of \<open>key\<close> to the durable state. A
  success establishes it for the bar that was written, an error and a marking keep it, and a bar found by its recovered cursor
  has it.
\<close>

locale tracked_store =
  fixes ops :: "'s store_ops"
    and tracks :: "SeriesKey \<Rightarrow> Bar option \<Rightarrow> 's \<Rightarrow> bool"
  assumes tracks_none: "tracks key None s"
    and commit_ok: "CommitClosed ops s key bar evs snaps = (Inr committed, s') \<Longrightarrow> tracks key (Some bar) s'"
    and commit_keeps: "CommitClosed ops s key bar evs snaps = (Inl e, s') \<Longrightarrow> tracks key lastBar s \<Longrightarrow> tracks key lastBar s'"
    and rebuild_ok: "RebuildSeries ops s key evs snaps lastBar = (Inr committed, s') \<Longrightarrow> tracks key lastBar s'"
    and rebuild_keeps: "RebuildSeries ops s key evs snaps newBar = (Inl e, s') \<Longrightarrow> tracks key lastBar s \<Longrightarrow> tracks key lastBar s'"
    and mark_keeps: "MarkPublished ops s cs = (m, s') \<Longrightarrow> tracks key lastBar s \<Longrightarrow> tracks key lastBar s'"
    and load_tracks: "LoadRecovery ops s key = Inr recovery \<Longrightarrow> rec_HasCursor recovery \<Longrightarrow>
      bar_OpenTime b = rec_CursorOpenTime recovery \<Longrightarrow> barHash b = rec_CursorHash recovery \<Longrightarrow> tracks key (Some b) s"
begin

definition tracked :: "Lane \<Rightarrow> 's world \<Rightarrow> bool" where
  "tracked l w \<longleftrightarrow> tracks (ln_key l) (ln_lastBar l) (w_store w)"

lemma applyClosed_tracked:
  assumes "applyClosed ops l w bar = (r, l', w')" and "tracked l w"
  shows "tracked l' w' \<and> ln_key l' = ln_key l \<and> ln_periods l' = ln_periods l"
  using assms(1)
proof (cases rule: applyClosed_cases)
  case (failed e s)
  then show ?thesis using assms(2) commit_keeps by (auto simp: tracked_def)
next
  case (committed rs market events snapshots rs' market' closedCount stored s)
  have "tracks (ln_key l) (Some bar) s" by (rule commit_ok [OF committed(7)])
  then have "tracks (ln_key l) (Some bar) (w_store w')" using committed(10) mark_keeps by blast
  then show ?thesis using committed(8) by (simp add: tracked_def)
qed (use assms(2) in auto)

lemma applyCatchUpSeed_tracked:
  "applyCatchUpSeed ops l w bars = (r, l', w') \<Longrightarrow> tracked l w \<Longrightarrow>
     tracked l' w' \<and> ln_key l' = ln_key l \<and> ln_periods l' = ln_periods l"
proof (induction bars arbitrary: l w)
  case (Cons bar bars)
  from Cons.prems(1) show ?case
  proof (cases rule: catch_up_cases)
    case skip
    then show ?thesis using Cons.IH Cons.prems(2) by blast
  next
    case conflict
    then show ?thesis using Cons.prems(2) by simp
  next
    case (error e)
    then show ?thesis using applyClosed_tracked Cons.prems(2) by blast
  next
    case (continue l1 w1)
    then show ?thesis using applyClosed_tracked [OF continue(2) Cons.prems(2)] Cons.IH [OF continue(3)] by simp
  qed
qed simp

lemma rebuildSeed_tracked:
  assumes "rebuildSeed ops l w bars publishReset = (r, l', w')" and "tracked l w" and "valid_periods (ln_periods l)"
    and "length bars < 2 ^ 64"
  shows "tracked l' w' \<and> ln_key l' = ln_key l \<and> ln_periods l' = ln_periods l"
  using assms(1,3,4)
proof (cases rule: rebuildSeed_cases)
  case (failed e s points snapshots lastBar)
  then show ?thesis using assms(2) rebuild_keeps by (auto simp: tracked_def)
next
  case (rebuilt hist snapshots committed)
  have "tracks (ln_key l) (last_of hist) (w_store w')" by (rule rebuild_ok [OF rebuilt(4)])
  then show ?thesis using rebuilt(3) by (cases "hist = []") (simp_all add: tracked_def last_of_def canonical_def tracks_none)
qed (use assms(2) in auto)

end

text \<open>With a series store the last bar of a lane is the durable cursor, by time and hash.\<close>

sublocale series_store \<subseteq> tracking: tracked_store ops "\<lambda>key lastBar s. \<forall>b. lastBar = Some b \<longrightarrow>
    (\<exists>c. cursor s key = Some c \<and> bar_OpenTime c = bar_OpenTime b \<and> barHash c = barHash b)"
proof unfold_locales
  show "\<And>s key bar evs snaps committed s'. CommitClosed ops s key bar evs snaps = (Inr committed, s') \<Longrightarrow>
      \<forall>b. Some bar = Some b \<longrightarrow> (\<exists>c. cursor s' key = Some c \<and> bar_OpenTime c = bar_OpenTime b \<and> barHash c = barHash b)"
    using commit_cursor by blast
  show "\<And>s key evs snaps lastBar committed s'. RebuildSeries ops s key evs snaps lastBar = (Inr committed, s') \<Longrightarrow>
      \<forall>b. lastBar = Some b \<longrightarrow> (\<exists>c. cursor s' key = Some c \<and> bar_OpenTime c = bar_OpenTime b \<and> barHash c = barHash b)"
    using rebuild_cursor by blast
qed (use commit_error rebuild_error mark_cursor load_cursor in fastforce)+

end
