(* ===== verification/Lane_Restart.thy ===== *)
theory Lane_Restart
  imports Lane_Invariant
begin

text \<open>
  Restarting a lane (\<^verbatim>\<open>restoreRecoverySeed\<close>, \<^verbatim>\<open>applySeed\<close> of \<^verbatim>\<open>internal/engine/lane.go\<close>): from the
  checkpoint that a lane saved and a seed that covers the bars since, the lane reaches the
  state it had; and through every command its last bar stays the durable cursor.
\<close>

subsection \<open>The checkpoint of a history\<close>

definition ema_doc :: "Bar list \<Rightarrow> int \<Rightarrow> state_bytes" where
  "ema_doc hist p = (let e = ema_of p (map bar_Close hist)
     in EMADoc \<lparr>es_Period = p, es_Samples = ema_samples e, es_SeedSum = ema_seedSum e, es_Value = ema_value e\<rparr>)"

definition ema_snapshot :: "Bar list \<Rightarrow> int \<Rightarrow> ReducerSnapshot" where
  "ema_snapshot hist p = \<lparr>rs_Algorithm = emaAlgorithm p, rs_Period = p, rs_LastOpenTime = bar_OpenTime (last hist),
     rs_State = ema_doc hist p\<rparr>"

definition market_snapshot :: "Bar list \<Rightarrow> ReducerSnapshot" where
  "market_snapshot hist = \<lparr>rs_Algorithm = MarketAlgorithm DefaultMarketConfig, rs_Period = 0,
     rs_LastOpenTime = bar_OpenTime (last hist),
     rs_State = MarketDoc \<lparr>mks_Version = MarketAlgorithmVersion, mks_Samples = of_nat (length hist),
       mks_Bars = keep_last (nat marketHistoryLimit) hist\<rparr>\<rparr>"

definition savable :: "Bar list \<Rightarrow> int \<Rightarrow> bool" where
  "savable hist p \<longleftrightarrow> finite64 (ema_seedSum (ema_of p (map bar_Close hist))) \<and> finite64 (ema_value (ema_of p (map bar_Close hist)))"

lemma EMA_Snapshot_doc:
  "EMA_Snapshot (ema_of p (map bar_Close hist)) = (if savable hist p then Inr (ema_doc hist p) else Inl EMAEncode)"
  by (simp add: EMA_Snapshot_def savable_def ema_doc_def Let_def)

lemma snapshot_loop_ok:
  assumes "snapshot_loop (bar_OpenTime (last hist)) (reducers_of ps hist) = Inr out"
  shows "out = map (ema_snapshot hist) ps \<and> (\<forall>p \<in> set ps. savable hist p)"
  using assms
proof (induction ps arbitrary: out)
  case (Cons p ps)
  then show ?case
    by (auto simp: reducers_of_def EMA_Snapshot_doc ema_snapshot_def split: if_splits sum.splits)
qed (simp add: reducers_of_def)

text \<open>What a lane saves, when it can be encoded.\<close>

lemma reducerSnapshots_ok:
  assumes "reducerSnapshots (reducers_of ps hist) (market_after hist) (Some (last hist)) = Inr snaps" and "valid_periods ps"
  shows "snaps = map (ema_snapshot hist) ps @ [market_snapshot hist] \<and> (\<forall>p \<in> set ps. savable hist p)"
proof -
  obtain out state where 1: "snapshot_loop (bar_OpenTime (last hist)) (reducers_of ps hist) = Inr out"
      "Market_Snapshot (market_after hist) = Inr state"
      "snaps = out @ [\<lparr>rs_Algorithm = MarketAlgorithm DefaultMarketConfig, rs_Period = 0,
                      rs_LastOpenTime = bar_OpenTime (last hist), rs_State = state\<rparr>]"
    using assms(1) by (auto simp: reducerSnapshots_def sort_reducers_of [OF assms(2)] split: sum.splits)
  then have "state = MarketDoc \<lparr>mks_Version = MarketAlgorithmVersion, mks_Samples = of_nat (length hist),
       mks_Bars = keep_last (nat marketHistoryLimit) hist\<rparr>"
    by (auto simp: Market_Snapshot_def market_of_def split: if_splits)
  with 1 snapshot_loop_ok [OF 1(1)] show ?thesis by (simp add: market_snapshot_def)
qed

lemma EMA_Restore_doc:
  assumes "savable hist p" and "period_ok p" and "length hist < 2 ^ 64" and "ema_period e = p"
  shows "EMA_Restore e (ema_doc hist p) = Inr (ema_of p (map bar_Close hist))"
proof (rule EMA_Restore_Snapshot [of p])
  show "wf_ema p (ema_of p (map bar_Close hist))" using assms by (intro ema_of_wf) (simp_all add: savable_def)
  show "EMA_Snapshot (ema_of p (map bar_Close hist)) = Inr (ema_doc hist p)" using assms(1) by (simp add: EMA_Snapshot_doc)
qed (rule assms(4))

subsection \<open>Loading the stored snapshots\<close>

text \<open>Snapshots of other algorithms or of other periods, which the loop passes over.\<close>

definition foreign :: "int list \<Rightarrow> ReducerSnapshot \<Rightarrow> bool" where
  "foreign ps s \<longleftrightarrow> \<not> (rs_Period s = 0 \<and> rs_Algorithm s = MarketAlgorithm DefaultMarketConfig) \<and>
     (rs_Period s \<notin> set ps \<or> rs_Algorithm s \<noteq> emaAlgorithm (rs_Period s))"

definition loaded_reducers :: "int list \<Rightarrow> Bar list \<Rightarrow> int set \<Rightarrow> reducers" where
  "loaded_reducers ps hist P = map (\<lambda>p. (p, ema_of p (if p \<in> P then map bar_Close hist else []))) ps"

lemma map_of_loaded:
  "map_of (loaded_reducers ps hist P) p = (if p \<in> set ps then Some (ema_of p (if p \<in> P then map bar_Close hist else [])) else None)"
  unfolding loaded_reducers_def by (induction ps) auto

lemma update_loaded:
  assumes "p \<in> set ps" and "distinct ps"
  shows "AList.update p (ema_of p (map bar_Close hist)) (loaded_reducers ps hist P) = loaded_reducers ps hist (insert p P)"
  using assms
proof (induction ps)
  case (Cons q ps)
  show ?case
  proof (cases "q = p")
    case True
    with Cons.prems show ?thesis by (auto simp: loaded_reducers_def)
  next
    case False
    with Cons show ?thesis by (simp add: loaded_reducers_def)
  qed
qed simp

lemma load_loop_ok:
  assumes "valid_periods ps" and "\<forall>p \<in> set ps. savable hist p" and "length hist < 2 ^ 64"
    and "\<forall>s \<in> set snaps. s = market_snapshot hist \<or> (\<exists>p \<in> set ps. s = ema_snapshot hist p) \<or> foreign ps s"
    and "distinct snaps" and "distinct (map fst byPeriod)"
    and "\<forall>p \<in> set ps. ema_snapshot hist p \<in> set snaps \<longrightarrow> p \<notin> fst ` set byPeriod"
    and "\<forall>(p, s) \<in> set byPeriod. p \<in> set ps \<and> s = ema_snapshot hist p"
    and "market = None \<or> market = Some (market_snapshot hist)"
  shows "\<exists>byPeriod' market'. load_loop (loaded_reducers ps hist (fst ` set byPeriod), byPeriod, market) snaps =
      Inr (loaded_reducers ps hist (fst ` set byPeriod'), byPeriod', market') \<and> distinct (map fst byPeriod') \<and>
    (\<forall>(p, s) \<in> set byPeriod'. p \<in> set ps \<and> s = ema_snapshot hist p) \<and>
    fst ` set byPeriod' = fst ` set byPeriod \<union> {p \<in> set ps. ema_snapshot hist p \<in> set snaps} \<and>
    market' = (if market_snapshot hist \<in> set snaps then Some (market_snapshot hist) else market)"
  using assms(4-)
proof (induction snaps arbitrary: byPeriod market)
  case (Cons s snaps)
  have pos: "p \<noteq> 0" "period_ok p" if "p \<in> set ps" for p
    using assms(1) that by (auto simp: valid_periods_def period_ok_def)
  have inj: "ema_snapshot hist p = ema_snapshot hist q \<longleftrightarrow> p = q" "ema_snapshot hist p \<noteq> market_snapshot hist"
    if "p \<in> set ps" for p q
    using pos(1) [OF that] by (auto simp: ema_snapshot_def market_snapshot_def)
  consider (market) "s = market_snapshot hist" | (ema) p where "p \<in> set ps" "s = ema_snapshot hist p" | (foreign) "foreign ps s"
    using Cons.prems(1) by auto
  then show ?case
  proof cases
    case market
    then have "load_snapshot (loaded_reducers ps hist (fst ` set byPeriod), byPeriod, market) s =
        Inr (loaded_reducers ps hist (fst ` set byPeriod), byPeriod, Some (market_snapshot hist))"
      by (simp add: load_snapshot_def market_snapshot_def)
    moreover have "{p \<in> set ps. ema_snapshot hist p \<in> set (s # snaps)} = {p \<in> set ps. ema_snapshot hist p \<in> set snaps}"
      using market inj(2) by auto
    ultimately show ?thesis
      using Cons.IH [of byPeriod "Some (market_snapshot hist)"] Cons.prems market by auto
  next
    case (ema p)
    then have new: "p \<notin> fst ` set byPeriod" using Cons.prems(4) by simp
    have "EMA_Restore (ema_of p []) (ema_doc hist p) = Inr (ema_of p (map bar_Close hist))"
      using assms(2,3) ema(1) pos by (intro EMA_Restore_doc) auto
    then have "load_snapshot (loaded_reducers ps hist (fst ` set byPeriod), byPeriod, market) s =
        Inr (loaded_reducers ps hist (insert p (fst ` set byPeriod)), byPeriod @ [(p, s)], market)"
      using ema new pos(1) [OF ema(1)] assms(1) map_of_eq_None_iff [of byPeriod p]
      by (simp add: load_snapshot_def map_of_loaded valid_periods_def ema_snapshot_def update_loaded update_new)
    moreover have "{q \<in> set ps. ema_snapshot hist q \<in> set (s # snaps)} = insert p {q \<in> set ps. ema_snapshot hist q \<in> set snaps}"
      using ema inj(1) by auto
    moreover have "\<forall>q \<in> set ps. ema_snapshot hist q \<in> set snaps \<longrightarrow> q \<noteq> p" using Cons.prems(2) ema by auto
    ultimately show ?thesis
      using Cons.IH [of "byPeriod @ [(p, s)]" market] Cons.prems ema new inj(2) [OF ema(1)] by auto
  next
    case foreign
    then have "load_snapshot (loaded_reducers ps hist (fst ` set byPeriod), byPeriod, market) s =
        Inr (loaded_reducers ps hist (fst ` set byPeriod), byPeriod, market)"
      by (auto simp: load_snapshot_def foreign_def map_of_loaded)
    moreover have "s \<noteq> market_snapshot hist" "\<forall>p \<in> set ps. s \<noteq> ema_snapshot hist p"
      using foreign by (auto simp: foreign_def market_snapshot_def ema_snapshot_def)
    then have "market_snapshot hist \<in> set (s # snaps) \<longleftrightarrow> market_snapshot hist \<in> set snaps"
      "{p \<in> set ps. ema_snapshot hist p \<in> set (s # snaps)} = {p \<in> set ps. ema_snapshot hist p \<in> set snaps}" by auto
    ultimately show ?thesis using Cons.IH [of byPeriod market] Cons.prems by auto
  qed
qed simp

lemma loaded_reducers_all: "set ps \<subseteq> P \<Longrightarrow> loaded_reducers ps hist P = reducers_of ps hist"
  by (auto simp: loaded_reducers_def reducers_of_def)

lemma loaded_reducers_none: "loaded_reducers ps hist {} = reducers_of ps []"
  by (simp add: loaded_reducers_def reducers_of_def)

lemma checkpoint_ok:
  assumes "valid_periods ps" and "ps \<noteq> []" and "distinct (map fst byPeriod)" and "fst ` set byPeriod = set ps"
    and "\<forall>(p, s) \<in> set byPeriod. p \<in> set ps \<and> s = ema_snapshot hist p" and "bar_OpenTime (last hist) \<le> cursorTime"
  shows "checkpoint ps (reducers_of ps hist) byPeriod cursorTime = Inr (bar_OpenTime (last hist), of_nat (length hist))"
proof -
  have "length byPeriod = card (fst ` set byPeriod)"
    using assms(3) by (metis distinct_card length_map set_map)
  then have len: "length byPeriod = length ps"
    using assms(1,4) by (simp add: valid_periods_def distinct_card)
  have t: "rs_LastOpenTime (the (map_of byPeriod p)) = bar_OpenTime (last hist)" if p: "p \<in> set ps" for p
  proof -
    obtain s where s: "map_of byPeriod p = Some s"
      using p assms(4) map_of_eq_None_iff [of byPeriod p] by (cases "map_of byPeriod p") auto
    then have "s = ema_snapshot hist p" using assms(5) map_of_SomeD [OF s] by blast
    with s show ?thesis by (simp add: ema_snapshot_def)
  qed
  have n: "ema_samples (reducer_at (reducers_of ps hist) p) = of_nat (length hist)" if "p \<in> set ps" for p
    using that by (simp add: reducer_at_reducers_of) (simp add: ema_of_def)
  have "p \<in> set ps" if "p \<in> set (tl ps)" for p using that list.set_sel(2) [OF assms(2)] by simp
  then have "\<not> list_ex (\<lambda>p. rs_LastOpenTime (the (map_of byPeriod p)) \<noteq> bar_OpenTime (last hist) \<or>
      ema_samples (reducer_at (reducers_of ps hist) p) \<noteq> of_nat (length hist)) (tl ps)"
    using t n by (auto simp: list_ex_iff)
  with len t n assms(2,6) show ?thesis by (simp add: checkpoint_def Let_def)
qed

subsection \<open>Replaying the seed\<close>

text \<open>The bars before the checkpoint only feed the market history.\<close>

lemma replay_before:
  assumes "\<forall>b \<in> set pre. bar_OpenTime b < t" and "t \<le> rec_CursorOpenTime recovery"
  shows "replay_loop key t recovery st (pre @ bars) =
    replay_loop key t recovery (st\<lparr>rp_marketBars := rp_marketBars st @ filter bar_Closed pre\<rparr>) bars"
  using assms(1)
proof (induction pre arbitrary: st)
  case (Cons b pre)
  then have "replay_step key t recovery st b = Inr (st\<lparr>rp_marketBars := rp_marketBars st @ filter bar_Closed [b]\<rparr>)"
    using assms(2) by (auto simp: replay_step_def Let_def)
  with Cons show ?case by simp
qed simp

text \<open>The bars from the checkpoint to the cursor are reduced.\<close>

lemma replay_between:
  assumes "valid_periods ps" and "length hist + length bars < 2 ^ 64"
    and "\<forall>b \<in> set bars. bar_Closed b \<and> validateBar key b = None \<and> t < bar_OpenTime b \<and> bar_OpenTime b \<le> rec_CursorOpenTime recovery \<and>
      (bar_OpenTime b = rec_CursorOpenTime recovery \<longrightarrow> barFingerprint b = rec_CursorHash recovery)"
    and "rp_foundSnapshot st" and "rp_reducers st = reducers_of ps hist" and "rp_closedCount st = of_nat (length hist)"
  shows "replay_loop key t recovery st (bars @ tail) = replay_loop key t recovery
    (st\<lparr>rp_reducers := reducers_of ps (hist @ bars), rp_closedCount := of_nat (length (hist @ bars)),
        rp_lastBar := (if bars = [] then rp_lastBar st else Some (last bars)),
        rp_foundCursor := (rp_foundCursor st \<or> (\<exists>b \<in> set bars. bar_OpenTime b = rec_CursorOpenTime recovery)),
        rp_marketBars := rp_marketBars st @ bars\<rparr>) tail"
  using assms(2-)
proof (induction bars arbitrary: hist st)
  case (Cons b bars)
  have b: "bar_Closed b" "validateBar key b = None" "t < bar_OpenTime b" "bar_OpenTime b \<le> rec_CursorOpenTime recovery"
      "bar_OpenTime b = rec_CursorOpenTime recovery \<Longrightarrow> barFingerprint b = rec_CursorHash recovery"
    using Cons.prems(2) by auto
  let ?st = "st\<lparr>rp_reducers := reducers_of ps (hist @ [b]), rp_closedCount := of_nat (length (hist @ [b])),
      rp_lastBar := Some b, rp_foundCursor := (rp_foundCursor st \<or> bar_OpenTime b = rec_CursorOpenTime recovery),
      rp_marketBars := rp_marketBars st @ [b]\<rparr>"
  have r: "reduceEMAClosed key (reducers_of ps hist) b (revisionForBar b) =
      Inr (closed_points key ps hist b, reducers_of ps (hist @ [b]))"
    using Cons.prems(1) b(2) by (intro reduceEMAClosed_ok [OF assms(1)]) auto
  have "replay_step key t recovery st b = Inr ?st"
    using b Cons.prems(3-5) r by (auto simp: replay_step_def replay_reduce_def Let_def)
  moreover have "replay_loop key t recovery ?st (bars @ tail) = replay_loop key t recovery
    (?st\<lparr>rp_reducers := reducers_of ps ((hist @ [b]) @ bars), rp_closedCount := of_nat (length ((hist @ [b]) @ bars)),
        rp_lastBar := (if bars = [] then rp_lastBar ?st else Some (last bars)),
        rp_foundCursor := (rp_foundCursor ?st \<or> (\<exists>b \<in> set bars. bar_OpenTime b = rec_CursorOpenTime recovery)),
        rp_marketBars := rp_marketBars ?st @ bars\<rparr>) tail"
    using Cons.prems by (intro Cons.IH) auto
  ultimately show ?case by (simp add: disj_assoc)
next
  case Nil
  then show ?case by (cases st) simp
qed

text \<open>What lies after the cursor, or is still forming, is left for the catch-up.\<close>

lemma replay_after:
  assumes "\<forall>b \<in> set post. \<not> bar_Closed b \<or> (rec_CursorOpenTime recovery < bar_OpenTime b \<and> validateBar key b = None)"
    and "t \<le> rec_CursorOpenTime recovery"
  shows "replay_loop key t recovery st post = Inr st"
  using assms(1)
proof (induction post)
  case (Cons b post)
  then have "replay_step key t recovery st b = Inr st"
    using assms(2) by (auto simp: replay_step_def replay_reduce_def Let_def)
  with Cons show ?case by simp
qed simp

subsection \<open>A restart\<close>

text \<open>
  What the store gives back after a crash at the history \<open>hist @ rest\<close> with the last checkpoint at
  \<open>hist\<close>: the snapshots in any order, possibly beside foreign ones, and the cursor.
\<close>

definition recovery_of :: "int list \<Rightarrow> Bar list \<Rightarrow> Bar list \<Rightarrow> SeriesRecovery \<Rightarrow> bool" where
  "recovery_of ps hist rest recovery \<longleftrightarrow>
     distinct (rec_Snapshots recovery) \<and> market_snapshot hist \<in> set (rec_Snapshots recovery) \<and>
     (\<forall>p \<in> set ps. ema_snapshot hist p \<in> set (rec_Snapshots recovery)) \<and>
     (\<forall>s \<in> set (rec_Snapshots recovery). s = market_snapshot hist \<or> (\<exists>p \<in> set ps. s = ema_snapshot hist p) \<or> foreign ps s) \<and>
     rec_HasCursor recovery \<and> rec_CursorOpenTime recovery = bar_OpenTime (last (hist @ rest)) \<and>
     rec_CursorHash recovery = barHash (last (hist @ rest))"

text \<open>A seed that covers the checkpoint and everything since, without repetitions.\<close>

definition covering_seed :: "SeriesKey \<Rightarrow> Bar list \<Rightarrow> Bar list \<Rightarrow> Bar list \<Rightarrow> Bar list \<Rightarrow> bool" where
  "covering_seed key hist rest pre post \<longleftrightarrow>
     sorted_wrt (\<lambda>a b. bar_OpenTime a < bar_OpenTime b) (last hist # rest) \<and>
     (\<forall>b \<in> set (last hist # rest). bar_Closed b \<and> validateBar key b = None) \<and>
     (\<forall>b \<in> set pre. bar_OpenTime b < bar_OpenTime (last hist)) \<and>
     (\<forall>b \<in> set post. \<not> bar_Closed b \<or> (bar_OpenTime (last (hist @ rest)) < bar_OpenTime b \<and> validateBar key b = None))"

lemma covering_times:
  assumes "covering_seed key hist rest pre post" and "hist \<noteq> []" and "b \<in> set rest"
  shows "bar_OpenTime (last hist) < bar_OpenTime b" and "bar_OpenTime b \<le> bar_OpenTime (last (hist @ rest))"
    and "bar_OpenTime b = bar_OpenTime (last (hist @ rest)) \<Longrightarrow> b = last (hist @ rest)"
proof -
  have s: "sorted_wrt (\<lambda>a b. bar_OpenTime a < bar_OpenTime b) (last hist # rest)"
    using assms(1) by (simp add: covering_seed_def)
  then show "bar_OpenTime (last hist) < bar_OpenTime b" using assms(3) by simp
  obtain init x where r: "rest = init @ [x]" using assms(3) by (cases rest rule: rev_cases) auto
  then have "b = x \<or> bar_OpenTime b < bar_OpenTime x" using s assms(3) by (auto simp: sorted_wrt_append)
  then show "bar_OpenTime b \<le> bar_OpenTime (last (hist @ rest))"
    "bar_OpenTime b = bar_OpenTime (last (hist @ rest)) \<Longrightarrow> b = last (hist @ rest)" using r by auto
qed

lemma covering_last_le:
  assumes "covering_seed key hist rest pre post" and "hist \<noteq> []"
  shows "bar_OpenTime (last hist) \<le> bar_OpenTime (last (hist @ rest))"
  using covering_times(1) [OF assms, of "last rest"] by (cases "rest = []") auto

lemma replay_covering:
  assumes "valid_periods ps" and "hist \<noteq> []" and "length (hist @ rest) < 2 ^ 64"
    and "covering_seed key hist rest pre post"
    and "rec_CursorOpenTime recovery = bar_OpenTime (last (hist @ rest))" and "rec_CursorHash recovery = barHash (last (hist @ rest))"
  shows "replay_loop key (bar_OpenTime (last hist)) recovery
      \<lparr>rp_reducers = reducers_of ps hist, rp_lastBar = None, rp_closedCount = of_nat (length hist),
       rp_foundSnapshot = False, rp_foundCursor = False, rp_marketBars = []\<rparr> (pre @ last hist # rest @ post) =
    Inr \<lparr>rp_reducers = reducers_of ps (hist @ rest), rp_lastBar = Some (last (hist @ rest)),
       rp_closedCount = of_nat (length (hist @ rest)), rp_foundSnapshot = True, rp_foundCursor = True,
       rp_marketBars = filter bar_Closed pre @ last hist # rest\<rparr>"
proof -
  let ?t = "bar_OpenTime (last hist)" and ?x = "last hist"
  have le: "?t \<le> rec_CursorOpenTime recovery" using covering_last_le [OF assms(4,2)] assms(5) by simp
  have x: "bar_Closed ?x" "validateBar key ?x = None" using assms(4) by (simp_all add: covering_seed_def)
  define st where "st = \<lparr>rp_reducers = reducers_of ps hist, rp_lastBar = Some ?x, rp_closedCount = of_nat (length hist),
    rp_foundSnapshot = True, rp_foundCursor = (rest = []), rp_marketBars = filter bar_Closed pre @ [?x]\<rparr>"
  have "?t = rec_CursorOpenTime recovery \<longleftrightarrow> rest = []"
    using covering_times(1) [OF assms(4,2), of "last rest"] assms(5) by (cases "rest = []") auto
  then have "replay_step key ?t recovery \<lparr>rp_reducers = reducers_of ps hist, rp_lastBar = None,
      rp_closedCount = of_nat (length hist), rp_foundSnapshot = False, rp_foundCursor = False,
      rp_marketBars = filter bar_Closed pre\<rparr> ?x = Inr st"
    using x le assms(5,6) by (auto simp: replay_step_def replay_reduce_def st_def Let_def barFingerprint_barHash)
  then have 1: "replay_loop key ?t recovery \<lparr>rp_reducers = reducers_of ps hist, rp_lastBar = None,
      rp_closedCount = of_nat (length hist), rp_foundSnapshot = False, rp_foundCursor = False, rp_marketBars = []\<rparr>
      (pre @ ?x # rest @ post) = replay_loop key ?t recovery st (rest @ post)"
    using assms(4) le by (subst replay_before) (auto simp: covering_seed_def)
  have 2: "replay_loop key ?t recovery st (rest @ post) = replay_loop key ?t recovery
    (st\<lparr>rp_reducers := reducers_of ps (hist @ rest), rp_closedCount := of_nat (length (hist @ rest)),
        rp_lastBar := (if rest = [] then rp_lastBar st else Some (last rest)),
        rp_foundCursor := (rp_foundCursor st \<or> (\<exists>b \<in> set rest. bar_OpenTime b = rec_CursorOpenTime recovery)),
        rp_marketBars := rp_marketBars st @ rest\<rparr>) post"
    using assms(3,4,5,6) covering_times [OF assms(4,2)]
    by (intro replay_between [OF assms(1)]) (auto simp: covering_seed_def st_def barFingerprint_barHash)
  have 3: "replay_loop key ?t recovery st' post = Inr st'" for st'
    using assms(4,5) le by (intro replay_after) (auto simp: covering_seed_def)
  have "rest = [] \<or> (\<exists>b \<in> set rest. bar_OpenTime b = rec_CursorOpenTime recovery)"
    using assms(5) by (cases "rest = []") (auto intro: bexI [of _ "last rest"])
  with 1 2 3 show ?thesis by (auto simp: st_def)
qed

lemma recover_market_ok:
  assumes "covering_seed key hist rest pre post" and "hist \<noteq> []"
  shows "\<exists>m. recover_market (market_after []) (Some (market_snapshot hist)) (bar_OpenTime (last (hist @ rest)))
      (filter bar_Closed pre @ last hist # rest) = Inr m \<and>
    market_sim m (market_after (hist @ rest)) \<and> (rest \<noteq> [] \<longrightarrow> m = market_after (hist @ rest))"
proof -
  obtain m where m: "Market_Restore (market_after []) (rs_State (market_snapshot hist)) = Inr m" "market_sim m (market_after hist)"
    by (simp add: Market_Restore_def market_snapshot_def market_of_def market_sim_def allZones_market_state_of marketHistoryLimit_def)
  have f: "filter (\<lambda>b. rs_LastOpenTime (market_snapshot hist) < bar_OpenTime b) (filter bar_Closed pre @ last hist # rest) = rest"
    using assms(1) covering_times(1) [OF assms]
    by (auto simp: market_snapshot_def covering_seed_def filter_empty_conv filter_id_conv)
  have "foldl Market_OnClosed m rest = market_after (hist @ rest)" if "rest \<noteq> []"
  proof -
    obtain b bs where "rest = b # bs" using \<open>rest \<noteq> []\<close> by (cases rest) auto
    then show ?thesis
      using Market_OnClosed_market_of [OF limit_nonneg m(2), of b] Market_OnClosed_fold [OF limit_nonneg, of _ "hist @ [b]" bs] by simp
  qed
  with m f covering_last_le [OF assms] show ?thesis
    by (cases "rest = []") (auto simp: recover_market_def market_snapshot_def)
qed

theorem restoreRecoverySeed_ok:
  assumes "valid_periods (ln_periods l)" and "ln_periods l \<noteq> []" and "hist \<noteq> []" and "length (hist @ rest) < 2 ^ 64"
    and "\<forall>p \<in> set (ln_periods l). savable hist p" and "recovery_of (ln_periods l) hist rest recovery"
    and "covering_seed (ln_key l) hist rest pre post"
  shows "\<exists>m. restoreRecoverySeed l recovery (pre @ last hist # rest @ post) =
      Inr (install (reducers_of (ln_periods l) (hist @ rest)) m (Some (last (hist @ rest)))
        (revisionForBar (last (hist @ rest))) (of_nat (length (hist @ rest))) l) \<and>
    market_sim m (market_after (hist @ rest)) \<and> (rest \<noteq> [] \<longrightarrow> m = market_after (hist @ rest))"
proof -
  let ?ps = "ln_periods l"
  have all: "{p \<in> set ?ps. ema_snapshot hist p \<in> set (rec_Snapshots recovery)} = set ?ps"
    using assms(6) by (auto simp: recovery_of_def)
  obtain byPeriod where load: "load_loop (reducers_of ?ps [], [], None) (rec_Snapshots recovery) =
      Inr (loaded_reducers ?ps hist (fst ` set byPeriod), byPeriod, Some (market_snapshot hist))"
      "distinct (map fst byPeriod)" "\<forall>(p, s) \<in> set byPeriod. p \<in> set ?ps \<and> s = ema_snapshot hist p"
      "fst ` set byPeriod = set ?ps"
    using load_loop_ok [OF assms(1,5), of "rec_Snapshots recovery" "[]" None] assms(4,6)
    by (auto simp: recovery_of_def loaded_reducers_none all)
  have cursor: "rec_CursorOpenTime recovery = bar_OpenTime (last (hist @ rest))" "rec_CursorHash recovery = barHash (last (hist @ rest))"
    using assms(6) by (simp_all add: recovery_of_def)
  have rs: "loaded_reducers ?ps hist (fst ` set byPeriod) = reducers_of ?ps hist"
    using load(4) by (simp add: loaded_reducers_all)
  have cp: "checkpoint ?ps (reducers_of ?ps hist) byPeriod (rec_CursorOpenTime recovery) =
      Inr (bar_OpenTime (last hist), of_nat (length hist))"
    using covering_last_le [OF assms(7,3)] cursor(1) by (intro checkpoint_ok [OF assms(1,2) load(2,4,3)]) simp
  obtain m where m: "recover_market (market_after []) (Some (market_snapshot hist)) (bar_OpenTime (last (hist @ rest)))
      (filter bar_Closed pre @ last hist # rest) = Inr m"
      "market_sim m (market_after (hist @ rest))" "rest \<noteq> [] \<longrightarrow> m = market_after (hist @ rest)"
    using recover_market_ok [OF assms(7,3)] by blast
  have fresh: "fresh_rebuilt ?ps = Inr (rebuilt_of (ln_key l) ?ps [])" by (rule fresh_rebuilt_ok [OF assms(1)])
  show ?thesis
    unfolding restoreRecoverySeed_def fresh
    using load(1) rs cp replay_covering [OF assms(1,3,4,7) cursor] m
    by (intro exI [of _ m]) (simp add: rebuilt_of_def cursor(1))
qed

subsection \<open>The lane and its store through seeds\<close>

text \<open>On an ordered seed, the last bar replayed is the one at the durable cursor.\<close>

lemma replay_loop_cursor:
  assumes "replay_loop key t recovery st bars = Inr st'" and "sorted (map bar_OpenTime bars)" and "t \<le> rec_CursorOpenTime recovery"
    and "rp_foundCursor st \<longrightarrow> (\<forall>b \<in> set bars. rec_CursorOpenTime recovery \<le> bar_OpenTime b) \<and>
      (\<exists>b. rp_lastBar st = Some b \<and> bar_OpenTime b = rec_CursorOpenTime recovery \<and> barFingerprint b = rec_CursorHash recovery)"
  shows "rp_foundCursor st' \<longrightarrow>
    (\<exists>b. rp_lastBar st' = Some b \<and> bar_OpenTime b = rec_CursorOpenTime recovery \<and> barFingerprint b = rec_CursorHash recovery)"
  using assms(1,2,4)
proof (induction bars arbitrary: st)
  case (Cons b bars)
  obtain st1 where st1: "replay_step key t recovery st b = Inr st1" "replay_loop key t recovery st1 bars = Inr st'"
    using Cons.prems(1) by (auto split: sum.splits)
  have "rp_foundCursor st1 \<longrightarrow> (\<forall>b \<in> set bars. rec_CursorOpenTime recovery \<le> bar_OpenTime b) \<and>
      (\<exists>b. rp_lastBar st1 = Some b \<and> bar_OpenTime b = rec_CursorOpenTime recovery \<and> barFingerprint b = rec_CursorHash recovery)"
    using st1(1) Cons.prems(2,3) assms(3)
    by (auto simp: replay_step_def replay_reduce_def Let_def split: if_splits option.splits sum.splits prod.splits)
  with Cons.IH [OF st1(2)] Cons.prems(2) show ?case by simp
qed simp

lemma checkpoint_time: "checkpoint ps rs byPeriod cursorTime = Inr (t, n) \<Longrightarrow> t \<le> cursorTime"
  by (auto simp: checkpoint_def Let_def not_less split: if_splits)

lemma restoreRecoverySeed_cursor:
  assumes "restoreRecoverySeed l recovery bars = Inr l'" and "sorted (map bar_OpenTime bars)"
  shows "\<exists>b. ln_lastBar l' = Some b \<and> bar_OpenTime b = rec_CursorOpenTime recovery \<and> barHash b = rec_CursorHash recovery"
    and "ln_key l' = ln_key l" and "ln_periods l' = ln_periods l"
proof -
  obtain st0 rs byPeriod market t n st lastBar m where s:
      "checkpoint (ln_periods l) rs byPeriod (rec_CursorOpenTime recovery) = Inr (t, n)"
      "replay_loop (ln_key l) t recovery \<lparr>rp_reducers = rs, rp_lastBar = None, rp_closedCount = n, rp_foundSnapshot = False,
         rp_foundCursor = False, rp_marketBars = []\<rparr> bars = Inr st"
      "rp_lastBar st = Some lastBar" "rp_foundCursor st"
      "l' = install (rp_reducers st) m (Some lastBar) (revisionForBar lastBar) (rp_closedCount st) l"
    using assms(1) by (auto simp: restoreRecoverySeed_def split: sum.splits prod.splits option.splits if_splits)
  from replay_loop_cursor [OF s(2) assms(2) checkpoint_time [OF s(1)]] s(3,4)
  have "bar_OpenTime lastBar = rec_CursorOpenTime recovery \<and> barHash lastBar = rec_CursorHash recovery"
    by (simp add: barFingerprint_barHash)
  then show "\<exists>b. ln_lastBar l' = Some b \<and> bar_OpenTime b = rec_CursorOpenTime recovery \<and> barHash b = rec_CursorHash recovery"
    "ln_key l' = ln_key l" "ln_periods l' = ln_periods l"
    using s(5) by simp_all
qed

context tracked_store
begin

lemma applySeed_tracked:
  assumes "applySeed ops l w bars = (r, l', w')" and "tracked l w" and "valid_periods (ln_periods l)" and "length bars < 2 ^ 64"
  shows "tracked l' w' \<and> ln_key l' = ln_key l \<and> ln_periods l' = ln_periods l"
proof -
  define seed where "seed = sort_key bar_OpenTime bars"
  have seed: "length seed < 2 ^ 64" "sorted (map bar_OpenTime seed)" using assms(4) by (simp_all add: seed_def)
  note d = assms(1) [unfolded applySeed_def Let_def, folded seed_def]
  note rebuild = rebuildSeed_tracked [OF _ _ _ seed(1)]
  show ?thesis
  proof (cases "ln_lastBar l")
    case (Some b)
    obtain q l1 w1 where q: "applyCatchUpSeed ops l w seed = (q, l1, w1)" by (rule prod_cases3)
    have "tracked l1 w1 \<and> ln_key l1 = ln_key l \<and> ln_periods l1 = ln_periods l"
      by (rule applyCatchUpSeed_tracked [OF q assms(2)])
    then show ?thesis
      using d Some q rebuild [of l w True r l' w'] rebuild [of l1 w1 True r l' w'] assms(2,3)
      by (cases q) (auto split: if_splits)
  next
    case None
    show ?thesis
    proof (cases "LoadRecovery ops (w_store w) (ln_key l)")
      case (Inl e)
      with d None assms(2) show ?thesis by auto
    next
      case (Inr recovery)
      show ?thesis
      proof (cases "rec_HasCursor recovery \<and> is_ok (restoreRecoverySeed l recovery seed)")
        case True
        then obtain l1 where l1: "restoreRecoverySeed l recovery seed = Inr l1" by (auto simp: is_ok_def split: sum.splits)
        note k = restoreRecoverySeed_cursor [OF l1 seed(2)]
        have "tracked l1 w" using k load_tracks [OF Inr] True by (auto simp: tracked_def)
        moreover have "applyCatchUpSeed ops l1 w seed = (r, l', w')" using d None Inr True l1 by simp
        ultimately show ?thesis using applyCatchUpSeed_tracked k(2,3) by metis
      next
        case False
        then have "\<exists>reset. rebuildSeed ops l w seed reset = (r, l', w')"
          using d None Inr by (auto simp: is_ok_def split: if_splits sum.splits)
        then show ?thesis using rebuild assms(2,3) by blast
      qed
    qed
  qed
qed

lemma dispatch_tracked:
  assumes "dispatch ops l w cmd = (r, l', w')" and "tracked l w" and "valid_periods (ln_periods l)"
    and "\<And>bars. cmd = commandSeed bars \<Longrightarrow> length bars < 2 ^ 64"
  shows "tracked l' w' \<and> ln_key l' = ln_key l \<and> ln_periods l' = ln_periods l"
proof -
  obtain l1 e where l1: "(case cmd of commandSeed bars \<Rightarrow> applySeed ops l w bars | commandClosed bar \<Rightarrow> applyClosed ops l w bar
        | commandForming bar \<Rightarrow> applyForming l w bar) = (r, l1, w')" "l' = l1\<lparr>ln_lastErr := e\<rparr>"
    using assms(1) by (auto simp: dispatch_def Let_def split: prod.splits)
  have "tracked l1 w' \<and> ln_key l1 = ln_key l \<and> ln_periods l1 = ln_periods l"
  proof (cases cmd)
    case (commandSeed bars)
    then show ?thesis using l1(1) applySeed_tracked [OF _ assms(2,3), of bars] assms(4) by simp
  next
    case (commandClosed bar)
    then show ?thesis using l1(1) applyClosed_tracked [OF _ assms(2), of bar] by simp
  next
    case (commandForming bar)
    then have "applyForming l w bar = (r, l1, w')" using l1(1) by simp
    from applyForming_frame [OF this] show ?thesis using assms(2) by (simp add: tracked_def)
  qed
  then show ?thesis by (auto simp: l1(2) tracked_def)
qed

end

end
