(* ===== verification/Actor.thy ===== *)
theory Actor
  imports Lane_Restart
begin

text \<open>
  The mailbox of a lane (\<^verbatim>\<open>submit\<close> and \<^verbatim>\<open>Run\<close> of \<^verbatim>\<open>internal/engine/lane.go\<close>) as a step relation.
  A submission waits until the bounded channel has room; the single \<^verbatim>\<open>Run\<close> loop takes one
  command at a time, handles it to the end and answers on the command's own buffered channel,
  also when the submitter has given up waiting; a cancelled context ends the loop. Commands are
  numbered in the order in which the channel accepts them (\<open>ac_submitted\<close> records them). This is the lane between its commands:
  a command is one step. The theory \<open>Lane_Steps\<close> takes the handlers apart into their calls, shows that they do together what
  this step does, and says what a reader sees in between.
\<close>

record 's actor =
  ac_lane :: Lane
  ac_world :: "'s world"
  ac_mailbox :: "command list"
  ac_replies :: "(lane_error, unit) result list"
  ac_submitted :: "command list"
  ac_stopped :: bool

inductive actor_step :: "'s store_ops \<Rightarrow> 's actor \<Rightarrow> 's actor \<Rightarrow> bool" for ops where
  submit: "int (length (ac_mailbox a)) < ln_mailboxSize (ac_lane a) \<Longrightarrow>
    actor_step ops a (a\<lparr>ac_mailbox := ac_mailbox a @ [cmd], ac_submitted := ac_submitted a @ [cmd]\<rparr>)"
| handle: "\<not> ac_stopped a \<Longrightarrow> ac_mailbox a = cmd # rest \<Longrightarrow> dispatch ops (ac_lane a) (ac_world a) cmd = (r, l, w) \<Longrightarrow>
    actor_step ops a (a\<lparr>ac_lane := l, ac_world := w, ac_mailbox := rest, ac_replies := ac_replies a @ [r]\<rparr>)"
| stop: "actor_step ops a (a\<lparr>ac_stopped := True\<rparr>)"

definition start_actor :: "Lane \<Rightarrow> 's world \<Rightarrow> 's actor" where
  "start_actor l w = \<lparr>ac_lane = l, ac_world = w, ac_mailbox = [], ac_replies = [], ac_submitted = [], ac_stopped = False\<rparr>"

text \<open>The reference: the commands handled one after the other.\<close>

fun process :: "'s store_ops \<Rightarrow> Lane \<Rightarrow> 's world \<Rightarrow> command list \<Rightarrow> (lane_error, unit) result list \<times> Lane \<times> 's world" where
  "process ops l w [] = ([], l, w)"
| "process ops l w (cmd # cmds) =
     (let (r, l', w') = dispatch ops l w cmd; (rs, l'', w'') = process ops l' w' cmds in (r # rs, l'', w''))"

lemma process_snoc:
  "process ops l w (cmds @ [cmd]) =
     (let (rs, l', w') = process ops l w cmds; (r, l'', w'') = dispatch ops l' w' cmd in (rs @ [r], l'', w''))"
  by (induction cmds arbitrary: l w) (auto simp: Let_def split: prod.splits)

subsection \<open>What the handlers keep of the lane\<close>

definition lane_setup :: "Lane \<Rightarrow> SeriesKey \<times> int list \<times> int" where
  "lane_setup l = (ln_key l, ln_periods l, ln_mailboxSize l)"

lemma handler_setup:
  "applyClosed ops l w bar = (r, l', w') \<Longrightarrow> lane_setup l' = lane_setup l"
  by (elim applyClosed_cases) (simp_all add: install_def lane_setup_def)

lemma applyForming_setup: "applyForming l w bar = (r, l', w') \<Longrightarrow> lane_setup l' = lane_setup l"
  by (elim applyForming_cases) (simp_all add: lane_setup_def)

lemma catch_up_setup: "applyCatchUpSeed ops l w bars = (r, l', w') \<Longrightarrow> lane_setup l' = lane_setup l"
proof (induction bars arbitrary: l w)
  case (Cons bar bars)
  from Cons.prems show ?case by (cases rule: catch_up_cases) (use Cons.IH handler_setup in \<open>metis+\<close>)
qed simp

lemma rebuildSeed_setup: "rebuildSeed ops l w bars reset = (r, l', w') \<Longrightarrow> lane_setup l' = lane_setup l"
  by (auto simp: rebuildSeed_def install_def lane_setup_def Let_def split: sum.splits prod.splits)

lemma restoreRecoverySeed_setup: "restoreRecoverySeed l recovery bars = Inr l' \<Longrightarrow> lane_setup l' = lane_setup l"
  by (auto simp: restoreRecoverySeed_def install_def lane_setup_def split: sum.splits prod.splits option.splits if_splits)

lemma applySeed_setup:
  assumes "applySeed ops l w bars = (r, l', w')"
  shows "lane_setup l' = lane_setup l"
  using assms
  by (auto simp: applySeed_def Let_def dest!: rebuildSeed_setup catch_up_setup restoreRecoverySeed_setup
      split: if_splits sum.splits prod.splits)

lemma lane_setup_lastErr [simp]: "lane_setup (l\<lparr>ln_lastErr := e\<rparr>) = lane_setup l"
  by (simp add: lane_setup_def)

lemma dispatch_setup:
  assumes "dispatch ops l w cmd = (r, l', w')"
  shows "lane_setup l' = lane_setup l"
  using assms
  by (auto simp: dispatch_def Let_def split: command.splits prod.splits
      dest!: applySeed_setup handler_setup applyForming_setup)

lemma dispatch_mailbox: "dispatch ops l w cmd = (r, l', w') \<Longrightarrow> ln_mailboxSize l' = ln_mailboxSize l"
  by (drule dispatch_setup) (simp add: lane_setup_def)

subsection \<open>Sequential consistency\<close>

definition actor_inv :: "'s store_ops \<Rightarrow> Lane \<Rightarrow> 's world \<Rightarrow> 's actor \<Rightarrow> bool" where
  "actor_inv ops l0 w0 a \<longleftrightarrow> length (ac_replies a) \<le> length (ac_submitted a) \<and>
     ac_mailbox a = drop (length (ac_replies a)) (ac_submitted a) \<and>
     process ops l0 w0 (take (length (ac_replies a)) (ac_submitted a)) = (ac_replies a, ac_lane a, ac_world a) \<and>
     ln_mailboxSize (ac_lane a) = ln_mailboxSize l0 \<and> int (length (ac_mailbox a)) \<le> max 0 (ln_mailboxSize l0)"

lemma actor_step_inv: "actor_step ops a b \<Longrightarrow> actor_inv ops l0 w0 a \<Longrightarrow> actor_inv ops l0 w0 b"
proof (induction rule: actor_step.induct)
  case (submit a cmd)
  then show ?case by (simp add: actor_inv_def)
next
  case (handle a cmd rest r l w)
  let ?n = "length (ac_replies a)"
  have n: "?n < length (ac_submitted a)" and c: "ac_submitted a ! ?n = cmd" and rest: "rest = drop (Suc ?n) (ac_submitted a)"
    using handle(2,4) by (auto simp: actor_inv_def) (metis drop_all list.distinct(1) not_le, metis nth_via_drop, metis drop_Suc list.sel(3) tl_drop)
  then have "take (Suc ?n) (ac_submitted a) = take ?n (ac_submitted a) @ [cmd]" by (simp add: take_Suc_conv_app_nth)
  then have "process ops l0 w0 (take (Suc ?n) (ac_submitted a)) = (ac_replies a @ [r], l, w)"
    using handle(3,4) by (simp add: process_snoc actor_inv_def)
  with handle n rest dispatch_mailbox [OF handle(3)] show ?case by (auto simp: actor_inv_def)
next
  case (stop a)
  then show ?case by (auto simp: actor_inv_def)
qed

lemma start_actor_inv: "actor_inv ops l w (start_actor l w)"
  by (simp add: actor_inv_def start_actor_def)

interpretation actor: transition_system "\<lambda>a. a = start_actor l w" "actor_step ops" "actor_inv ops l w" for ops l w
  by unfold_locales (use start_actor_inv actor_step_inv in blast)+

text \<open>The sequence of commands handled so far, seen from the store's contract.\<close>

definition sane_seed :: "command \<Rightarrow> bool" where
  "sane_seed cmd \<longleftrightarrow> (case cmd of commandSeed bars \<Rightarrow> length bars < 2 ^ 64 | _ \<Rightarrow> True)"

context tracked_store
begin

lemma process_tracked:
  assumes "process ops l w cmds = (rs, l', w')" and "tracked l w" and "valid_periods (ln_periods l)" and "list_all sane_seed cmds"
  shows "tracked l' w' \<and> ln_key l' = ln_key l \<and> ln_periods l' = ln_periods l"
  using assms
proof (induction cmds arbitrary: l w rs)
  case (Cons cmd cmds)
  obtain r l1 w1 where 1: "dispatch ops l w cmd = (r, l1, w1)" by (rule prod_cases3)
  obtain rs2 where 2: "process ops l1 w1 cmds = (rs2, l', w')"
    using Cons.prems(1) 1 by (auto simp: Let_def split: prod.splits)
  have "tracked l1 w1 \<and> ln_key l1 = ln_key l \<and> ln_periods l1 = ln_periods l"
    using Cons.prems(2-4) by (intro dispatch_tracked [OF 1]) (auto simp: sane_seed_def)
  with Cons.IH [OF 2] Cons.prems(3,4) show ?case by simp
qed simp

end

end
