(* ===== verification/Lane_Properties.thy ===== *)
theory Lane_Properties
  imports Actor
begin

text \<open>
  The properties of a lane, stated on the handlers of theories \<^verbatim>\<open>Lane\<close>, \<^verbatim>\<open>Lane_Recovery\<close> and
  \<^verbatim>\<open>Actor\<close> and proved from the invariant, the restart lemmas and the contract of the store.
\<close>

subsection \<open>Construction\<close>

lemma periods_valid_distinct:
  assumes "sorted ps" and "periods_valid ps"
  shows "distinct ps \<and> (\<forall>p \<in> set ps. 0 < p)"
  using assms
proof (induction ps rule: periods_valid.induct)
  case (3 p q ps)
  then have "p < q" by auto
  with 3 show ?case by auto
qed auto

lemma NewLane_periods:
  assumes "NewLane opts = Inr l" and "\<forall>p \<in> set (lo_Periods opts). p < 2 ^ 63"
  shows "valid_periods (ln_periods l) \<and> ln_periods l = sort (lo_Periods opts) \<and> lo_Periods opts \<noteq> []"
proof -
  have "periods_valid (sort (lo_Periods opts))" "ln_periods l = sort (lo_Periods opts)" "lo_Periods opts \<noteq> []"
    using assms(1) by (auto simp: NewLane_def Let_def split: if_splits sum.splits)
  with periods_valid_distinct [of "sort (lo_Periods opts)"] assms(2) show ?thesis
    by (auto simp: valid_periods_def period_ok_def int_one_le_iff_zero_less)
qed

lemma NewLane_inv:
  assumes "NewLane opts = Inr l" and "\<forall>p \<in> set (lo_Periods opts). p < 2 ^ 63"
  shows "lane_inv l [] \<and> ln_lastBar l = None"
proof -
  have v: "valid_periods (ln_periods l)" "ln_periods l = sort (lo_Periods opts)" using NewLane_periods [OF assms] by auto
  with assms(1) newReducers_ok [of "sort (lo_Periods opts)"] NewMarket_default show ?thesis
    by (auto simp: NewLane_def lane_inv_def Let_def split: if_splits sum.splits)
qed

subsection \<open>Projections\<close>

definition projected :: "int list \<Rightarrow> Bar list \<Rightarrow> Bar \<Rightarrow> (int \<times> f64) list" where
  "projected ps hist bar = map (\<lambda>p. (p, ema_average p (map bar_Close (hist @ [bar])))) (filter (\<lambda>p. nat p \<le> length hist + 1) ps)"

lemma project_loop_ok:
  assumes "set qs \<subseteq> set ps" and "\<forall>p \<in> set ps. period_ok p" and "length hist + 1 < 2 ^ 64" and "finite64 (bar_Close bar)"
  shows "fst (project_loop key bar revision (reducers_of ps hist) qs) = Inr (projected qs hist bar)"
  using assms(1)
proof (induction qs)
  case (Cons q qs)
  have "EMA_OnClosed (ema_of q (map bar_Close hist)) (bar_Close bar) =
     (Inr (if length hist + 1 < nat q then 0 else ema_average q (map bar_Close (hist @ [bar])), nat q \<le> length hist + 1),
      ema_of q (map bar_Close (hist @ [bar])))"
    using EMA_OnClosed_ema_of [of q "map bar_Close hist" "bar_Close bar"] assms(2-4) Cons.prems by auto
  moreover have "reducer_at (reducers_of ps hist) q = ema_of q (map bar_Close hist)"
    using Cons.prems by (simp add: reducer_at_reducers_of)
  ultimately show ?case
    using Cons by (auto simp: EMA_Project_def Let_def projected_def split: prod.splits sum.splits)
qed (simp add: projected_def)

subsection \<open>A sample lane\<close>

definition sample_options :: LaneOptions where
  "sample_options = \<lparr>lo_Key = sample_key, lo_Periods = [2], lo_MailboxSize = 4, lo_SnapshotEvery = 100, lo_Store = True,
     lo_Publisher = False, lo_LivePublisher = True, lo_OutboxDelivery = True\<rparr>"

definition sample_lane :: Lane where
  "sample_lane = (case NewLane sample_options of Inr l \<Rightarrow> l)"

definition sample_world :: "Memory world" where
  "sample_world = \<lparr>w_store = NewMemory, w_hub = [], w_live = []\<rparr>"

lemma atoi_one: "atoi ''1'' = Some 1"
  by code_simp

lemma sample_timeframe: "TimeframeDuration ''1m'' = Inr minute"
  by (simp add: TimeframeDuration_def atoi_one minute_def second_def nanos_def)

lemma sample_lane_new: "NewLane sample_options = Inr sample_lane"
  by (simp add: sample_lane_def NewLane_def sample_options_def sample_key_def sample_timeframe newReducers_def NewEMA_def
      NewMarket_default)

lemma sample_lane_inv: "lane_inv sample_lane []"
  using NewLane_inv [OF sample_lane_new] by (simp add: sample_options_def)

lemma sample_bar_valid: "validateBar sample_key (sample_bar t 3) = None \<longleftrightarrow> t * minute \<noteq> zero_time"
  by (simp add: validateBar_def sample_key_def sample_bar_def of_int64_def f64_ops)

lemma sample_lane_fields [simp]:
  "ln_key sample_lane = sample_key" "ln_periods sample_lane = [2]" "ln_reducers sample_lane = reducers_of [2] []"
  "ln_lastBar sample_lane = None" "ln_market sample_lane = market_after []" "ln_closedCount sample_lane = 0"
  "ln_snapshotEvery sample_lane = 100" "ln_livePublisher sample_lane" "\<not> ln_publisher sample_lane" "ln_mailboxSize sample_lane = 4"
  using sample_lane_inv NewLane_inv [OF sample_lane_new]
  by (simp_all add: sample_lane_def NewLane_def sample_options_def sample_key_def sample_timeframe newReducers_def NewEMA_def
      NewMarket_default lane_inv_def Let_def)

lemma sample_valid_periods: "valid_periods [2]"
  by (simp add: valid_periods_def period_ok_def)

lemma sample_clone: "cloneReducers [2] (reducers_of [2] []) = Inr (reducers_of [2] [])"
proof -
  have "is_ok (cloneReducers [2] (reducers_of [2] []))"
    by (simp add: cloneReducers_def newReducers_ok [OF sample_valid_periods] reducer_at_reducers_of)
      (simp add: EMA_Snapshot_def EMA_Restore_def ema_of_def seed_sum_def zero_f64_def feq_def reducer_at_reducers_of)
  then obtain rs where "cloneReducers [2] (reducers_of [2] []) = Inr rs" by (auto simp: is_ok_def split: sum.splits)
  with cloneReducers_ok [OF this sample_valid_periods] show ?thesis by simp
qed

lemma sample_market_clone: "\<exists>m. Market_Clone (market_after []) = Inr m"
  using default_limit
  by (simp add: Market_Clone_def market_of_def Market_Snapshot_def Market_Restore_def marketHistoryLimit_def)

lemma minute_pos: "0 < minute" "minute = 60000000000"
  by (simp_all add: minute_def second_def nanos_def)

text \<open>The first closed bar is accepted.\<close>

text \<open>The first bar of the sample lane, over any store that accepts its one event.\<close>

definition sample_first_event :: SignalEvent where
  "sample_first_event = newMarketEvent sample_key (sample_bar 1 3) (mk_state (market_after [sample_bar 1 3])) 1 (reducers_of [2] [sample_bar 1 3])"

lemma sample_prepared:
  obtains m where "bar_Closed (sample_bar 1 3)" "validateBar sample_key (sample_bar 1 3) = None" "Market_Clone (market_after []) = Inr m"
    "prepare_closed sample_lane (reducers_of [2] []) m (sample_bar 1 3) =
       Inr ([sample_first_event], [], reducers_of [2] [sample_bar 1 3], market_after [sample_bar 1 3], 1)"
proof -
  have v: "validateBar sample_key (sample_bar 1 3) = None" by (simp add: sample_bar_valid zero_time_def nanos_def minute_pos(2))
  obtain m where m: "Market_Clone (market_after []) = Inr m" using sample_market_clone by blast
  have sim: "market_sim m (market_after [])" by (rule Market_Clone_sim [OF market_after_good m])
  have rev: "revisionForBar (sample_bar 1 3) = 1" by (simp add: revisionForBar_def sample_bar_def word_gt_0)
  have "closed_points sample_key [2] [] (sample_bar 1 3) = []" by (simp add: closed_points_def)
  then have r: "reduceEMAClosed sample_key (reducers_of [2] []) (sample_bar 1 3) 1 = Inr ([], reducers_of [2] [sample_bar 1 3])"
    using reduceEMAClosed_ok [OF sample_valid_periods _ v, of "[]" sample_key] by (simp add: rev)
  have n: "(1 :: uint64) mod 100 \<noteq> 0" by simp
  have "prepare_closed sample_lane (reducers_of [2] []) m (sample_bar 1 3) =
      Inr ([sample_first_event], [], reducers_of [2] [sample_bar 1 3], market_after [sample_bar 1 3], 1)"
    using r Market_OnClosed_market_of [OF limit_nonneg sim, of "sample_bar 1 3"] n
    by (simp add: prepare_closed_def Let_def rev sample_first_event_def)
  moreover have "bar_Closed (sample_bar 1 3)" by (simp add: sample_bar_def)
  ultimately show ?thesis using that v m by blast
qed

lemma sample_closed_eq:
  "applyClosed ops sample_lane w (sample_bar 1 3) =
     (case CommitClosed ops (w_store w) sample_key (sample_bar 1 3) [sample_first_event] [] of
        (Inl e, s) \<Rightarrow> (Inl (CommitFailed e), sample_lane, w\<lparr>w_store := s\<rparr>)
      | (Inr committed, s) \<Rightarrow> (Inr (), canonical sample_lane [sample_bar 1 3],
          publish_live (filter (\<lambda>e. ev_EventType e = ''market.state'') committed) (w\<lparr>w_store := s\<rparr>)))"
proof (rule sample_prepared)
  fix m
  assume "bar_Closed (sample_bar 1 3)" "validateBar sample_key (sample_bar 1 3) = None" "Market_Clone (market_after []) = Inr m"
    "prepare_closed sample_lane (reducers_of [2] []) m (sample_bar 1 3) =
       Inr ([sample_first_event], [], reducers_of [2] [sample_bar 1 3], market_after [sample_bar 1 3], 1)"
  then show ?thesis
    by (auto simp: applyClosed_def sample_clone check_cursor_def Let_def canonical_def split: prod.split sum.split)
qed

lemma sample_closed_on:
  assumes "CommitClosed ops (w_store w) sample_key (sample_bar 1 3) [sample_first_event] [] = (Inr committed, s)"
  shows "\<exists>w'. applyClosed ops sample_lane w (sample_bar 1 3) = (Inr (), canonical sample_lane [sample_bar 1 3], w')"
  using assms by (simp add: sample_closed_eq)

lemma sample_closed:
  "\<exists>w. applyClosed memory_ops sample_lane sample_world (sample_bar 1 3) = (Inr (), canonical sample_lane [sample_bar 1 3], w)"
proof -
  have "\<exists>committed s. Memory_CommitClosed NewMemory sample_key (sample_bar 1 3) [sample_first_event] [] = (Inr committed, s)"
    by (simp add: Memory_CommitClosed_def cursor_of_def NewMemory_def split: prod.split)
  then show ?thesis using sample_closed_on [of memory_ops sample_world] by (auto simp: sample_world_def)
qed

lemma sample_closed_changes: "canonical sample_lane [sample_bar 1 3] \<noteq> sample_lane"
proof
  assume "canonical sample_lane [sample_bar 1 3] = sample_lane"
  then have "ln_lastBar (canonical sample_lane [sample_bar 1 3]) = ln_lastBar sample_lane" by simp
  then show False by simp
qed

lemma sample_savable: "savable [sample_bar 1 3] 2"
  by (simp add: savable_def ema_of_def seed_sum_def sample_bar_def of_int64_def f64_ops fadd_def)

lemma sample_snapshots:
  "\<exists>snaps. reducerSnapshots (reducers_of [2] [sample_bar 1 3]) (market_after [sample_bar 1 3]) (Some (sample_bar 1 3)) = Inr snaps"
proof -
  have "Market_Snapshot (market_after [sample_bar 1 3]) \<noteq> Inl e" for e
    using sample_encodable by (simp add: Market_Snapshot_def market_of_def marketHistoryLimit_def)
  then show ?thesis
    using sample_savable EMA_Snapshot_doc [of 2 "[sample_bar 1 3]"]
    by (auto simp: reducerSnapshots_def sort_reducers_of [OF sample_valid_periods] split: sum.split) (auto simp: reducers_of_def)
qed

definition sample_recovery :: SeriesRecovery where
  "sample_recovery = \<lparr>rec_Snapshots = [market_snapshot [sample_bar 1 3], ema_snapshot [sample_bar 1 3] 2],
     rec_CursorOpenTime = 2 * minute, rec_CursorHash = barHash (sample_bar 2 3), rec_HasCursor = True\<rparr>"

subsection \<open>Properties\<close>

text \<open>
  C1. A closed bar that a lane accepts takes it from the canonical state of its history to the
  canonical state of the history with the bar appended (every average, the market, the cursor,
  the revision and the count), and the bar is the immediate successor of the one before: a gap
  is never bridged silently. Whatever else happens, the lane keeps its state.
\<close>

theorem lane_closed_bar:
  assumes "lane_inv l hist" and "length hist + 1 < 2 ^ 64" and "applyClosed ops l w bar = (r, l', w')"
  shows "l' = l \<or> (l' = canonical l (hist @ [bar]) \<and> lane_inv l' (hist @ [bar]) \<and>
    (hist \<noteq> [] \<longrightarrow> TimeframeDuration (key_Timeframe (ln_key l)) = Inr (bar_OpenTime bar - bar_OpenTime (last hist))))"
  using assms(3)
proof (cases rule: applyClosed_cases)
  case (committed rs market events snapshots rs' market' closedCount stored s)
  show ?thesis
  proof (cases "l' = l")
    case False
    have "l' = canonical l (hist @ [bar])" by (rule applyClosed_canonical [OF assms(3,1,2) False])
    moreover have "lane_inv l' (hist @ [bar])" using applyClosed_inv [OF assms(3,1,2)] False by simp
    moreover have "TimeframeDuration (key_Timeframe (ln_key l)) = Inr (bar_OpenTime bar - bar_OpenTime (last hist))" if "hist \<noteq> []"
      using committed(3) assms(1) that
      by (auto simp: check_cursor_def lane_inv_def split: if_splits sum.splits)
    ultimately show ?thesis by blast
  qed simp
qed simp_all

theorem lane_closed_bar_witness:
  "\<exists>w. applyClosed memory_ops sample_lane sample_world (sample_bar 1 3) = (Inr (), canonical sample_lane [sample_bar 1 3], w) \<and>
     lane_inv (canonical sample_lane [sample_bar 1 3]) [sample_bar 1 3]"
proof -
  obtain w where w: "applyClosed memory_ops sample_lane sample_world (sample_bar 1 3) = (Inr (), canonical sample_lane [sample_bar 1 3], w)"
    using sample_closed by blast
  with lane_closed_bar [OF sample_lane_inv _ w] sample_closed_changes show ?thesis by simp
qed

text \<open>
  C9. A forming bar never touches the canonical state or the store. When it is accepted, the
  provisional value of each period that has enough bars is exactly the average that closing at
  the forming price would confirm.
\<close>

theorem lane_forming_projects:
  assumes "lane_inv l hist" and "length hist + 1 < 2 ^ 64" and "applyForming l w bar = (r, l', w')"
  shows "lane_inv l' hist \<and> w_store w' = w_store w \<and>
    (l' = l \<or> (ln_provisional l' = projected (ln_periods l) hist bar \<and> ln_formingBar l' = Some bar))"
proof -
  have frame: "lane_inv l' hist \<and> w_store w' = w_store w" using applyForming_frame [OF assms(3)] assms(1) by (simp add: lane_inv_def)
  from assms(3) show ?thesis
  proof (cases rule: applyForming_cases)
    case (formed rs provisional published)
    have inv: "valid_periods (ln_periods l)" "ln_reducers l = reducers_of (ln_periods l) hist"
      using assms(1) by (simp_all add: lane_inv_def)
    have "rs = reducers_of (ln_periods l) hist" using formed(5) inv assms(2) by (intro cloneReducers_ok) auto
    then have "provisional = projected (ln_periods l) hist bar"
      using project_loop_ok [OF order_refl _ assms(2) validateBar_finite [OF formed(4)], of "ln_periods l" "ln_key l"
          "revisionForBar bar"] inv(1) formed(6) by (simp add: valid_periods_def)
    with frame formed(7) show ?thesis by simp
  qed (use frame in auto)
qed

theorem lane_forming_projects_witness:
  "\<exists>r l' w'. applyForming sample_lane sample_world ((sample_bar 1 3)\<lparr>bar_Closed := False\<rparr>) = (r, l', w') \<and> lane_inv l' [] \<and>
     w_store w' = NewMemory"
proof -
  obtain r l' w' where a: "applyForming sample_lane sample_world ((sample_bar 1 3)\<lparr>bar_Closed := False\<rparr>) = (r, l', w')"
    by (rule prod_cases3)
  with lane_forming_projects [OF sample_lane_inv _ a] show ?thesis by (simp add: sample_world_def)
qed

text \<open>
  C7. Rebuilding is deterministic and agrees with live processing: a rebuild that succeeds puts the
  lane into the canonical state of the seed's closed bars without repetitions, which is the state
  that live processing of these bars reaches, whatever the lane held before.
\<close>

theorem lane_rebuild_canonical:
  assumes "valid_periods (ln_periods l)" and "length bars < 2 ^ 64" and "seed_history None bars \<noteq> []"
    and "rebuildSeed ops l w bars publishReset = (Inr (), l', w')"
  shows "l' = canonical l (seed_history None bars) \<and> lane_inv l' (seed_history None bars)"
  using assms(4,1,2)
proof (cases rule: rebuildSeed_cases)
  case (rebuilt hist snapshots committed)
  then show ?thesis using assms(1,3) by (simp add: canonical_inv)
qed simp_all

theorem lane_rebuild_canonical_witness:
  "\<exists>l' w'. rebuildSeed memory_ops sample_lane sample_world [sample_bar 1 3] False = (Inr (), l', w') \<and>
     l' = canonical sample_lane [sample_bar 1 3]"
proof -
  have v: "validateBar sample_key (sample_bar 1 3) = None" by (simp add: sample_bar_valid zero_time_def nanos_def minute_pos(2))
  have hist: "seed_history None [sample_bar 1 3] = [sample_bar 1 3]" by (simp add: sample_bar_def)
  have "rebuild_loop sample_key (rebuilt_of sample_key [2] []) [sample_bar 1 3] = Inr (rebuilt_of sample_key [2] [sample_bar 1 3])"
    using reduce_bar_ok [OF sample_valid_periods _ v, of "[]"] v by (simp add: rebuild_step_def sample_bar_def rebuilt_of_def)
  moreover let ?st = "rebuilt_of sample_key [2] [sample_bar 1 3]"
  obtain snaps where "reducerSnapshots (rb_reducers ?st) (rb_market ?st) (rb_lastBar ?st) = Inr snaps"
    using sample_snapshots by (auto simp: rebuilt_of_def last_of_def)
  moreover have "\<exists>committed s. Memory_RebuildSeries NewMemory sample_key evs snaps lb = (Inr committed, s)" for evs lb
    by (simp add: Memory_RebuildSeries_def cursor_of_def NewMemory_def split: prod.split option.split)
  then obtain committed s where "Memory_RebuildSeries NewMemory sample_key
      (rebuild_points sample_key [sample_bar 1 3] False ?st) snaps (rb_lastBar ?st) = (Inr committed, s)" by blast
  ultimately have "\<exists>l' w'. rebuildSeed memory_ops sample_lane sample_world [sample_bar 1 3] False = (Inr (), l', w')"
    by (simp add: rebuildSeed_def fresh_rebuilt_ok [OF sample_valid_periods, of sample_key] sample_world_def Let_def
        del: rebuild_loop.simps)
  then obtain l' w' where r: "rebuildSeed memory_ops sample_lane sample_world [sample_bar 1 3] False = (Inr (), l', w')" by blast
  with lane_rebuild_canonical [OF _ _ _ r] hist sample_valid_periods show ?thesis by simp
qed

text \<open>
  C2. Restarting loses nothing: from the checkpoint saved at the history \<open>hist\<close>, the durable cursor at the
  last bar of \<open>hist @ rest\<close>, and a seed that covers the checkpoint and what followed it, a fresh lane is
  restored to the averages, cursor, revision and count of \<open>hist @ rest\<close> and to a market that no further
  bar can tell from the original.
\<close>

theorem lane_restart:
  assumes "valid_periods (ln_periods l)" and "ln_periods l \<noteq> []" and "hist \<noteq> []" and "length (hist @ rest) < 2 ^ 64"
    and "\<forall>p \<in> set (ln_periods l). savable hist p" and "recovery_of (ln_periods l) hist rest recovery"
    and "covering_seed (ln_key l) hist rest pre post"
  shows "\<exists>l'. restoreRecoverySeed l recovery (pre @ last hist # rest @ post) = Inr l' \<and> lane_inv l' (hist @ rest) \<and>
    (rest \<noteq> [] \<longrightarrow> l' = canonical l (hist @ rest))"
proof -
  obtain m where m: "restoreRecoverySeed l recovery (pre @ last hist # rest @ post) =
      Inr (install (reducers_of (ln_periods l) (hist @ rest)) m (Some (last (hist @ rest)))
        (revisionForBar (last (hist @ rest))) (of_nat (length (hist @ rest))) l)"
      "market_sim m (market_after (hist @ rest))" "rest \<noteq> [] \<longrightarrow> m = market_after (hist @ rest)"
    using restoreRecoverySeed_ok [OF assms] by blast
  then show ?thesis using assms(1,3) by (auto simp: lane_inv_def canonical_def)
qed

theorem lane_restart_witness:
  "\<exists>l'. restoreRecoverySeed sample_lane sample_recovery [sample_bar 1 3, sample_bar 2 3] = Inr l' \<and>
     l' = canonical sample_lane [sample_bar 1 3, sample_bar 2 3]"
proof -
  have v: "validateBar sample_key (sample_bar 1 3) = None" "validateBar sample_key (sample_bar 2 3) = None"
    by (simp_all add: sample_bar_valid zero_time_def nanos_def minute_pos(2))
  have "recovery_of [2] [sample_bar 1 3] [sample_bar 2 3] sample_recovery"
    by (auto simp: recovery_of_def sample_recovery_def market_snapshot_def ema_snapshot_def) (simp add: sample_bar_def)
  moreover have "covering_seed sample_key [sample_bar 1 3] [sample_bar 2 3] [] []"
    using v minute_pos by (simp add: covering_seed_def) (simp add: sample_bar_def)
  ultimately show ?thesis
    using lane_restart [of sample_lane "[sample_bar 1 3]" "[sample_bar 2 3]" sample_recovery "[]" "[]"]
      sample_valid_periods sample_savable by auto
qed

text \<open>
  C5. The lane never runs ahead of its store: whatever commands a fresh lane over the memory store
  has handled, the last bar it holds is, by time and hash, the durable cursor of its series.
\<close>

theorem actor_cursor_durable:
  assumes "NewLane opts = Inr l" and "\<forall>p \<in> set (lo_Periods opts). p < 2 ^ 63"
    and "(actor_step memory_ops)\<^sup>*\<^sup>* (start_actor l w) a" and "list_all sane_seed (ac_submitted a)"
    and "ln_lastBar (ac_lane a) = Some b"
  shows "\<exists>c. cursor_of (w_store (ac_world a)) (lo_Key opts) = Some c \<and> bar_OpenTime c = bar_OpenTime b \<and> barHash c = barHash b"
proof -
  have l: "valid_periods (ln_periods l)" "ln_lastBar l = None" "ln_key l = lo_Key opts"
    using NewLane_periods [OF assms(1,2)] NewLane_inv [OF assms(1,2)] assms(1)
    by (auto simp: NewLane_def Let_def split: if_splits sum.splits)
  obtain n where "process memory_ops l w (take n (ac_submitted a)) = (ac_replies a, ac_lane a, ac_world a)"
    using actor.reachable_inv [OF refl assms(3)] by (auto simp: actor_inv_def)
  moreover have "memory_store.tracking.tracked l w" using l(2) by (simp add: memory_store.tracking.tracked_def)
  moreover have "list_all sane_seed (take n (ac_submitted a))" using assms(4) by (auto simp: list_all_iff dest: in_set_takeD)
  ultimately have "memory_store.tracking.tracked (ac_lane a) (ac_world a) \<and> ln_key (ac_lane a) = ln_key l"
    using memory_store.tracking.process_tracked l(1) by blast
  with assms(5) l(3) show ?thesis by (auto simp: memory_store.tracking.tracked_def)
qed

text \<open>The sample lane after it has handled its first bar.\<close>

lemma sample_actor_on:
  assumes "applyClosed ops sample_lane w0 (sample_bar 1 3) = (Inr (), canonical sample_lane [sample_bar 1 3], w)"
  shows "\<exists>a. (actor_step ops)\<^sup>*\<^sup>* (start_actor sample_lane w0) a \<and> ln_lastBar (ac_lane a) = Some (sample_bar 1 3) \<and>
    list_all sane_seed (ac_submitted a)"
proof -
  let ?cmd = "commandClosed (sample_bar 1 3)" and ?s = "start_actor sample_lane w0"
  have d: "dispatch ops sample_lane w0 ?cmd = (Inr (), (canonical sample_lane [sample_bar 1 3])\<lparr>ln_lastErr := None\<rparr>, w)"
    using assms by (simp add: dispatch_def)
  let ?a1 = "?s\<lparr>ac_mailbox := ac_mailbox ?s @ [?cmd], ac_submitted := ac_submitted ?s @ [?cmd]\<rparr>"
  let ?a2 = "?a1\<lparr>ac_lane := (canonical sample_lane [sample_bar 1 3])\<lparr>ln_lastErr := None\<rparr>, ac_world := w, ac_mailbox := [],
      ac_replies := ac_replies ?a1 @ [Inr ()]\<rparr>"
  have "actor_step ops ?s ?a1" by (rule actor_step.submit) (simp add: start_actor_def)
  moreover have "actor_step ops ?a1 ?a2" by (rule actor_step.handle [where cmd = ?cmd]) (simp_all add: start_actor_def d)
  ultimately have "(actor_step ops)\<^sup>*\<^sup>* ?s ?a2" by (meson r_into_rtranclp rtranclp_trans)
  then show ?thesis by (intro exI [of _ ?a2]) (simp add: start_actor_def sane_seed_def)
qed

theorem actor_cursor_durable_witness:
  "\<exists>a b. (actor_step memory_ops)\<^sup>*\<^sup>* (start_actor sample_lane sample_world) a \<and> ln_lastBar (ac_lane a) = Some b \<and>
     (\<exists>c. cursor_of (w_store (ac_world a)) sample_key = Some c \<and> bar_OpenTime c = bar_OpenTime b)"
proof -
  obtain a where a: "(actor_step memory_ops)\<^sup>*\<^sup>* (start_actor sample_lane sample_world) a" "ln_lastBar (ac_lane a) = Some (sample_bar 1 3)"
      "list_all sane_seed (ac_submitted a)"
    using sample_closed sample_actor_on by blast
  from actor_cursor_durable [OF sample_lane_new _ a(1,3,2)] have
    "\<exists>c. cursor_of (w_store (ac_world a)) sample_key = Some c \<and> bar_OpenTime c = bar_OpenTime (sample_bar 1 3)"
    by (auto simp: sample_options_def)
  with a show ?thesis by blast
qed

end
