(* ===== verification/Registry.thy ===== *)
theory Registry
  imports Lane_Properties
begin

text \<open>
  \<^verbatim>\<open>internal/engine/registry.go\<close>: one lane per configured series and the routing of bars to them.
  The map of lanes is an association list from lookup keys; a method that submits a command returns
  its error, the registry and the world after the lane has answered. A nil lane, which
  \<^verbatim>\<open>Snapshots\<close> would dereference, is the value \<open>None\<close>.
\<close>

record RegistryOptions =
  ro_Series :: "SeriesKey list"
  ro_Periods :: "int list"
  ro_MailboxSize :: int
  ro_SnapshotEvery :: uint64
  ro_Store :: bool
  ro_Publisher :: bool
  ro_LivePublisher :: bool
  ro_OutboxDelivery :: bool

record Registry =
  rg_lanes :: "(string \<times> Lane) list"
  rg_keys :: "SeriesKey list"

datatype registry_error = NoSeries | DuplicateLane string string | LaneFailed lane_error | NotConfigured string string

definition lookupKey :: "string \<Rightarrow> string \<Rightarrow> string" where
  "lookupKey symbol timeframe = symbol @ ''|'' @ timeframe"

definition lane_options :: "RegistryOptions \<Rightarrow> SeriesKey \<Rightarrow> LaneOptions" where
  "lane_options opts key = \<lparr>lo_Key = key, lo_Periods = ro_Periods opts, lo_MailboxSize = ro_MailboxSize opts,
     lo_SnapshotEvery = ro_SnapshotEvery opts, lo_Store = ro_Store opts, lo_Publisher = ro_Publisher opts,
     lo_LivePublisher = ro_LivePublisher opts, lo_OutboxDelivery = ro_OutboxDelivery opts\<rparr>"

fun registry_loop :: "RegistryOptions \<Rightarrow> SeriesKey list \<Rightarrow> Registry \<Rightarrow> (registry_error, Registry) result" where
  "registry_loop opts [] r = Inr r"
| "registry_loop opts (key # keys) r =
     (let lookup = lookupKey (key_Symbol key) (key_Timeframe key) in
      if map_of (rg_lanes r) lookup \<noteq> None then Inl (DuplicateLane (key_Symbol key) (key_Timeframe key))
      else case NewLane (lane_options opts key) of
          Inl e \<Rightarrow> Inl (LaneFailed e)
        | Inr lane \<Rightarrow> registry_loop opts keys (r\<lparr>rg_lanes := AList.update lookup lane (rg_lanes r), rg_keys := rg_keys r @ [key]\<rparr>))"

definition key_before :: "SeriesKey \<Rightarrow> SeriesKey \<Rightarrow> bool" where
  "key_before a b \<longleftrightarrow> str_lt (SeriesKey_String a) (SeriesKey_String b)"

definition NewRegistry :: "RegistryOptions \<Rightarrow> (registry_error, Registry) result" where
  "NewRegistry opts =
     (if ro_Series opts = [] then Inl NoSeries
      else case registry_loop opts (ro_Series opts) \<lparr>rg_lanes = [], rg_keys = []\<rparr> of
          Inl e \<Rightarrow> Inl e
        | Inr r \<Rightarrow> Inr (r\<lparr>rg_keys := slice_sort key_before (rg_keys r)\<rparr>))"

definition Registry_Keys :: "Registry \<Rightarrow> SeriesKey list" where
  "Registry_Keys r = rg_keys r"

definition registry_lane :: "Registry \<Rightarrow> string \<Rightarrow> string \<Rightarrow> (registry_error, Lane) result" where
  "registry_lane r symbol timeframe =
     (case map_of (rg_lanes r) (lookupKey symbol timeframe) of
        None \<Rightarrow> Inl (NotConfigured symbol timeframe)
      | Some lane \<Rightarrow> Inr lane)"

text \<open>The lane mutates itself while it handles the command.\<close>

definition submit_to :: "'s store_ops \<Rightarrow> Registry \<Rightarrow> 's world \<Rightarrow> string \<Rightarrow> string \<Rightarrow> command \<Rightarrow>
    (registry_error, unit) result \<times> Registry \<times> 's world" where
  "submit_to ops r w symbol timeframe cmd =
     (case registry_lane r symbol timeframe of
        Inl e \<Rightarrow> (Inl e, r, w)
      | Inr lane \<Rightarrow>
          (let (res, lane', w') = dispatch ops lane w cmd
           in ((case res of Inl e \<Rightarrow> Inl (LaneFailed e) | Inr u \<Rightarrow> Inr u),
               r\<lparr>rg_lanes := AList.update (lookupKey symbol timeframe) lane' (rg_lanes r)\<rparr>, w')))"

definition Registry_Seed :: "'s store_ops \<Rightarrow> Registry \<Rightarrow> 's world \<Rightarrow> string \<Rightarrow> string \<Rightarrow> Bar list \<Rightarrow>
    (registry_error, unit) result \<times> Registry \<times> 's world" where
  "Registry_Seed ops r w symbol timeframe bars = submit_to ops r w symbol timeframe (commandSeed bars)"

definition Registry_Closed :: "'s store_ops \<Rightarrow> Registry \<Rightarrow> 's world \<Rightarrow> Bar \<Rightarrow>
    (registry_error, unit) result \<times> Registry \<times> 's world" where
  "Registry_Closed ops r w bar = submit_to ops r w (bar_Symbol bar) (bar_Timeframe bar) (commandClosed bar)"

definition Registry_Forming :: "'s store_ops \<Rightarrow> Registry \<Rightarrow> 's world \<Rightarrow> Bar \<Rightarrow>
    (registry_error, unit) result \<times> Registry \<times> 's world" where
  "Registry_Forming ops r w bar = submit_to ops r w (bar_Symbol bar) (bar_Timeframe bar) (commandForming bar)"

definition Registry_Snapshot :: "Registry \<Rightarrow> string \<Rightarrow> string \<Rightarrow> SeriesSnapshot option" where
  "Registry_Snapshot r symbol timeframe =
     (case registry_lane r symbol timeframe of Inl _ \<Rightarrow> None | Inr lane \<Rightarrow> Some (Lane_Snapshot lane))"

definition Registry_Snapshots :: "Registry \<Rightarrow> SeriesSnapshot list option" where
  "Registry_Snapshots r = those (map (\<lambda>key.
     map_option Lane_Snapshot (map_of (rg_lanes r) (lookupKey (key_Symbol key) (key_Timeframe key)))) (rg_keys r))"

definition snapshot_ready :: "SeriesSnapshot \<Rightarrow> bool" where
  "snapshot_ready s \<longleftrightarrow> ss_Ready s \<and> ss_LastClosedTime s \<noteq> None"

definition Registry_Ready :: "Registry \<Rightarrow> bool option" where
  "Registry_Ready r = map_option (list_all snapshot_ready) (Registry_Snapshots r)"


subsection \<open>The invariant of the registry\<close>

definition lookup_of :: "SeriesKey \<Rightarrow> string" where
  "lookup_of key = lookupKey (key_Symbol key) (key_Timeframe key)"

text \<open>One lane per configured series, under its lookup key, and the keys listed.\<close>

definition registry_inv :: "SeriesKey list \<Rightarrow> Registry \<Rightarrow> bool" where
  "registry_inv series r \<longleftrightarrow> map fst (rg_lanes r) = map lookup_of series \<and> map (ln_key \<circ> snd) (rg_lanes r) = series \<and>
     distinct (map lookup_of series) \<and> mset (rg_keys r) = mset series"

lemma NewLane_key: "NewLane opts = Inr l \<Longrightarrow> ln_key l = lo_Key opts"
  by (auto simp: NewLane_def Let_def split: if_splits sum.splits)

lemma registry_loop_inv:
  "registry_loop opts keys r = Inr r' \<Longrightarrow> registry_inv done r \<Longrightarrow> registry_inv (done @ keys) r'"
proof (induction opts keys r arbitrary: "done" rule: registry_loop.induct)
  case (2 opts key keys r)
  let ?lookup = "lookupKey (key_Symbol key) (key_Timeframe key)"
  have fresh: "map_of (rg_lanes r) ?lookup = None" using 2(2) by (auto simp: Let_def split: if_splits)
  then obtain lane where lane: "NewLane (lane_options opts key) = Inr lane"
    using 2(2) by (auto simp: Let_def split: sum.splits)
  let ?r = "r\<lparr>rg_lanes := AList.update ?lookup lane (rg_lanes r), rg_keys := rg_keys r @ [key]\<rparr>"
  have new: "?lookup \<notin> fst ` set (rg_lanes r)" using fresh by (simp add: map_of_eq_None_iff)
  then have "registry_inv (done @ [key]) ?r"
    using 2(3) NewLane_key [OF lane]
    by (auto simp: registry_inv_def update_new lookup_of_def lane_options_def simp flip: set_map)
  from 2(1) [OF refl _ lane _ this] show ?case using 2(2) fresh lane by simp
qed simp

lemma NewRegistry_inv: "NewRegistry opts = Inr r \<Longrightarrow> registry_inv (ro_Series opts) r"
  using registry_loop_inv [of opts "ro_Series opts" "\<lparr>rg_lanes = [], rg_keys = []\<rparr>" _ "[]"]
  by (auto simp: NewRegistry_def registry_inv_def split: if_splits sum.splits)

lemma map_fst_update: "k \<in> fst ` set al \<Longrightarrow> map fst (AList.update k v al) = map fst al"
  by (induction al) auto

lemma map_snd_update: "map_of al k = Some v \<Longrightarrow> f v' = f v \<Longrightarrow> map (f \<circ> snd) (AList.update k v' al) = map (f \<circ> snd) al"
  by (induction al) auto

lemma submit_to_inv:
  assumes "submit_to ops r w symbol timeframe cmd = (e, r', w')" and "registry_inv series r"
  shows "registry_inv series r'"
proof (cases "map_of (rg_lanes r) (lookupKey symbol timeframe)")
  case None
  with assms show ?thesis by (simp add: submit_to_def registry_lane_def)
next
  case (Some lane)
  obtain q l' where d: "dispatch ops lane w cmd = (q, l', w')"
      and r': "r' = r\<lparr>rg_lanes := AList.update (lookupKey symbol timeframe) l' (rg_lanes r)\<rparr>"
    using assms(1) Some by (auto simp: submit_to_def registry_lane_def split: prod.splits)
  have "ln_key l' = ln_key lane" using dispatch_setup [OF d] by (simp add: lane_setup_def)
  moreover have "lookupKey symbol timeframe \<in> fst ` set (rg_lanes r)"
    using map_of_SomeD [OF Some] by (rule rev_image_eqI) simp
  ultimately show ?thesis
    using assms(2) map_snd_update [OF Some, of ln_key l'] by (simp add: registry_inv_def r' map_fst_update)
qed

text \<open>
  The calls of the input as their callers see them, each answered by its lane before it returns. What a reader of
  snapshots sees while a call is being handled is the subject of the theory \<open>Lane_Steps\<close>.
\<close>

inductive registry_step :: "'s store_ops \<Rightarrow> Registry \<times> 's world \<Rightarrow> Registry \<times> 's world \<Rightarrow> bool" for ops where
  seed: "Registry_Seed ops r w symbol timeframe bars = (e, r', w') \<Longrightarrow> length bars < 2 ^ 64 \<Longrightarrow> registry_step ops (r, w) (r', w')"
| closed_bar: "Registry_Closed ops r w bar = (e, r', w') \<Longrightarrow> registry_step ops (r, w) (r', w')"
| forming_bar: "Registry_Forming ops r w bar = (e, r', w') \<Longrightarrow> registry_step ops (r, w) (r', w')"

inductive_cases registry_stepE: "registry_step ops (r, w) (r', w')"

lemma registry_step_submit:
  assumes "registry_step ops (r, w) (r', w')"
  obtains e symbol timeframe cmd where "submit_to ops r w symbol timeframe cmd = (e, r', w')"
    "\<And>bars. cmd = commandSeed bars \<Longrightarrow> length bars < 2 ^ 64"
  using assms
  by (cases rule: registry_stepE) (auto simp: Registry_Seed_def Registry_Closed_def Registry_Forming_def)

interpretation registry: transition_system "\<lambda>(r, w). NewRegistry opts = Inr r" "registry_step ops"
  "\<lambda>(r, w). registry_inv (ro_Series opts) r" for opts ops
  by unfold_locales (auto intro: NewRegistry_inv submit_to_inv elim!: registry_step_submit)

lemma registry_inv_entry:
  assumes "registry_inv series r" and "(k, l) \<in> set (rg_lanes r)"
  shows "k = lookup_of (ln_key l) \<and> ln_key l \<in> set series"
proof -
  have "map fst (rg_lanes r) = map (lookup_of \<circ> (ln_key \<circ> snd)) (rg_lanes r)"
    using assms(1) unfolding registry_inv_def by (metis map_map)
  then have "k = lookup_of (ln_key l)" using assms(2) unfolding map_eq_conv by force
  moreover have "ln_key l \<in> set (map (ln_key \<circ> snd) (rg_lanes r))" using assms(2) by force
  moreover have "map (ln_key \<circ> snd) (rg_lanes r) = series" using assms(1) by (simp add: registry_inv_def)
  ultimately show ?thesis by metis
qed

lemma registry_inv_distinct: "registry_inv series r \<Longrightarrow> distinct (map fst (rg_lanes r))"
  by (simp add: registry_inv_def)

lemma registry_inv_lookup:
  assumes "registry_inv series r"
  shows "key \<in> set series \<Longrightarrow> \<exists>l. map_of (rg_lanes r) (lookup_of key) = Some l \<and> ln_key l = key"
    and "k \<notin> lookup_of ` set series \<Longrightarrow> map_of (rg_lanes r) k = None"
proof -
  assume "key \<in> set series"
  then have "key \<in> set (map (ln_key \<circ> snd) (rg_lanes r))" using assms by (simp add: registry_inv_def)
  then obtain k l where l: "(k, l) \<in> set (rg_lanes r)" "ln_key l = key" by auto
  then have "map_of (rg_lanes r) k = Some l" using registry_inv_distinct [OF assms] by (simp add: map_of_is_SomeI)
  then show "\<exists>l. map_of (rg_lanes r) (lookup_of key) = Some l \<and> ln_key l = key"
    using registry_inv_entry [OF assms l(1)] l(2) by auto
next
  assume "k \<notin> lookup_of ` set series"
  then have "k \<notin> set (map fst (rg_lanes r))" using assms by (simp add: registry_inv_def)
  then show "map_of (rg_lanes r) k = None" by (simp add: map_of_eq_None_iff)
qed

lemma those_map_Some: "those (map (\<lambda>x. Some (f x)) xs) = Some (map f xs)"
  by (induction xs) simp_all

lemma registry_snapshots:
  assumes "registry_inv series r"
  shows "\<exists>snaps. Registry_Snapshots r = Some snaps \<and> map ss_Series snaps = rg_keys r \<and>
    set snaps = {s. \<exists>key \<in> set series. Registry_Snapshot r (key_Symbol key) (key_Timeframe key) = Some s}"
proof -
  define lane where "lane key = the (map_of (rg_lanes r) (lookup_of key))" for key
  have keys: "set (rg_keys r) = set series" using assms unfolding registry_inv_def by (metis set_mset_mset)
  have lane: "map_of (rg_lanes r) (lookup_of key) = Some (lane key) \<and> ln_key (lane key) = key" if "key \<in> set series" for key
    using registry_inv_lookup(1) [OF assms that] by (auto simp: lane_def)
  have "Registry_Snapshots r = those (map (\<lambda>key. Some (Lane_Snapshot (lane key))) (rg_keys r))"
    unfolding Registry_Snapshots_def using lane keys by (intro arg_cong [where f = those]) (simp add: lookup_of_def)
  also have "\<dots> = Some (map (\<lambda>key. Lane_Snapshot (lane key)) (rg_keys r))"
    by (rule those_map_Some)
  finally show ?thesis using lane keys
    by (auto simp: Registry_Snapshot_def registry_lane_def Lane_Snapshot_def makeSeriesSnapshot_def Let_def
        intro!: map_idI simp flip: lookup_of_def)
qed

subsection \<open>The lanes\<close>

lemma update_entry:
  "distinct (map fst al) \<Longrightarrow> (k', m) \<in> set (AList.update k v al) \<Longrightarrow> (k' = k \<and> m = v) \<or> (k' \<noteq> k \<and> (k', m) \<in> set al)"
  by (induction al) (auto simp: rev_image_eqI split: if_splits)

lemma NewRegistry_fresh:
  assumes "NewRegistry opts = Inr r" and "(k, l) \<in> set (rg_lanes r)"
  shows "ln_lastBar l = None"
proof -
  have fresh: "ln_lastBar lane = None" if "NewLane o' = Inr lane" for o' lane
    using that by (auto simp: NewLane_def Let_def split: if_splits sum.splits)
  have "registry_loop opts keys q = Inr r' \<Longrightarrow> \<forall>(k, l) \<in> set (rg_lanes q). ln_lastBar l = None \<Longrightarrow>
      \<forall>(k, l) \<in> set (rg_lanes r'). ln_lastBar l = None" for keys q r'
  proof (induction opts keys q rule: registry_loop.induct)
    case (2 opts key keys q)
    let ?lookup = "lookupKey (key_Symbol key) (key_Timeframe key)"
    obtain lane where lane: "NewLane (lane_options opts key) = Inr lane" and new: "map_of (rg_lanes q) ?lookup = None"
      using 2(2) by (auto simp: Let_def split: sum.splits if_splits)
    have "\<forall>(k, l) \<in> set (AList.update ?lookup lane (rg_lanes q)). ln_lastBar l = None"
      using 2(3) fresh [OF lane] set_AList_update [of ?lookup lane "rg_lanes q"] by auto
    then show ?case using 2(1) [OF refl _ lane] 2(2) new lane by simp
  qed simp
  from this [of "ro_Series opts" "\<lparr>rg_lanes = [], rg_keys = []\<rparr>"] show ?thesis
    using assms by (auto simp: NewRegistry_def split: if_splits sum.splits)
qed

subsection \<open>Properties\<close>

text \<open>
  Routing: whatever calls a registry has served, each configured series has its own lane,
  a call for any other series is refused and changes nothing, the snapshots cover the configured
  series exactly (no missing lane is dereferenced), and the registry is ready exactly when the
  snapshot of every series is.
\<close>

theorem registry_routes:
  assumes "NewRegistry opts = Inr r0" and "(registry_step ops)\<^sup>*\<^sup>* (r0, w0) (r, w)"
  shows "(\<forall>key \<in> set (ro_Series opts). \<exists>l. registry_lane r (key_Symbol key) (key_Timeframe key) = Inr l \<and> ln_key l = key) \<and>
    (\<forall>symbol timeframe cmd. lookupKey symbol timeframe \<notin> lookup_of ` set (ro_Series opts) \<longrightarrow>
       submit_to ops r w symbol timeframe cmd = (Inl (NotConfigured symbol timeframe), r, w)) \<and>
    (\<exists>snaps. Registry_Snapshots r = Some snaps \<and> mset (map ss_Series snaps) = mset (ro_Series opts)) \<and>
    (Registry_Ready r = Some True \<longleftrightarrow> (\<forall>key \<in> set (ro_Series opts).
       \<exists>s. Registry_Snapshot r (key_Symbol key) (key_Timeframe key) = Some s \<and> snapshot_ready s))"
proof -
  have inv: "registry_inv (ro_Series opts) r"
    using registry.reachable_inv [of opts "(r0, w0)" ops "(r, w)"] assms by simp
  have lane: "\<exists>l. registry_lane r (key_Symbol key) (key_Timeframe key) = Inr l \<and> ln_key l = key" if "key \<in> set (ro_Series opts)" for key
    using registry_inv_lookup(1) [OF inv that] by (auto simp: registry_lane_def lookup_of_def)
  obtain snaps where snaps: "Registry_Snapshots r = Some snaps" "map ss_Series snaps = rg_keys r"
      "set snaps = {s. \<exists>key \<in> set (ro_Series opts). Registry_Snapshot r (key_Symbol key) (key_Timeframe key) = Some s}"
    using registry_snapshots [OF inv] by blast
  have "\<exists>s. Registry_Snapshot r (key_Symbol key) (key_Timeframe key) = Some s" if "key \<in> set (ro_Series opts)" for key
    using lane [OF that] by (auto simp: Registry_Snapshot_def)
  then have ready: "Registry_Ready r = Some True \<longleftrightarrow> (\<forall>key \<in> set (ro_Series opts).
       \<exists>s. Registry_Snapshot r (key_Symbol key) (key_Timeframe key) = Some s \<and> snapshot_ready s)"
    by (fastforce simp: Registry_Ready_def snaps(1,3) list_all_iff)
  have "submit_to ops r w symbol timeframe cmd = (Inl (NotConfigured symbol timeframe), r, w)"
    if "lookupKey symbol timeframe \<notin> lookup_of ` set (ro_Series opts)" for symbol timeframe cmd
    using registry_inv_lookup(2) [OF inv that] by (simp add: submit_to_def registry_lane_def)
  moreover have "mset (map ss_Series snaps) = mset (ro_Series opts)" using inv unfolding snaps(2) registry_inv_def by simp
  ultimately show ?thesis using lane snaps(1) ready by blast
qed

definition sample_registry_options :: RegistryOptions where
  "sample_registry_options = \<lparr>ro_Series = [sample_key], ro_Periods = [2], ro_MailboxSize = 4, ro_SnapshotEvery = 100,
     ro_Store = True, ro_Publisher = False, ro_LivePublisher = True, ro_OutboxDelivery = True\<rparr>"

definition sample_registry :: Registry where
  "sample_registry = \<lparr>rg_lanes = [(lookup_of sample_key, sample_lane)], rg_keys = [sample_key]\<rparr>"

lemma sample_registry_new: "NewRegistry sample_registry_options = Inr sample_registry"
proof -
  have "lane_options sample_registry_options sample_key = sample_options"
    by (simp add: lane_options_def sample_registry_options_def sample_options_def)
  then show ?thesis
    using sample_lane_new
    by (simp add: NewRegistry_def sample_registry_def lookup_of_def slice_sort_def)
      (simp add: sample_registry_options_def slice_sort_def)
qed

theorem registry_routes_witness:
  "submit_to memory_ops sample_registry sample_world ''ETH'' ''1m'' (commandClosed (sample_bar 1 3)) =
     (Inl (NotConfigured ''ETH'' ''1m''), sample_registry, sample_world) \<and>
   (\<exists>l. registry_lane sample_registry ''BTC'' ''1m'' = Inr l \<and> ln_key l = sample_key)"
proof -
  have "lookupKey ''ETH'' ''1m'' \<notin> lookup_of ` set (ro_Series sample_registry_options)"
    by (simp add: lookupKey_def lookup_of_def sample_registry_options_def sample_key_def)
  moreover have "sample_key \<in> set (ro_Series sample_registry_options)" "key_Symbol sample_key = ''BTC''" "key_Timeframe sample_key = ''1m''"
    by (simp_all add: sample_registry_options_def sample_key_def)
  ultimately show ?thesis
    using registry_routes [OF sample_registry_new rtranclp.rtrancl_refl, of memory_ops sample_world] by metis
qed

end
