(* ===== verification/Hub.thy ===== *)
theory Hub
  imports Model
begin

text \<open>
  \<^verbatim>\<open>internal/api/hub.go\<close>: the fan-out of signal events to WebSocket clients. A client's
  channel is a bounded buffer with a closed flag; sending on or closing a closed channel
  panics, which is the value \<open>None\<close> of the operations. The mutex of a client makes each of its
  operations one step; what the reader of the channel has taken is kept beside the client.
\<close>

subsection \<open>Channels\<close>

record chan =
  ch_buf :: "SignalEvent list"
  ch_cap :: nat
  ch_closed :: bool

text \<open>\<^verbatim>\<open>select { case c <- v: ... default: ... }\<close>: \<open>Some None\<close> is the default branch.\<close>

definition chan_try_send :: "SignalEvent \<Rightarrow> chan \<Rightarrow> chan option option" where
  "chan_try_send v c =
     (if ch_closed c then None
      else if length (ch_buf c) < ch_cap c then Some (Some (c\<lparr>ch_buf := ch_buf c @ [v]\<rparr>))
      else Some None)"

definition chan_close :: "chan \<Rightarrow> chan option" where
  "chan_close c = (if ch_closed c then None else Some (c\<lparr>ch_closed := True\<rparr>))"

subsection \<open>Subscriptions\<close>

record seriesSelector =
  sel_Dataset :: string
  sel_Symbol :: string
  sel_Timeframe :: string

record analysisSelector =
  asel_Name :: string
  asel_ConfigHash :: string

text \<open>\<^verbatim>\<open>EventTypes\<close> is the set of the keys of the map.\<close>

record Subscription =
  sub_Series :: "seriesSelector list"
  sub_Analyses :: "analysisSelector list"
  sub_EventTypes :: "string list"
  sub_Confirmed :: bool
  sub_Provisional :: bool

definition analysisEventType :: string where
  "analysisEventType = ''io.ytstack.signals.analysis.updated.v1''"

definition matchesAnalysis :: "analysisSelector list \<Rightarrow> AlgorithmRef \<Rightarrow> bool" where
  "matchesAnalysis selectors algorithm =
     list_ex (\<lambda>s. (asel_Name s = ''*'' \<or> asel_Name s = alg_Name algorithm) \<and>
        (asel_ConfigHash s = [] \<or> asel_ConfigHash s = alg_ConfigHash algorithm)) selectors"

definition matchesSeries :: "seriesSelector list \<Rightarrow> string \<Rightarrow> string \<Rightarrow> string \<Rightarrow> bool" where
  "matchesSeries selectors dataset symbol timeframe =
     list_ex (\<lambda>s. sel_Symbol s = symbol \<and> sel_Timeframe s = timeframe \<and>
        (sel_Dataset s = [] \<or> sel_Dataset s = dataset)) selectors"

definition matches :: "Subscription \<Rightarrow> SignalEvent \<Rightarrow> bool" where
  "matches filt event =
     (if ev_Provisional event \<and> \<not> sub_Provisional filt then False
      else if \<not> ev_Provisional event \<and> \<not> sub_Confirmed filt then False
      else if sub_Series filt \<noteq> [] \<and>
          \<not> matchesSeries (sub_Series filt) (ev_Dataset event) (ev_Symbol event) (ev_Timeframe event) then False
      else if sub_EventTypes filt \<noteq> [] \<and> analysisEventType \<notin> set (sub_EventTypes filt) then False
      else if sub_Analyses filt \<noteq> [] \<and> \<not> matchesAnalysis (sub_Analyses filt) (ev_Algorithm event) then False
      else True)"

subsection \<open>Clients\<close>

record hubClient =
  hc_filter :: Subscription
  hc_send :: chan
  hc_active :: bool
  hc_pending :: "SignalEvent list"
  hc_lastCursor :: int
  hc_closed :: bool

definition new_client :: "Subscription \<Rightarrow> int \<Rightarrow> hubClient" where
  "new_client filt buffer =
     \<lparr>hc_filter = filt,
      hc_send = \<lparr>ch_buf = [], ch_cap = nat (if buffer \<le> 0 then 1024 else buffer), ch_closed = False\<rparr>,
      hc_active = False, hc_pending = [], hc_lastCursor = 0, hc_closed = False\<rparr>"

text \<open>\<^verbatim>\<open>c.closed = true; close(c.send)\<close>\<close>

definition shut :: "hubClient \<Rightarrow> hubClient option" where
  "shut c = map_option (\<lambda>ch. c\<lparr>hc_closed := True, hc_send := ch\<rparr>) (chan_close (hc_send c))"

text \<open>A send that succeeds moves the cursor of the client when the event is durable.\<close>

definition sent :: "chan \<Rightarrow> SignalEvent \<Rightarrow> hubClient \<Rightarrow> hubClient" where
  "sent ch event c =
     c\<lparr>hc_send := ch, hc_lastCursor := (if 0 < ev_Cursor event then ev_Cursor event else hc_lastCursor c)\<rparr>"

definition enqueue :: "hubClient \<Rightarrow> SignalEvent \<Rightarrow> hubClient option" where
  "enqueue c event =
     (if \<not> matches (hc_filter c) event then Some c
      else if hc_closed c then Some c
      else if 0 < ev_Cursor event \<and> ev_Cursor event \<le> hc_lastCursor c then Some c
      else if \<not> hc_active c then
        (if ch_cap (hc_send c) \<le> length (hc_pending c) then shut c
         else Some (c\<lparr>hc_pending := hc_pending c @ [event]\<rparr>))
      else case chan_try_send event (hc_send c) of
          None \<Rightarrow> None
        | Some (Some ch) \<Rightarrow> Some (sent ch event c)
        | Some None \<Rightarrow> shut c)"

definition pending_before :: "SignalEvent \<Rightarrow> SignalEvent \<Rightarrow> bool" where
  "pending_before x y =
     (let left = ev_Cursor x; right = ev_Cursor y
      in if left = 0 then False else if right = 0 then True else left < right)"

text \<open>The loop of \<^verbatim>\<open>activate\<close>; the flag tells whether it returned early.\<close>

fun activate_loop :: "int \<Rightarrow> hubClient \<Rightarrow> SignalEvent list \<Rightarrow> (hubClient \<times> bool) option" where
  "activate_loop afterCursor c [] = Some (c, False)"
| "activate_loop afterCursor c (event # events) =
     (if 0 < ev_Cursor event \<and> ev_Cursor event \<le> afterCursor then activate_loop afterCursor c events
      else case chan_try_send event (hc_send c) of
          None \<Rightarrow> None
        | Some (Some ch) \<Rightarrow> activate_loop afterCursor (sent ch event c) events
        | Some None \<Rightarrow> (if \<not> hc_closed c then map_option (\<lambda>c'. (c', True)) (shut c) else Some (c, True)))"

definition activate :: "hubClient \<Rightarrow> int \<Rightarrow> hubClient option" where
  "activate c afterCursor =
     (if hc_closed c then Some c
      else let pending = slice_sort pending_before (hc_pending c)
      in case activate_loop afterCursor (c\<lparr>hc_pending := pending\<rparr>) pending of
           None \<Rightarrow> None
         | Some (c', True) \<Rightarrow> Some c'
         | Some (c', False) \<Rightarrow>
             Some (c'\<lparr>hc_pending := [],
                      hc_lastCursor := (if hc_lastCursor c' < afterCursor then afterCursor else hc_lastCursor c'),
                      hc_active := True\<rparr>))"

definition close_client :: "hubClient \<Rightarrow> hubClient option" where
  "close_client c = (if \<not> hc_closed c then shut c else Some c)"

subsection \<open>The hub\<close>

text \<open>The set of client pointers: identities with the client each points to.\<close>

type_synonym Hub = "(nat \<times> hubClient) list"

definition NewHub :: Hub where "NewHub = []"

fun Hub_Publish :: "Hub \<Rightarrow> SignalEvent \<Rightarrow> Hub option" where
  "Hub_Publish [] event = Some []"
| "Hub_Publish ((i, c) # h) event =
     (case enqueue c event of
        None \<Rightarrow> None
      | Some c' \<Rightarrow> map_option ((#) (i, c')) (Hub_Publish h event))"

definition subscribe :: "Hub \<Rightarrow> nat \<Rightarrow> Subscription \<Rightarrow> int \<Rightarrow> Hub" where
  "subscribe h i filt buffer = AList.update i (new_client filt buffer) h"

definition unsubscribe :: "Hub \<Rightarrow> nat \<Rightarrow> Hub \<times> hubClient option" where
  "unsubscribe h i = (AList.delete i h, Option.bind (map_of h i) close_client)"

subsection \<open>What a client may see\<close>

text \<open>
  The steps of one client: publications, the activation after the replay, the reader taking
  an event, and the disconnect. The second component is what the reader took.
\<close>

inductive client_step :: "hubClient \<times> SignalEvent list \<Rightarrow> hubClient \<times> SignalEvent list \<Rightarrow> bool" where
  publish: "enqueue c event = Some c' \<Longrightarrow> client_step (c, out) (c', out)"
| activation: "activate c afterCursor = Some c' \<Longrightarrow> client_step (c, out) (c', out)"
| disconnect: "close_client c = Some c' \<Longrightarrow> client_step (c, out) (c', out)"
| receive: "ch_buf (hc_send c) = event # rest \<Longrightarrow>
    client_step (c, out) (c\<lparr>hc_send := (hc_send c)\<lparr>ch_buf := rest\<rparr>\<rparr>, out @ [event])"

definition durable_cursors :: "SignalEvent list \<Rightarrow> int list" where
  "durable_cursors evs = filter (\<lambda>c. 0 < c) (map ev_Cursor evs)"

text \<open>
  The invariant: the flag is the state of the channel, the buffers are within the capacity,
  nothing is sent before the activation, and the durable cursors handed to the channel are
  in order and bounded by the cursor of the client.
\<close>

definition client_inv :: "hubClient \<times> SignalEvent list \<Rightarrow> bool" where
  "client_inv = (\<lambda>(c, out).
     hc_closed c = ch_closed (hc_send c) \<and>
     length (ch_buf (hc_send c)) \<le> ch_cap (hc_send c) \<and>
     length (hc_pending c) \<le> ch_cap (hc_send c) \<and>
     (hc_active c \<longrightarrow> hc_pending c = []) \<and>
     (\<not> hc_active c \<and> \<not> hc_closed c \<longrightarrow> ch_buf (hc_send c) = [] \<and> out = []) \<and>
     0 \<le> hc_lastCursor c \<and>
     sorted (durable_cursors (out @ ch_buf (hc_send c))) \<and>
     (\<forall>x \<in> set (durable_cursors (out @ ch_buf (hc_send c))). x \<le> hc_lastCursor c))"

subsection \<open>Activation\<close>

definition replay_kept :: "int \<Rightarrow> SignalEvent list \<Rightarrow> SignalEvent list" where
  "replay_kept afterCursor = filter (\<lambda>e. \<not> (0 < ev_Cursor e \<and> ev_Cursor e \<le> afterCursor))"

definition last_cursor :: "int \<Rightarrow> SignalEvent list \<Rightarrow> int" where
  "last_cursor l evs = foldl (\<lambda>l e. if 0 < ev_Cursor e then ev_Cursor e else l) l evs"

lemma durable_cursors_simps [simp]:
  "durable_cursors [] = []"
  "durable_cursors (e # evs) = (if 0 < ev_Cursor e then ev_Cursor e # durable_cursors evs else durable_cursors evs)"
  "durable_cursors (evs @ evs') = durable_cursors evs @ durable_cursors evs'"
  by (simp_all add: durable_cursors_def)

lemma last_cursor_durable:
  "last_cursor l evs = (if durable_cursors evs = [] then l else last (durable_cursors evs))"
  by (induction evs arbitrary: l) (auto simp: last_cursor_def)

lemma activate_loop_room:
  assumes "\<not> ch_closed (hc_send c)"
    and "length (ch_buf (hc_send c)) + length (replay_kept a evs) \<le> ch_cap (hc_send c)"
  shows "activate_loop a c evs = Some (c\<lparr>hc_send := (hc_send c)\<lparr>ch_buf := ch_buf (hc_send c) @ replay_kept a evs\<rparr>,
      hc_lastCursor := last_cursor (hc_lastCursor c) (replay_kept a evs)\<rparr>, False)"
  using assms
  by (induction evs arbitrary: c) (auto simp: replay_kept_def last_cursor_def chan_try_send_def sent_def split: if_splits)

interpretation pending_order: weak_order pending_before
  by unfold_locales (auto simp: pending_before_def Let_def split: if_splits)

lemma sorted_durable_cursors:
  "sorted_wrt (\<lambda>x y. \<not> pending_before y x) evs \<Longrightarrow> sorted (durable_cursors evs)"
  by (induction evs) (auto simp: durable_cursors_def pending_before_def Let_def)

lemma sorted_replay:
  "sorted (durable_cursors (replay_kept a (slice_sort pending_before evs)))"
  unfolding replay_kept_def
  by (intro sorted_durable_cursors sorted_wrt_filter pending_order.sorted_slice_sort)

lemma last_cursor_sorted:
  assumes "sorted (durable_cursors evs)" and "x \<in> set (durable_cursors evs)"
  shows "x \<le> last_cursor l evs"
proof -
  have "x \<le> last (durable_cursors evs)"
    using assms by (cases "durable_cursors evs" rule: rev_cases) (auto simp: sorted_append)
  with assms(2) show ?thesis by (auto simp: last_cursor_durable)
qed

lemma last_cursor_nonneg: "0 \<le> l \<Longrightarrow> 0 \<le> last_cursor l evs"
  by (induction evs arbitrary: l) (auto simp: last_cursor_def)

lemma activate_inactive:
  assumes "client_inv (c, out)" and "\<not> hc_closed c"
  shows "activate c a = Some (c\<lparr>hc_send := (hc_send c)\<lparr>ch_buf := ch_buf (hc_send c) @
        replay_kept a (slice_sort pending_before (hc_pending c))\<rparr>, hc_pending := [],
      hc_lastCursor := max a (last_cursor (hc_lastCursor c) (replay_kept a (slice_sort pending_before (hc_pending c)))),
      hc_active := True\<rparr>)"
proof -
  let ?p = "slice_sort pending_before (hc_pending c)"
  have "length (replay_kept a ?p) \<le> length (hc_pending c)"
    unfolding replay_kept_def by (metis length_filter_le length_slice_sort)
  moreover have "hc_pending c = [] \<or> ch_buf (hc_send c) = []"
    using assms by (auto simp: client_inv_def)
  ultimately have "length (ch_buf (hc_send c)) + length (replay_kept a ?p) \<le> ch_cap (hc_send c)"
    using assms by (auto simp: client_inv_def)
  moreover have "\<not> ch_closed (hc_send c)" using assms by (simp add: client_inv_def)
  ultimately show ?thesis
    using assms(2) by (simp add: activate_def Let_def activate_loop_room max_def)
qed

subsection \<open>The invariant\<close>

lemma enqueue_cases:
  assumes "enqueue c event = Some c'"
  obtains (same) "c' = c"
    | (shut) "\<not> hc_closed c" "c' = c\<lparr>hc_closed := True, hc_send := (hc_send c)\<lparr>ch_closed := True\<rparr>\<rparr>"
    | (wait) "\<not> hc_closed c" "\<not> hc_active c" "length (hc_pending c) < ch_cap (hc_send c)"
        "c' = c\<lparr>hc_pending := hc_pending c @ [event]\<rparr>"
    | (send) "\<not> hc_closed c" "hc_active c" "length (ch_buf (hc_send c)) < ch_cap (hc_send c)"
        "matches (hc_filter c) event" "0 < ev_Cursor event \<Longrightarrow> hc_lastCursor c < ev_Cursor event"
        "c' = sent ((hc_send c)\<lparr>ch_buf := ch_buf (hc_send c) @ [event]\<rparr>) event c"
proof -
  have "c' = c \<or>
      (\<not> hc_closed c \<and> c' = c\<lparr>hc_closed := True, hc_send := (hc_send c)\<lparr>ch_closed := True\<rparr>\<rparr>) \<or>
      (\<not> hc_closed c \<and> \<not> hc_active c \<and> length (hc_pending c) < ch_cap (hc_send c) \<and>
       c' = c\<lparr>hc_pending := hc_pending c @ [event]\<rparr>) \<or>
      (\<not> hc_closed c \<and> hc_active c \<and> length (ch_buf (hc_send c)) < ch_cap (hc_send c) \<and>
       matches (hc_filter c) event \<and> (0 < ev_Cursor event \<longrightarrow> hc_lastCursor c < ev_Cursor event) \<and>
       c' = sent ((hc_send c)\<lparr>ch_buf := ch_buf (hc_send c) @ [event]\<rparr>) event c)"
    using assms unfolding enqueue_def shut_def chan_close_def chan_try_send_def
    by (simp add: not_le split: if_splits)
  then show thesis using same shut wait send by blast
qed

lemma client_inv_bound:
  "client_inv (c, out) \<Longrightarrow> x \<in> set (durable_cursors (out @ ch_buf (hc_send c))) \<Longrightarrow> x \<le> hc_lastCursor c"
  by (simp add: client_inv_def)

lemma enqueue_inv:
  assumes "enqueue c event = Some c'" and "client_inv (c, out)"
  shows "client_inv (c', out)"
  using assms(1)
proof (cases rule: enqueue_cases)
  case send
  with assms(2) have "\<forall>x \<in> set (durable_cursors (out @ ch_buf (hc_send c))). 0 < ev_Cursor event \<longrightarrow> x < ev_Cursor event"
    using client_inv_bound order.strict_trans1 by blast
  with send assms(2) show ?thesis by (auto simp: client_inv_def sent_def sorted_append less_imp_le)
qed (use assms(2) in \<open>auto simp: client_inv_def\<close>)

lemma activate_inv:
  assumes "activate c a = Some c'" and "client_inv (c, out)"
  shows "client_inv (c', out)"
proof (cases "hc_closed c")
  case True
  with assms show ?thesis by (auto simp: activate_def)
next
  case False
  let ?k = "replay_kept a (slice_sort pending_before (hc_pending c))"
  have len: "length ?k \<le> length (hc_pending c)"
    unfolding replay_kept_def by (metis length_filter_le length_slice_sort)
  have c': "c' = c\<lparr>hc_send := (hc_send c)\<lparr>ch_buf := ch_buf (hc_send c) @ ?k\<rparr>, hc_pending := [],
      hc_lastCursor := max a (last_cursor (hc_lastCursor c) ?k), hc_active := True\<rparr>"
    using activate_inactive [OF assms(2) False, of a] assms(1) by simp
  show ?thesis
  proof (cases "hc_active c")
    case True
    with assms(2) False show ?thesis
      by (auto simp: c' client_inv_def replay_kept_def slice_sort_def last_cursor_def le_max_iff_disj)
  next
    case inactive: False
    then have "out = []" "ch_buf (hc_send c) = []" using assms False by (auto simp: client_inv_def)
    with assms(2) False inactive len sorted_replay [of a "hc_pending c"]
      last_cursor_sorted [of ?k _ "hc_lastCursor c"] last_cursor_nonneg [of "hc_lastCursor c" ?k]
    show ?thesis by (auto simp: c' client_inv_def le_max_iff_disj)
  qed
qed

lemma client_step_inv: "client_step s t \<Longrightarrow> client_inv s \<Longrightarrow> client_inv t"
proof (induction rule: client_step.induct)
  case (publish c event c' out)
  then show ?case by (rule enqueue_inv)
next
  case (activation c afterCursor c' out)
  then show ?case by (rule activate_inv)
next
  case (disconnect c c' out)
  then show ?case by (auto simp: client_inv_def close_client_def shut_def chan_close_def split: if_splits)
next
  case (receive c event rest out)
  then show ?case by (auto simp: client_inv_def)
qed

lemma new_client_inv: "client_inv (new_client filt buffer, [])"
  by (simp add: client_inv_def new_client_def)

interpretation client: transition_system
  "\<lambda>s. \<exists>filt buffer. s = (new_client filt buffer, [])" client_step client_inv
  by unfold_locales (use new_client_inv client_step_inv in blast)+

lemma client_reachable:
  "client_step\<^sup>*\<^sup>* (new_client filt buffer, []) s \<Longrightarrow> client_inv s"
  by (rule client.reachable_inv) auto

lemma client_inv_no_panic:
  assumes "client_inv (c, out)"
  shows "enqueue c event \<noteq> None" and "activate c a \<noteq> None" and "close_client c \<noteq> None"
proof -
  have "hc_closed c = ch_closed (hc_send c)" using assms by (simp add: client_inv_def)
  then show "enqueue c event \<noteq> None" "close_client c \<noteq> None"
    by (auto simp: enqueue_def close_client_def shut_def chan_close_def chan_try_send_def)
  show "activate c a \<noteq> None"
    using activate_inactive [OF assms] by (cases "hc_closed c") (simp_all add: activate_def)
qed

subsection \<open>Properties\<close>

definition sample_subscription :: Subscription where
  "sample_subscription = \<lparr>sub_Series = [], sub_Analyses = [], sub_EventTypes = [], sub_Confirmed = True,
     sub_Provisional = False\<rparr>"

lemmas sample_simps = sample_subscription_def sample_event_def new_client_def enqueue_def activate_def matches_def
  chan_try_send_def chan_close_def shut_def sent_def slice_sort_def pending_before_def

lemma sample_enqueue: "client_step\<^sup>*\<^sup>* (new_client sample_subscription 4, [])
    ((new_client sample_subscription 4)\<lparr>hc_pending := [sample_event 7]\<rparr>, [])"
  by (rule r_into_rtranclp, rule client_step.publish [of _ "sample_event 7"]) (simp add: sample_simps)

text \<open>
  C27. A client never panics: whatever was published, activated, received or closed before,
  neither a publication nor the activation nor the disconnect sends on or closes a closed
  channel.
\<close>

theorem hub_client_never_panics:
  assumes "client_step\<^sup>*\<^sup>* (new_client filt buffer, []) (c, out)"
  shows "enqueue c event \<noteq> None \<and> activate c afterCursor \<noteq> None \<and> close_client c \<noteq> None"
  using client_inv_no_panic [OF client_reachable [OF assms]] by simp

theorem hub_client_never_panics_witness:
  "close_client ((new_client sample_subscription 4)\<lparr>hc_pending := [sample_event 7]\<rparr>) \<noteq> None \<and>
   enqueue ((new_client sample_subscription 4)\<lparr>hc_pending := [sample_event 7]\<rparr>) (sample_event 8) \<noteq> None"
  using hub_client_never_panics [OF sample_enqueue, of "sample_event 8" 0] by simp

text \<open>
  C28. The durable cursors a reader receives never go backwards, and after the activation an event
  is handed to the channel only when it matches the filter and, if it is durable, its cursor is
  beyond every durable cursor the client was given before: no duplicate of a replayed event
  is delivered.
\<close>

theorem hub_client_cursor_order:
  assumes "client_step\<^sup>*\<^sup>* (new_client filt buffer, []) (c, out)"
  shows "sorted (durable_cursors out) \<and>
    (\<forall>event c'. enqueue c event = Some c' \<and> ch_buf (hc_send c') \<noteq> ch_buf (hc_send c) \<longrightarrow>
       ch_buf (hc_send c') = ch_buf (hc_send c) @ [event] \<and> matches (hc_filter c) event \<and>
       (0 < ev_Cursor event \<longrightarrow>
          (\<forall>x \<in> set (durable_cursors (out @ ch_buf (hc_send c))). x < ev_Cursor event)))"
proof -
  have i: "client_inv (c, out)" by (rule client_reachable [OF assms])
  have "ch_buf (hc_send c') = ch_buf (hc_send c) @ [event] \<and> matches (hc_filter c) event \<and>
       (0 < ev_Cursor event \<longrightarrow>
          (\<forall>x \<in> set (durable_cursors (out @ ch_buf (hc_send c))). x < ev_Cursor event))"
    if e: "enqueue c event = Some c'" and n: "ch_buf (hc_send c') \<noteq> ch_buf (hc_send c)" for event c'
    using e
  proof (cases rule: enqueue_cases)
    case send
    then have "\<forall>x \<in> set (durable_cursors (out @ ch_buf (hc_send c))). 0 < ev_Cursor event \<longrightarrow> x < ev_Cursor event"
      using client_inv_bound [OF i] order.strict_trans1 by blast
    with send show ?thesis by (simp add: sent_def)
  qed (use n in auto)
  moreover have "sorted (durable_cursors out)" using i by (simp add: client_inv_def sorted_append)
  ultimately show ?thesis by blast
qed

theorem hub_client_cursor_order_witness:
  "sorted (durable_cursors []) \<and>
   (\<exists>c. client_step\<^sup>*\<^sup>* (new_client sample_subscription 4, []) (c, []) \<and> hc_pending c = [sample_event 7])"
  using hub_client_cursor_order [OF sample_enqueue] sample_enqueue by auto

text \<open>
  The activation loses nothing: a client that is still open becomes active, and its channel
  holds exactly the events that waited, in the order of their cursors with the provisional ones
  last, without those the replay covered.
\<close>

theorem hub_activation_lossless:
  assumes "client_step\<^sup>*\<^sup>* (new_client filt buffer, []) (c, out)" and "\<not> hc_active c" and "\<not> hc_closed c"
  shows "\<exists>c'. activate c afterCursor = Some c' \<and> hc_active c' \<and> \<not> hc_closed c' \<and> hc_pending c' = [] \<and>
    ch_buf (hc_send c') = filter (\<lambda>e. \<not> (0 < ev_Cursor e \<and> ev_Cursor e \<le> afterCursor))
      (slice_sort pending_before (hc_pending c)) \<and>
    sorted (durable_cursors (ch_buf (hc_send c'))) \<and> afterCursor \<le> hc_lastCursor c'"
proof -
  have i: "client_inv (c, out)" by (rule client_reachable [OF assms(1)])
  have b: "ch_buf (hc_send c) = []" using i assms(2,3) by (simp add: client_inv_def)
  show ?thesis
    using activate_inactive [OF i assms(3), of afterCursor] b assms(3) sorted_replay [of afterCursor "hc_pending c"]
    by (simp add: replay_kept_def)
qed

theorem hub_activation_lossless_witness:
  "\<exists>c'. activate ((new_client sample_subscription 4)\<lparr>hc_pending := [sample_event 7]\<rparr>) 3 = Some c' \<and>
     ch_buf (hc_send c') = [sample_event 7] \<and> hc_active c'"
  using hub_activation_lossless [OF sample_enqueue, of 3]
  by (auto simp: sample_simps)

end
