(* ===== verification/Contract.thy ===== *)
theory Contract
  imports GoStrings Hub Lane_Properties
begin

text \<open>
  \<^verbatim>\<open>internal/api/contract.go\<close>: the public form of signal events. The structs of the wire are
  records, the values behind \<^verbatim>\<open>any\<close> a datatype of the shapes the program puts there; an encoded
  event is the record it was encoded from, and encoding fails where \<^verbatim>\<open>json.Marshal\<close> does: on a number
  that is not finite and on a year outside the four digits of RFC 3339.
\<close>

subsection \<open>The wire types\<close>

definition protocolVersion :: string where "protocolVersion = ''signals.v1''"
definition analysisSchema :: string where "analysisSchema = ''urn:ytstack:signals:schema:analysis:v1''"

datatype attribute = AttrText string | AttrNumber f64 | AttrInt int

record pointPrimitive =
  pp_ID :: string
  pp_Time :: time
  pp_Value :: "f64 option"
  pp_Label :: string
  pp_Direction :: string
  pp_ConfirmedAt :: "time option"
  pp_Attributes :: "(string \<times> attribute) list"

record zonePrimitive =
  zp_ID :: string
  zp_StartTime :: time
  zp_EndTime :: time
  zp_Upper :: f64
  zp_Lower :: f64
  zp_Label :: string
  zp_Direction :: string
  zp_State :: string
  zp_Attributes :: "(string \<times> attribute) list"

record levelPrimitive =
  lp_ID :: string
  lp_Value :: f64
  lp_Label :: string
  lp_Direction :: string
  lp_Attributes :: "(string \<times> attribute) list"

datatype output_value =
    TextValue string | NumberValue f64
  | PointsValue "pointPrimitive list" | ZonesValue "zonePrimitive list" | LevelsValue "levelPrimitive list"

record displayHint =
  dh_Kind :: string
  dh_Pane :: string
  dh_Group :: string
  dh_Order :: int

record analysisOutput =
  ao_Name :: string
  ao_Type :: string
  ao_Unit :: string
  ao_Value :: output_value
  ao_Display :: displayHint

record implementationRef =
  im_Engine :: string
  im_EngineVersion :: string
  im_AlgorithmVersion :: string
  im_ConfigHash :: string

record analysisRef =
  ar_Name :: string
  ar_Parameters :: "(string \<times> int) list"

record analysisBar =
  ab_OpenTime :: time
  ab_CloseTime :: time
  ab_Revision :: uint64
  ab_Status :: string
  ab_SourceID :: string
  ab_Open :: f64
  ab_High :: f64
  ab_Low :: f64
  ab_Close :: f64
  ab_Volume :: f64
  ab_Trades :: uint64

record analysisData =
  ad_Series :: SeriesKey
  ad_Bar :: analysisBar
  ad_Reset :: bool
  ad_History :: "analysisBar list"
  ad_Analysis :: analysisRef
  ad_AnalysisRevision :: uint64
  ad_Outputs :: "analysisOutput list"
  ad_Ready :: bool
  ad_Samples :: uint64
  ad_RequiredSamples :: uint64
  ad_Implementation :: implementationRef

record analysisEvent =
  ae_SpecVersion :: string
  ae_ID :: string
  ae_Source :: string
  ae_Type :: string
  ae_Subject :: string
  ae_Time :: time
  ae_DataContentType :: string
  ae_DataSchema :: string
  ae_Data :: analysisData
  ae_CorrelationID :: string

datatype contract_error =
    AnalysisTimeframe timeframe_error | NoIndicatorPayload string | NoMarketPayload string | UnsupportedEvent string | EncodeFailed

subsection \<open>Identities\<close>

definition primitiveID :: "string \<Rightarrow> string \<Rightarrow> time \<Rightarrow> f64 \<Rightarrow> string" where
  "primitiveID kind identity t v =
     sha256_hex (kind @ ''|'' @ identity @ ''|'' @ rfc3339nano t @ ''|'' @ fmt_g v)"

definition eventSource :: "string \<Rightarrow> string" where
  "eventSource dataset = ''urn:ytstack:signals:dataset:'' @ base64_encode dataset"

definition syntheticEventID :: "SeriesKey \<Rightarrow> time \<Rightarrow> AlgorithmRef \<Rightarrow> string \<Rightarrow> string" where
  "syntheticEventID series barTime algorithm suffix =
     sha256_hex (SeriesKey_String series @ ''|'' @ rfc3339nano barTime @ ''|'' @ alg_Name algorithm @ ''|'' @
       alg_Version algorithm @ ''|'' @ alg_ConfigHash algorithm @ ''|'' @ suffix)"

definition candleSourceID :: "string \<Rightarrow> string \<Rightarrow> string \<Rightarrow> time \<Rightarrow> uint64 \<Rightarrow> string" where
  "candleSourceID dataset symbol timeframe openTime revision =
     sha256_hex (dataset @ ''|'' @ symbol @ ''|'' @ timeframe @ ''|'' @ rfc3339nano openTime @ ''|'' @ format_uint revision)"

definition indicatorConfigHash :: "string \<Rightarrow> string \<Rightarrow> int \<Rightarrow> string" where
  "indicatorConfigHash name version period =
     ''sha256:'' @ sha256_hex (name @ ''|'' @ version @ ''|'' @ itoa period @ ''|sma-seed'')"

text \<open>The copy of \<^verbatim>\<open>marketFactsAlgorithm\<close> in this package.\<close>

definition wire_marketFactsAlgorithm :: "AlgorithmRef \<Rightarrow> int list \<Rightarrow> AlgorithmRef" where
  "wire_marketFactsAlgorithm base periods =
     \<lparr>alg_Name = alg_Name base, alg_Version = alg_Version base,
      alg_ConfigHash = ''sha256:'' @ sha256_hex (alg_ConfigHash base @
        concat (map (\<lambda>period. ''|'' @ indicatorConfigHash ''ema'' EMAAlgorithmVersion period) periods))\<rparr>"

definition eventCursor :: "SignalEvent \<Rightarrow> string" where
  "eventCursor event = (if ev_Cursor event \<le> 0 then [] else itoa (ev_Cursor event))"

text \<open>\<^verbatim>\<open>json.Marshal\<close> of the parameters, a map with at most the key \<^verbatim>\<open>period\<close>.\<close>

definition parameters_json :: "(string \<times> int) list \<Rightarrow> string" where
  "parameters_json ps = ''{'' @ (case ps of [] \<Rightarrow> [] | (k, v) # _ \<Rightarrow> CHR 0x22 # k @ CHR 0x22 # '':'' @ itoa v) @ ''}''"

definition analysisEventID :: "analysisData \<Rightarrow> string" where
  "analysisEventID data =
     sha256_hex (SeriesKey_String (ad_Series data) @ ''|'' @ rfc3339nano (ab_OpenTime (ad_Bar data)) @ ''|'' @
       ar_Name (ad_Analysis data) @ ''|'' @ parameters_json (ar_Parameters (ad_Analysis data)) @ ''|'' @
       im_ConfigHash (ad_Implementation data) @ ''|'' @ ab_Status (ad_Bar data) @ ''|'' @
       format_uint (ad_AnalysisRevision data))"

subsection \<open>Primitives\<close>

definition canonicalDirection :: "string \<Rightarrow> string" where
  "canonicalDirection v =
     (if v \<in> set [''H'', ''down'', ''sell_side'', ''bear'', ''bearish''] then ''bearish''
      else if v \<in> set [''L'', ''up'', ''buy_side'', ''bull'', ''bullish''] then ''bullish''
      else ''neutral'')"

definition zoneState :: "string \<Rightarrow> string" where
  "zoneState v = (if v = [] then ''active'' else v)"

definition zonePrimitiveFrom :: "PriceZone \<Rightarrow> zonePrimitive" where
  "zonePrimitiveFrom z = \<lparr>zp_ID = zone_ID z, zp_StartTime = zone_FromTime z, zp_EndTime = zone_ToTime z,
     zp_Upper = zone_Top z, zp_Lower = zone_Bottom z, zp_Label = zone_Kind z, zp_Direction = canonicalDirection (zone_Side z),
     zp_State = zoneState (zone_State z),
     zp_Attributes = [(''grade'', AttrText (zone_Grade z)), (''source_direction'', AttrText (zone_Side z))]\<rparr>"

definition zonePrimitives :: "PriceZone list \<Rightarrow> zonePrimitive list" where
  "zonePrimitives zs = map zonePrimitiveFrom zs"

definition structureZonePrimitives :: "StructureEvent list \<Rightarrow> zonePrimitive list" where
  "structureZonePrimitives vs = concat (map (\<lambda>v. case se_Zone v of None \<Rightarrow> [] | Some z \<Rightarrow> [zonePrimitiveFrom z]) vs)"

definition zoneTransitionPrimitives :: "ZoneTransition list \<Rightarrow> pointPrimitive list" where
  "zoneTransitionPrimitives vs = map (\<lambda>v. let z = zt_Zone v; price = (zone_Top z + zone_Bottom z) / lit 2 in
     \<lparr>pp_ID = primitiveID ''zone_transition'' (zone_ID z @ ''|'' @ zt_Transition v) (zt_At v) price, pp_Time = zt_At v,
      pp_Value = Some price, pp_Label = zt_Transition v, pp_Direction = canonicalDirection (zone_Side z), pp_ConfirmedAt = None,
      pp_Attributes = [(''zone_id'', AttrText (zone_ID z)), (''kind'', AttrText (zone_Kind z)),
        (''transition'', AttrText (zt_Transition v)), (''upper'', AttrNumber (zone_Top z)),
        (''lower'', AttrNumber (zone_Bottom z)), (''source_direction'', AttrText (zone_Side z))]\<rparr>) vs"

definition swingPrimitives :: "Swing list \<Rightarrow> pointPrimitive list" where
  "swingPrimitives vs = map (\<lambda>v.
     \<lparr>pp_ID = primitiveID ''swing'' (sw_Type v) (sw_Time v) (sw_Price v), pp_Time = sw_Time v, pp_Value = Some (sw_Price v),
      pp_Label = sw_Label v, pp_Direction = canonicalDirection (sw_Type v), pp_ConfirmedAt = Some (sw_ConfirmTime v),
      pp_Attributes = [(''kind'', AttrText (sw_Type v))]\<rparr>) vs"

definition structurePrimitives :: "StructureEvent list \<Rightarrow> pointPrimitive list" where
  "structurePrimitives vs = map (\<lambda>v.
     \<lparr>pp_ID = primitiveID ''structure'' (se_Kind v @ ''|'' @ se_Side v) (se_Time v) (se_Price v), pp_Time = se_Time v,
      pp_Value = Some (se_Price v), pp_Label = se_Kind v, pp_Direction = canonicalDirection (se_Side v), pp_ConfirmedAt = None,
      pp_Attributes = [(''kind'', AttrText (se_Kind v)), (''source_direction'', AttrText (se_Side v))]\<rparr>) vs"

definition patternPrimitives :: "PatternEvent list \<Rightarrow> pointPrimitive list" where
  "patternPrimitives vs = map (\<lambda>v.
     \<lparr>pp_ID = primitiveID ''pattern'' (pat_Kind v @ ''|'' @ pat_Side v) (pat_Time v) 0, pp_Time = pat_Time v, pp_Value = None,
      pp_Label = pat_Kind v, pp_Direction = canonicalDirection (pat_Side v), pp_ConfirmedAt = None,
      pp_Attributes = [(''kind'', AttrText (pat_Kind v)), (''source_direction'', AttrText (pat_Side v))]\<rparr>) vs"

definition levelPrimitives :: "PriceLevel list \<Rightarrow> levelPrimitive list" where
  "levelPrimitives vs = map (\<lambda>v.
     \<lparr>lp_ID = primitiveID ''level'' (lv_Kind v @ ''|'' @ lv_Side v) zero_time (lv_Price v), lp_Value = lv_Price v,
      lp_Label = lv_Kind v, lp_Direction = canonicalDirection (lv_Side v),
      lp_Attributes = [(''touches'', AttrInt (lv_Touches v)), (''source_direction'', AttrText (lv_Side v))]\<rparr>) vs"

definition premiumDiscountPrimitives :: "PremiumDiscount option \<Rightarrow> zonePrimitive list" where
  "premiumDiscountPrimitives value =
     (case value of
        None \<Rightarrow> []
      | Some v \<Rightarrow>
          (let base = (\<lambda>i label direction upper lower. \<lparr>zp_ID = i, zp_StartTime = pd_FromTime v, zp_EndTime = pd_ToTime v,
                 zp_Upper = upper, zp_Lower = lower, zp_Label = label, zp_Direction = canonicalDirection direction,
                 zp_State = ''active'', zp_Attributes = [(''trend'', AttrText (pd_Trend v))]\<rparr>)
           in [base ''premium'' ''premium'' ''down'' (pd_High v) (pd_Equilibrium v),
               base ''discount'' ''discount'' ''up'' (pd_Equilibrium v) (pd_Low v),
               base ''poi'' ''poi'' (pd_Trend v) (pd_POITop v) (pd_POIBottom v)]))"

definition market_output :: "string \<Rightarrow> string \<Rightarrow> output_value \<Rightarrow> string \<Rightarrow> string \<Rightarrow> string \<Rightarrow> analysisOutput" where
  "market_output name type val kind pane grp = \<lparr>ao_Name = name, ao_Type = type, ao_Unit = [], ao_Value = val,
     ao_Display = \<lparr>dh_Kind = kind, dh_Pane = pane, dh_Group = grp, dh_Order = 0\<rparr>\<rparr>"

definition marketOutputs :: "MarketState \<Rightarrow> analysisOutput list" where
  "marketOutputs m =
     [market_output ''trend'' ''text'' (TextValue (ms_Trend m)) ''state'' ''status'' [],
      market_output ''swings'' ''points'' (PointsValue (swingPrimitives (ms_Swings m))) ''polyline'' ''price'' ''structure'',
      market_output ''structure'' ''markers'' (PointsValue (structurePrimitives (ms_Structure m))) ''markers'' ''price'' ''structure'',
      market_output ''structure_zones'' ''zones'' (ZonesValue (structureZonePrimitives (ms_Structure m))) ''zones'' ''price'' ''structure'',
      market_output ''ranges'' ''zones'' (ZonesValue (zonePrimitives (ms_Ranges m))) ''zones'' ''price'' ''ranges'',
      market_output ''key_levels'' ''levels'' (LevelsValue (levelPrimitives (ms_KeyLevels m))) ''levels'' ''price'' ''ranges'',
      market_output ''fvgs'' ''zones'' (ZonesValue (zonePrimitives (ms_FVGs m))) ''zones'' ''price'' ''fvg'',
      market_output ''order_blocks'' ''zones'' (ZonesValue (zonePrimitives (ms_OrderBlocks m))) ''zones'' ''price'' ''order_blocks'',
      market_output ''liquidity'' ''levels'' (LevelsValue (levelPrimitives (ms_Liquidity m))) ''levels'' ''price'' ''liquidity'',
      market_output ''liquidity_sweeps'' ''markers'' (PointsValue (patternPrimitives (ms_LiquiditySweeps m))) ''markers'' ''price'' ''liquidity'',
      market_output ''patterns'' ''markers'' (PointsValue (patternPrimitives (ms_Patterns m))) ''markers'' ''price'' ''patterns'',
      market_output ''pattern_occurrences'' ''markers'' (PointsValue (patternPrimitives (ms_PatternOccurrences m))) ''markers'' ''price'' ''patterns'',
      market_output ''zone_transitions'' ''markers'' (PointsValue (zoneTransitionPrimitives (ms_ZoneTransitions m))) ''markers'' ''price'' ''zones'',
      market_output ''premium_discount'' ''zones'' (ZonesValue (premiumDiscountPrimitives (ms_PremiumDiscount m))) ''zones'' ''price'' ''premium_discount'']"

subsection \<open>Events\<close>

definition revisionForWireBar :: "Bar \<Rightarrow> uint64" where
  "revisionForWireBar bar = (if bar_Closed bar \<and> bar_Trades bar < - 1 then bar_Trades bar + 1 else bar_Trades bar)"

text \<open>A bar of the reset history.\<close>

definition history_bar :: "SignalEvent \<Rightarrow> int \<Rightarrow> Bar \<Rightarrow> analysisBar" where
  "history_bar event duration bar =
     (let revision = revisionForWireBar bar
      in \<lparr>ab_OpenTime = bar_OpenTime bar, ab_CloseTime = bar_OpenTime bar + duration, ab_Revision = revision,
          ab_Status = ''confirmed'',
          ab_SourceID = candleSourceID (ev_Dataset event) (ev_Symbol event) (ev_Timeframe event) (bar_OpenTime bar) revision,
          ab_Open = bar_Open bar, ab_High = bar_High bar, ab_Low = bar_Low bar, ab_Close = bar_Close bar,
          ab_Volume = bar_Volume bar, ab_Trades = bar_Trades bar\<rparr>)"

text \<open>The bar of the event itself, without prices when the event has no source bar.\<close>

definition event_bar :: "SignalEvent \<Rightarrow> int \<Rightarrow> analysisBar" where
  "event_bar event duration =
     (let price = (\<lambda>f. case ev_SourceBar event of None \<Rightarrow> 0 | Some bar \<Rightarrow> f bar)
      in \<lparr>ab_OpenTime = ev_BarOpenTime event, ab_CloseTime = ev_BarOpenTime event + duration, ab_Revision = ev_BarRevision event,
          ab_Status = (if ev_Provisional event then ''provisional'' else ''confirmed''),
          ab_SourceID = candleSourceID (ev_Dataset event) (ev_Symbol event) (ev_Timeframe event) (ev_BarOpenTime event)
            (ev_BarRevision event),
          ab_Open = price bar_Open, ab_High = price bar_High, ab_Low = price bar_Low, ab_Close = price bar_Close,
          ab_Volume = price bar_Volume, ab_Trades = (case ev_SourceBar event of None \<Rightarrow> 0 | Some bar \<Rightarrow> bar_Trades bar)\<rparr>)"

definition base_data :: "SignalEvent \<Rightarrow> int \<Rightarrow> analysisData" where
  "base_data event duration =
     \<lparr>ad_Series = \<lparr>key_Dataset = ev_Dataset event, key_Symbol = ev_Symbol event, key_Timeframe = ev_Timeframe event\<rparr>,
      ad_Bar = event_bar event duration, ad_Reset = ev_Reset event,
      ad_History = map (history_bar event duration) (ev_ResetHistory event),
      ad_Analysis = \<lparr>ar_Name = [], ar_Parameters = []\<rparr>, ad_AnalysisRevision = ev_AnalysisRevision event,
      ad_Outputs = [], ad_Ready = True, ad_Samples = 0, ad_RequiredSamples = 0,
      ad_Implementation = \<lparr>im_Engine = ''ytstack-native'', im_EngineVersion = alg_Version (ev_Algorithm event),
        im_AlgorithmVersion = alg_Version (ev_Algorithm event), im_ConfigHash = alg_ConfigHash (ev_Algorithm event)\<rparr>\<rparr>"

definition indicator_data :: "SignalEvent \<Rightarrow> IndicatorPayload \<Rightarrow> analysisData \<Rightarrow> analysisData" where
  "indicator_data event p data = data\<lparr>
     ad_Analysis := \<lparr>ar_Name = alg_Name (ev_Algorithm event), ar_Parameters = [(''period'', ip_Period p)]\<rparr>,
     ad_Ready := ip_Ready p, ad_Samples := ip_Samples p, ad_RequiredSamples := of_int (ip_Period p),
     ad_Outputs := (if ip_Ready p then [\<lparr>ao_Name = ''value'', ao_Type = ''number'', ao_Unit = ''price'',
       ao_Value = NumberValue (ip_Value p),
       ao_Display = \<lparr>dh_Kind = ''line'', dh_Pane = ''price'', dh_Group = alg_Name (ev_Algorithm event), dh_Order = ip_Period p\<rparr>\<rparr>] else [])\<rparr>"

definition ema_outputs :: "IndicatorState list \<Rightarrow> analysisOutput list" where
  "ema_outputs states = concat (map (\<lambda>st. case is_Value st of
      Some v \<Rightarrow> if is_Ready st then [\<lparr>ao_Name = ''ema_'' @ itoa (is_Period st), ao_Type = ''number'', ao_Unit = ''price'',
          ao_Value = NumberValue v, ao_Display = \<lparr>dh_Kind = [], dh_Pane = [], dh_Group = [], dh_Order = 0\<rparr>\<rparr>] else []
    | None \<Rightarrow> []) states)"

definition market_data :: "SignalEvent \<Rightarrow> MarketState \<Rightarrow> analysisData \<Rightarrow> analysisData" where
  "market_data event m data = data\<lparr>ad_Analysis := \<lparr>ar_Name = alg_Name (ev_Algorithm event), ar_Parameters = []\<rparr>,
     ad_Outputs := marketOutputs m @ ema_outputs (ev_Indicators event)\<rparr>"

definition analysis_data :: "SignalEvent \<Rightarrow> int \<Rightarrow> (contract_error, analysisData) result" where
  "analysis_data event duration =
     (if ev_EventType event = ''indicator.point'' then
        (case ev_Indicator event of
           None \<Rightarrow> Inl (NoIndicatorPayload (ev_EventID event))
         | Some p \<Rightarrow> Inr (indicator_data event p (base_data event duration)))
      else if ev_EventType event = ''market.state'' then
        (case ev_Market event of
           None \<Rightarrow> Inl (NoMarketPayload (ev_EventID event))
         | Some m \<Rightarrow> Inr (market_data event m (base_data event duration)))
      else Inl (UnsupportedEvent (ev_EventType event)))"

definition toAnalysisEvent :: "SignalEvent \<Rightarrow> time \<Rightarrow> (contract_error, analysisEvent) result" where
  "toAnalysisEvent event emittedAt =
     (case TimeframeDuration (ev_Timeframe event) of
        Inl e \<Rightarrow> Inl (AnalysisTimeframe e)
      | Inr duration \<Rightarrow>
          (case analysis_data event duration of
             Inl e \<Rightarrow> Inl e
           | Inr data \<Rightarrow>
               Inr \<lparr>ae_SpecVersion = ''1.0'', ae_ID = analysisEventID data, ae_Source = eventSource (ev_Dataset event),
                    ae_Type = analysisEventType,
                    ae_Subject = ev_Dataset event @ ''/'' @ ev_Symbol event @ ''/'' @ ev_Timeframe event,
                    ae_Time = (if \<not> ev_Provisional event \<and> \<not> ev_Reset event then ab_CloseTime (ad_Bar data) else emittedAt),
                    ae_DataContentType = ''application/json'', ae_DataSchema = analysisSchema, ae_Data = data,
                    ae_CorrelationID = ab_SourceID (ad_Bar data)\<rparr>))"

fun toAnalysisEvents :: "SignalEvent list \<Rightarrow> time \<Rightarrow> (contract_error, analysisEvent list) result" where
  "toAnalysisEvents [] emittedAt = Inr []"
| "toAnalysisEvents (event # events) emittedAt =
     (case toAnalysisEvent event emittedAt of
        Inl e \<Rightarrow> Inl e
      | Inr converted \<Rightarrow>
          (case toAnalysisEvents events emittedAt of Inl e \<Rightarrow> Inl e | Inr out \<Rightarrow> Inr (converted # out)))"

subsection \<open>Encoding\<close>

definition time_encodable :: "time \<Rightarrow> bool" where
  "time_encodable t \<longleftrightarrow> 0 \<le> year_of t \<and> year_of t \<le> 9999"

definition wire_bar_encodable :: "analysisBar \<Rightarrow> bool" where
  "wire_bar_encodable b \<longleftrightarrow> list_all finite64 [ab_Open b, ab_High b, ab_Low b, ab_Close b, ab_Volume b] \<and>
     time_encodable (ab_OpenTime b) \<and> time_encodable (ab_CloseTime b)"

fun attribute_encodable :: "string \<times> attribute \<Rightarrow> bool" where
  "attribute_encodable (_, AttrNumber x) = finite64 x"
| "attribute_encodable _ = True"

definition point_encodable :: "pointPrimitive \<Rightarrow> bool" where
  "point_encodable p \<longleftrightarrow> time_encodable (pp_Time p) \<and> (\<forall>v. pp_Value p = Some v \<longrightarrow> finite64 v) \<and>
     (\<forall>t. pp_ConfirmedAt p = Some t \<longrightarrow> time_encodable t) \<and> list_all attribute_encodable (pp_Attributes p)"

definition zone_encodable :: "zonePrimitive \<Rightarrow> bool" where
  "zone_encodable z \<longleftrightarrow> time_encodable (zp_StartTime z) \<and> time_encodable (zp_EndTime z) \<and> finite64 (zp_Upper z) \<and>
     finite64 (zp_Lower z) \<and> list_all attribute_encodable (zp_Attributes z)"

definition level_encodable :: "levelPrimitive \<Rightarrow> bool" where
  "level_encodable l \<longleftrightarrow> finite64 (lp_Value l) \<and> list_all attribute_encodable (lp_Attributes l)"

fun value_encodable :: "output_value \<Rightarrow> bool" where
  "value_encodable (TextValue _) = True"
| "value_encodable (NumberValue x) = finite64 x"
| "value_encodable (PointsValue ps) = list_all point_encodable ps"
| "value_encodable (ZonesValue zs) = list_all zone_encodable zs"
| "value_encodable (LevelsValue ls) = list_all level_encodable ls"

definition event_encodable :: "analysisEvent \<Rightarrow> bool" where
  "event_encodable e \<longleftrightarrow> time_encodable (ae_Time e) \<and> wire_bar_encodable (ad_Bar (ae_Data e)) \<and>
     list_all wire_bar_encodable (ad_History (ae_Data e)) \<and> list_all (\<lambda>out. value_encodable (ao_Value out)) (ad_Outputs (ae_Data e))"

definition EncodeAnalysisEvent :: "SignalEvent \<Rightarrow> time \<Rightarrow> (contract_error, analysisEvent) result" where
  "EncodeAnalysisEvent event emittedAt =
     (case toAnalysisEvent event emittedAt of
        Inl e \<Rightarrow> Inl e
      | Inr converted \<Rightarrow> if event_encodable converted then Inr converted else Inl EncodeFailed)"

subsection \<open>Snapshots\<close>

definition snapshotIndicatorEvent :: "SeriesKey \<Rightarrow> time \<Rightarrow> IndicatorState \<Rightarrow> bool \<Rightarrow> SignalEvent" where
  "snapshotIndicatorEvent series barTime state provisional =
     \<lparr>ev_Schema = [], ev_Cursor = 0,
      ev_EventID = syntheticEventID series barTime (is_Algorithm state) (itoa (is_Period state) @ ''|'' @ format_bool provisional),
      ev_EventType = ''indicator.point'', ev_Dataset = key_Dataset series, ev_Symbol = key_Symbol series,
      ev_Timeframe = key_Timeframe series, ev_BarOpenTime = barTime, ev_SourceBar = None,
      ev_BarRevision = is_AnalysisRevision state, ev_AnalysisRevision = is_AnalysisRevision state,
      ev_Provisional = provisional, ev_Reset = False, ev_ResetHistory = [], ev_Algorithm = is_Algorithm state,
      ev_Indicator = Some \<lparr>ip_Period = is_Period state, ip_Value = (case is_Value state of None \<Rightarrow> 0 | Some v \<Rightarrow> v),
        ip_Samples = is_Samples state, ip_Ready = is_Ready state\<rparr>,
      ev_Market = None, ev_Indicators = []\<rparr>"

definition snapshot_indicators :: "SeriesSnapshot \<Rightarrow> SignalEvent list" where
  "snapshot_indicators s =
     (case ss_LastClosedTime s of
        None \<Rightarrow> []
      | Some t \<Rightarrow> map (\<lambda>state. (snapshotIndicatorEvent (ss_Series s) t (state\<lparr>is_AnalysisRevision := ss_LastClosedRevision s\<rparr>) False)
          \<lparr>ev_SourceBar := ss_LastClosedBar s\<rparr>) (ss_Indicators s)) @
     (case ss_FormingOpenTime s of
        None \<Rightarrow> []
      | Some t \<Rightarrow> map (\<lambda>state. (snapshotIndicatorEvent (ss_Series s) t state True)\<lparr>ev_SourceBar := ss_FormingBar s\<rparr>)
          (ss_Provisional s))"

definition snapshot_market :: "SeriesSnapshot \<Rightarrow> SignalEvent list" where
  "snapshot_market s =
     (case ss_Market s of
        None \<Rightarrow> []
      | Some m \<Rightarrow>
          if ms_AsOf m = zero_time then []
          else let algorithm = wire_marketFactsAlgorithm (ms_Algorithm m) (sort (map is_Period (ss_Indicators s)))
            in [\<lparr>ev_Schema = [], ev_Cursor = 0, ev_EventID = syntheticEventID (ss_Series s) (ms_AsOf m) algorithm ''market'',
                 ev_EventType = ''market.state'', ev_Dataset = key_Dataset (ss_Series s), ev_Symbol = key_Symbol (ss_Series s),
                 ev_Timeframe = key_Timeframe (ss_Series s), ev_BarOpenTime = ms_AsOf m, ev_SourceBar = ss_LastClosedBar s,
                 ev_BarRevision = ss_LastClosedRevision s, ev_AnalysisRevision = ss_LastClosedRevision s,
                 ev_Provisional = False, ev_Reset = False, ev_ResetHistory = [], ev_Algorithm = algorithm,
                 ev_Indicator = None, ev_Market = Some m, ev_Indicators = ss_Indicators s\<rparr>])"

definition snapshotAnalysisEvents :: "SeriesSnapshot \<Rightarrow> time \<Rightarrow> (contract_error, analysisEvent list) result" where
  "snapshotAnalysisEvents s generatedAt = toAnalysisEvents (snapshot_indicators s @ snapshot_market s) generatedAt"

subsection \<open>Snapshots and live events\<close>

lemma indicatorConfigHash_ema: "indicatorConfigHash ''ema'' EMAAlgorithmVersion p = alg_ConfigHash (emaAlgorithm p)"
  by (simp add: indicatorConfigHash_def emaAlgorithm_def)

lemma wire_marketFactsAlgorithm_eq: "wire_marketFactsAlgorithm base ps = marketFactsAlgorithm base ps"
  by (simp add: wire_marketFactsAlgorithm_def marketFactsAlgorithm_def indicatorConfigHash_ema)

lemma revisionForWireBar_eq: "revisionForWireBar = revisionForBar"
  by (simp add: fun_eq_iff revisionForWireBar_def revisionForBar_def)

text \<open>What the conversion of a confirmed event with its payload reads.\<close>

definition same_content :: "SignalEvent \<Rightarrow> SignalEvent \<Rightarrow> bool" where
  "same_content a b \<longleftrightarrow> a\<lparr>ev_Schema := [], ev_Cursor := 0, ev_EventID := []\<rparr> = b\<lparr>ev_Schema := [], ev_Cursor := 0, ev_EventID := []\<rparr>"

definition has_payload :: "SignalEvent \<Rightarrow> bool" where
  "has_payload e \<longleftrightarrow> \<not> ev_Provisional e \<and> \<not> ev_Reset e \<and>
     (ev_EventType e = ''indicator.point'' \<and> ev_Indicator e \<noteq> None \<or> ev_EventType e = ''market.state'' \<and> ev_Market e \<noteq> None)"

lemma same_content_fields:
  assumes "same_content a b"
  shows "ev_EventType a = ev_EventType b" "ev_Dataset a = ev_Dataset b" "ev_Symbol a = ev_Symbol b" "ev_Timeframe a = ev_Timeframe b"
    "ev_BarOpenTime a = ev_BarOpenTime b" "ev_SourceBar a = ev_SourceBar b" "ev_BarRevision a = ev_BarRevision b"
    "ev_AnalysisRevision a = ev_AnalysisRevision b" "ev_Provisional a = ev_Provisional b" "ev_Reset a = ev_Reset b"
    "ev_ResetHistory a = ev_ResetHistory b" "ev_Algorithm a = ev_Algorithm b" "ev_Indicator a = ev_Indicator b"
    "ev_Market a = ev_Market b" "ev_Indicators a = ev_Indicators b"
  using assms by (cases a; cases b; simp add: same_content_def)+

lemma same_content_data:
  assumes "same_content a b" and "has_payload a"
  shows "analysis_data a d = analysis_data b d"
proof -
  note f = same_content_fields [OF assms(1)]
  have "history_bar a d = history_bar b d" by (simp add: fun_eq_iff history_bar_def f Let_def)
  then have base: "base_data a d = base_data b d" by (simp add: base_data_def event_bar_def f)
  have "indicator_data a p = indicator_data b p" "market_data a m = market_data b m" for p m
    by (simp_all add: fun_eq_iff indicator_data_def market_data_def f)
  with base assms(2) show ?thesis by (auto simp: analysis_data_def has_payload_def f)
qed

lemma same_content_converted:
  assumes "same_content a b" and "has_payload a"
  shows "toAnalysisEvent a t = toAnalysisEvent b t'"
proof -
  note e = same_content_fields [OF assms(1)]
  have "\<not> ev_Provisional b" "\<not> ev_Reset b" using assms(2) e(9,10) by (auto simp: has_payload_def)
  then show ?thesis unfolding toAnalysisEvent_def same_content_data [OF assms] e by (simp split: sum.split)
qed

lemma same_content_all:
  "list_all2 (\<lambda>a b. same_content a b \<and> has_payload a) as bs \<Longrightarrow> toAnalysisEvents as t = toAnalysisEvents bs t'"
proof (induction rule: list_all2_induct)
  case (Cons a as b bs)
  then have "toAnalysisEvent a t = toAnalysisEvent b t'" by (intro same_content_converted) simp_all
  with Cons show ?case by (simp split: sum.split)
qed simp

lemma snapshot_after_close:
  fixes bar :: Bar
  assumes "valid_periods (ln_periods l)" and "length hist + 1 < 2 ^ 64"
  defines "s \<equiv> Lane_Snapshot (canonical l (hist @ [bar]))"
  shows "list_all2 (\<lambda>a b. same_content a b \<and> has_payload a)
    (filter (\<lambda>e. \<exists>p. ev_Indicator e = Some p \<and> ip_Ready p) (snapshot_indicators s)) (closed_points (ln_key l) (ln_periods l) hist bar)"
proof -
  define e where "e p = ema_of p (map bar_Close (hist @ [bar]))" for p
  define f where "f p = (snapshotIndicatorEvent (ln_key l) (bar_OpenTime bar) (indicator_state (revisionForBar bar) (p, e p)) False)
      \<lparr>ev_SourceBar := Some bar\<rparr>" for p
  have rev: "(indicator_state r (p, e))\<lparr>is_AnalysisRevision := r\<rparr> = indicator_state r (p, e)" for r p e
    by (simp add: indicator_state_def EMA_Value_def)
  have ready: "EMA_Ready (e p) \<longleftrightarrow> nat p \<le> length hist + 1" if "p \<in> set (ln_periods l)" for p
    using EMA_Ready_ema_of [of p "map bar_Close (hist @ [bar])"] assms(1,2) that by (simp add: valid_periods_def e_def)
  have payload: "(\<exists>q. ev_Indicator (f p) = Some q \<and> ip_Ready q) \<longleftrightarrow> EMA_Ready (e p)" for p
    by (simp add: f_def snapshotIndicatorEvent_def indicator_state_def EMA_Value_def)
  have "snapshot_indicators s = map f (ln_periods l)"
    by (simp add: snapshot_indicators_def s_def Lane_Snapshot_def makeSeriesSnapshot_def Let_def canonical_def install_def
        reducer_at_reducers_of rev f_def e_def cong: map_cong)
  then have "filter (\<lambda>e. \<exists>p. ev_Indicator e = Some p \<and> ip_Ready p) (snapshot_indicators s) =
      map f (filter (\<lambda>p. nat p \<le> length hist + 1) (ln_periods l))"
    using ready by (simp add: filter_map comp_def payload cong: filter_cong)
  moreover have "same_content (f p) (newEMAEvent (ln_key l) bar p (of_nat (length hist + 1))
      (ema_average p (map bar_Close (hist @ [bar]))) False (revisionForBar bar)) \<and> has_payload (f p)"
    if "p \<in> set (ln_periods l)" "nat p \<le> length hist + 1" for p
    using that ready [OF that(1)]
    by (simp add: same_content_def has_payload_def f_def snapshotIndicatorEvent_def indicator_state_def newEMAEvent_def
        EMA_Value_def Let_def) (simp add: e_def ema_of_def)
  ultimately show ?thesis
    by (simp add: closed_points_def list_all2_map1 list_all2_map2) (rule list.rel_refl_strong, simp)
qed

lemma market_as_of:
  assumes "list_all bar_Closed (hist @ [bar])"
  shows "ms_AsOf (mk_state (market_after (hist @ [bar]))) = bar_OpenTime bar"
proof -
  let ?bars = "keep_last (nat marketHistoryLimit) (hist @ [bar])"
  have "filter bar_Closed ?bars = ?bars"
    using assms set_keep_last_subset [of "nat marketHistoryLimit" "hist @ [bar]"] by (auto simp: filter_id_conv list_all_iff)
  moreover have "last ?bars = bar" using keep_last_last [of "nat marketHistoryLimit" "hist @ [bar]"] by (simp add: marketHistoryLimit_def)
  moreover have "0 < length ?bars" by (simp add: marketHistoryLimit_def)
  then have "?bars \<noteq> []" by (metis length_greater_0_conv)
  ultimately show ?thesis
    by (simp add: market_of_def market_state_of_def Let_def EvaluateMarket_def evaluate_structure_def split: prod.split)
qed

lemma snapshot_market_after_close:
  assumes "valid_periods (ln_periods l)" and "list_all bar_Closed (hist @ [bar])" and "bar_OpenTime bar \<noteq> zero_time"
  defines "s \<equiv> Lane_Snapshot (canonical l (hist @ [bar]))"
  shows "list_all2 (\<lambda>a b. same_content a b \<and> has_payload a) (snapshot_market s)
    [newMarketEvent (ln_key l) bar (mk_state (market_after (hist @ [bar]))) (revisionForBar bar) (reducers_of (ln_periods l) (hist @ [bar]))]"
proof -
  note t = market_as_of [OF assms(2)]
  have "map fst (reducers_of (ln_periods l) (hist @ [bar])) = ln_periods l" by (simp add: reducers_of_def comp_def)
  moreover have "map is_Period (ss_Indicators s) = ln_periods l" "ss_Market s = Some (mk_state (market_after (hist @ [bar])))"
      "ss_LastClosedBar s = Some bar" "ss_LastClosedRevision s = revisionForBar bar" "ss_Series s = ln_key l"
    by (simp_all add: s_def Lane_Snapshot_def makeSeriesSnapshot_def Let_def canonical_def install_def indicator_state_def
        EMA_Value_def comp_def)
  moreover have "map (indicator_state (revisionForBar bar)) (reducers_of (ln_periods l) (hist @ [bar])) =
      map (\<lambda>p. indicator_state (revisionForBar bar) (p, reducer_at (reducers_of (ln_periods l) (hist @ [bar])) p)) (ln_periods l)"
    by (simp add: reducer_at_reducers_of cong: map_cong) (simp add: reducers_of_def)
  then have "ss_Indicators s = map (indicator_state (revisionForBar bar)) (reducers_of (ln_periods l) (hist @ [bar]))"
    by (simp add: s_def Lane_Snapshot_def makeSeriesSnapshot_def Let_def canonical_def install_def comp_def)
  moreover have "sort (ln_periods l) = ln_periods l" using assms(1) by (simp add: valid_periods_def sorted_sort_id)
  ultimately show ?thesis
    using t assms(3) sort_reducers_of [OF assms(1), of "hist @ [bar]"]
    by (simp add: snapshot_market_def newMarketEvent_def Let_def same_content_def has_payload_def wire_marketFactsAlgorithm_eq)
qed

subsection \<open>Properties\<close>

text \<open>
  C34. Snapshots and live events tell the same story: when a lane commits a closed bar, the ready indicators and
  the market state in its next snapshot are converted to exactly the public events, identities, times and
  contents included, of the events handed to the store for that bar.
\<close>

theorem snapshot_matches_live:
  assumes "lane_inv l hist" and "list_all bar_Closed hist" and "length hist + 1 < 2 ^ 64"
    and "applyClosed ops l w bar = (r, l', w')" and "l' \<noteq> l"
  shows "\<exists>events snapshots stored s. CommitClosed ops (w_store w) (ln_key l) bar events snapshots = (Inr stored, s) \<and>
    toAnalysisEvents (filter (\<lambda>e. \<exists>p. ev_Indicator e = Some p \<and> ip_Ready p) (snapshot_indicators (Lane_Snapshot l')) @
        snapshot_market (Lane_Snapshot l')) generatedAt = toAnalysisEvents events emittedAt"
  using assms(4)
proof (cases rule: applyClosed_cases)
  case (committed rs market events snapshots rs' market' closedCount stored s)
  have v: "valid_periods (ln_periods l)" "ln_reducers l = reducers_of (ln_periods l) hist" "market_sim (ln_market l) (market_after hist)"
    using assms(1) by (simp_all add: lane_inv_def)
  have l': "l' = canonical l (hist @ [bar])" by (rule applyClosed_canonical [OF assms(4,1,3,5)])
  have rs: "rs = reducers_of (ln_periods l) hist" using cloneReducers_ok [of "ln_periods l" hist rs] committed(4) v assms(3) by simp
  have "market_sim market (market_after hist)"
    using Market_Clone_sim [OF _ committed(5)] v(3) market_sim_good market_after_good market_sim_trans by blast
  note p = prepare_closed_ok [OF assms(1,3) committed(2) this committed(6) [unfolded rs]]
  have bar: "list_all bar_Closed (hist @ [bar])" "bar_OpenTime bar \<noteq> zero_time"
    using assms(2) committed(1,2) by (auto simp: validateBar_def split: if_splits)
  have "toAnalysisEvents (filter (\<lambda>e. \<exists>p. ev_Indicator e = Some p \<and> ip_Ready p) (snapshot_indicators (Lane_Snapshot l')) @
        snapshot_market (Lane_Snapshot l')) generatedAt = toAnalysisEvents events emittedAt"
    unfolding p(1,2,4) l'
    by (rule same_content_all, rule list_all2_appendI [OF snapshot_after_close [OF v(1) assms(3)] snapshot_market_after_close [OF v(1) bar]])
  with committed(7) show ?thesis by blast
qed (use assms(5) in simp_all)

theorem snapshot_matches_live_witness:
  "\<exists>events snapshots stored s. CommitClosed memory_ops NewMemory sample_key (sample_bar 1 3) events snapshots = (Inr stored, s) \<and>
    toAnalysisEvents (filter (\<lambda>e. \<exists>p. ev_Indicator e = Some p \<and> ip_Ready p)
        (snapshot_indicators (Lane_Snapshot (canonical sample_lane [sample_bar 1 3]))) @
        snapshot_market (Lane_Snapshot (canonical sample_lane [sample_bar 1 3]))) 5 = toAnalysisEvents events 7"
proof -
  obtain w where w: "applyClosed memory_ops sample_lane sample_world (sample_bar 1 3) = (Inr (), canonical sample_lane [sample_bar 1 3], w)"
    using sample_closed by blast
  show ?thesis
    using snapshot_matches_live [OF sample_lane_inv _ _ w sample_closed_changes, of 5 7] by (simp add: sample_world_def)
qed

text \<open>The public source of an event decodes to exactly its dataset, so different datasets never share a source.\<close>

lemma event_source_identifies:
  "(\<exists>enc. eventSource dataset = ''urn:ytstack:signals:dataset:'' @ enc \<and> base64_decode enc = Some dataset) \<and>
   (eventSource dataset = eventSource dataset' \<longleftrightarrow> dataset = dataset')"
proof -
  have "base64_encode dataset = base64_encode dataset' \<longleftrightarrow> dataset = dataset'" by (metis base64_roundtrip option.inject)
  then show ?thesis by (simp add: eventSource_def base64_roundtrip)
qed

text \<open>
  An authoritative reset has the public identity of the event it replaces: apart from the emission time, the reset
  flag and the history, the conversion of a reset differs in nothing from that of the event with the same bar,
  and in particular not in its id.
\<close>

theorem reset_keeps_public_id:
  assumes "toAnalysisEvent event t = Inr a"
  shows "\<exists>b. toAnalysisEvent (event\<lparr>ev_EventID := resetID, ev_Reset := True, ev_ResetHistory := history\<rparr>) t' = Inr b \<and> ae_ID b = ae_ID a"
proof -
  let ?e = "event\<lparr>ev_EventID := resetID, ev_Reset := True, ev_ResetHistory := history\<rparr>"
  obtain d data where d: "TimeframeDuration (ev_Timeframe event) = Inr d" "analysis_data event d = Inr data" "ae_ID a = analysisEventID data"
    using assms by (auto simp: toAnalysisEvent_def split: sum.splits)
  have bar: "event_bar ?e d = event_bar event d" by (simp add: event_bar_def)
  have i: "analysisEventID (indicator_data ?e p (base_data ?e d)) = analysisEventID (indicator_data event p (base_data event d))"
      "analysisEventID (market_data ?e m (base_data ?e d)) = analysisEventID (market_data event m (base_data event d))" for p m
    by (simp_all add: analysisEventID_def indicator_data_def market_data_def base_data_def bar)
  have "\<exists>data'. analysis_data ?e d = Inr data' \<and> analysisEventID data' = analysisEventID data"
    using d(2) i by (auto simp: analysis_data_def split: if_splits option.splits)
  with d show ?thesis by (auto simp: toAnalysisEvent_def)
qed

theorem reset_keeps_public_id_witness:
  "\<exists>a b. toAnalysisEvent (newEMAEvent sample_key (sample_bar 1 3) 2 2 0 False 1) 0 = Inr a \<and>
     toAnalysisEvent ((newEMAEvent sample_key (sample_bar 1 3) 2 2 0 False 1)\<lparr>ev_EventID := ''r'', ev_Reset := True,
       ev_ResetHistory := []\<rparr>) 9 = Inr b \<and> ae_ID b = ae_ID a"
proof -
  have "\<exists>a. toAnalysisEvent (newEMAEvent sample_key (sample_bar 1 3) 2 2 0 False 1) 0 = Inr a"
    by (simp add: toAnalysisEvent_def analysis_data_def newEMAEvent_def Let_def sample_key_def sample_timeframe)
  then obtain a where a: "toAnalysisEvent (newEMAEvent sample_key (sample_bar 1 3) 2 2 0 False 1) 0 = Inr a" by blast
  from reset_keeps_public_id [OF a, where resetID = "''r''" and history = "[]" and t' = 9] a show ?thesis by blast
qed

end
