(* ===== verification/Broker.thy ===== *)
theory Broker
  imports Contract
begin

text \<open>
  \<^verbatim>\<open>internal/broker/jetstream.go\<close>: the publication of facts to the message broker. The NATS client is a
  parameter, a function that sends one message, may fail and changes the state of the broker; the
  clock is an argument. Opening the connection and reconciling the streams is in \<open>Streams\<close>.
\<close>

definition EvaluationPartitions :: nat where "EvaluationPartitions = 256"
definition livePublishInterval :: int where "livePublishInterval = second"

record liveCursor =
  lc_openTime :: time
  lc_color :: string
  lc_lastPublished :: time

record message =
  msg_Subject :: string
  msg_Data :: analysisEvent
  msg_ID :: string
  msg_Cursor :: "string option"
  msg_Rollup :: bool

type_synonym ('e, 'n) sender = "'n \<Rightarrow> message \<Rightarrow> 'e option \<times> 'n"

record 'n JetStream =
  js_context :: 'n
  js_live :: "(string \<times> liveCursor) list"

datatype 'e broker_error =
    EncodeFacts contract_error | PublishFacts 'e | SourceBarRequired | ReplaceableEvaluation 'e | PublishEvaluationFailed 'e

subsection \<open>Subjects\<close>

definition liveKey :: "SignalEvent \<Rightarrow> string" where
  "liveKey event = ev_Dataset event @ [CHR 0x00] @ ev_Symbol event @ [CHR 0x00] @ ev_Timeframe event"

definition factSubject :: "SignalEvent \<Rightarrow> string" where
  "factSubject event = ''signals.facts.'' @ pad_left 2 (dec_digits (unat (fnv32a (liveKey event) mod 64)))"

text \<open>\<^verbatim>\<open>%x\<close> of the first eight bytes of the hash.\<close>

definition evaluationSubject :: "SignalEvent \<Rightarrow> string \<Rightarrow> string" where
  "evaluationSubject event kind = ''signals.evaluation.'' @
     pad_left 3 (dec_digits (unat (fnv32a (liveKey event) mod of_nat EvaluationPartitions))) @ ''.'' @ kind @ ''.'' @
     take 16 (sha256_hex (liveKey event))"

definition broker_message :: "string \<Rightarrow> analysisEvent \<Rightarrow> string \<Rightarrow> int \<Rightarrow> bool \<Rightarrow> message" where
  "broker_message subject payload eventID cursor rollup = \<lparr>msg_Subject = subject, msg_Data = payload, msg_ID = eventID,
     msg_Cursor = (if 0 < cursor then Some (itoa cursor) else None), msg_Rollup = rollup\<rparr>"

subsection \<open>Confirmed facts\<close>

definition JetStream_Publish :: "('e, 'n) sender \<Rightarrow> 'n JetStream \<Rightarrow> SignalEvent \<Rightarrow> time \<Rightarrow> 'e broker_error option \<times> 'n JetStream" where
  "JetStream_Publish send j event now =
     (if ev_Provisional event \<or> ev_EventType event \<noteq> ''market.state'' then (None, j)
      else case EncodeAnalysisEvent event now of
          Inl e \<Rightarrow> (Some (EncodeFacts e), j)
        | Inr payload \<Rightarrow>
            (let kind = (if ev_Reset event then ''reset'' else ''confirmed'')
             in case send (js_context j) (broker_message (evaluationSubject event kind) payload (ev_EventID event) (ev_Cursor event) False) of
                  (Some e, n) \<Rightarrow> (Some (PublishEvaluationFailed e), j\<lparr>js_context := n\<rparr>)
                | (None, n) \<Rightarrow>
                    (case send n (broker_message (factSubject event) payload (ev_EventID event) (ev_Cursor event) False) of
                       (Some e, n') \<Rightarrow> (Some (PublishFacts e), j\<lparr>js_context := n'\<rparr>)
                     | (None, n') \<Rightarrow> (None, j\<lparr>js_context := n'\<rparr>))))"

subsection \<open>Evaluation frames\<close>

definition bar_color :: "Bar \<Rightarrow> string" where
  "bar_color bar = (if bar_Open bar < bar_Close bar then ''green'' else if bar_Close bar < bar_Open bar then ''red'' else ''doji'')"

definition liveDecision :: "(string \<times> liveCursor) list \<Rightarrow> SignalEvent \<Rightarrow> Bar \<Rightarrow> time \<Rightarrow> bool \<times> bool \<times> liveCursor" where
  "liveDecision live event bar now =
     (let color = bar_color bar; previous = map_of live (liveKey event);
          transition = (case previous of None \<Rightarrow> True
            | Some p \<Rightarrow> lc_openTime p \<noteq> ev_BarOpenTime event \<or> lc_color p \<noteq> color);
          publish = (transition \<or> (case previous of None \<Rightarrow> True | Some p \<Rightarrow> livePublishInterval \<le> now - lc_lastPublished p))
      in (publish, publish \<and> \<not> transition, \<lparr>lc_openTime = ev_BarOpenTime event, lc_color = color, lc_lastPublished = now\<rparr>))"

text \<open>The decision with the message to send: \<open>Inr None\<close> when nothing is to be sent.\<close>

definition evaluation_frame :: "(string \<times> liveCursor) list \<Rightarrow> SignalEvent \<Rightarrow> time \<Rightarrow>
    ('e broker_error, (message \<times> bool \<times> liveCursor) option) result" where
  "evaluation_frame live event now =
     (if ev_EventType event \<noteq> ''market.state'' then Inr None
      else case ev_SourceBar event of
          None \<Rightarrow> Inl SourceBarRequired
        | Some bar \<Rightarrow>
            (let (publish, replaceable, next_cursor) =
                   (if ev_Provisional event then liveDecision live event bar now
                    else (True, False, \<lparr>lc_openTime = zero_time, lc_color = [], lc_lastPublished = zero_time\<rparr>))
             in if \<not> publish then Inr None
                else case EncodeAnalysisEvent event now of
                    Inl e \<Rightarrow> Inl (EncodeFacts e)
                  | Inr payload \<Rightarrow>
                      (let kind = (if ev_Reset event then ''reset''
                                   else if ev_Provisional event \<and> replaceable then ''snapshot''
                                   else if ev_Provisional event then ''transition'' else ''confirmed'')
                       in Inr (Some (broker_message (evaluationSubject event kind) payload (ev_EventID event) (ev_Cursor event) replaceable,
                            replaceable, next_cursor)))))"

definition PublishEvaluation :: "('e, 'n) sender \<Rightarrow> 'n JetStream \<Rightarrow> SignalEvent \<Rightarrow> time \<Rightarrow> 'e broker_error option \<times> 'n JetStream" where
  "PublishEvaluation send j event now =
     (case evaluation_frame (js_live j) event now of
        Inl e \<Rightarrow> (Some e, j)
      | Inr None \<Rightarrow> (None, j)
      | Inr (Some (msg, replaceable, next_cursor)) \<Rightarrow>
          (case send (js_context j) msg of
             (Some e, n) \<Rightarrow> (Some (if replaceable then ReplaceableEvaluation e else PublishEvaluationFailed e), j\<lparr>js_context := n\<rparr>)
           | (None, n) \<Rightarrow>
               (None, j\<lparr>js_context := n, js_live := (if ev_Provisional event
                  then AList.update (liveKey event) next_cursor (js_live j)
                  else AList.delete (liveKey event) (js_live j))\<rparr>)))"

subsection \<open>What the broker has accepted\<close>

text \<open>
  The acknowledged evaluation frames of a run, each with its series, whether it was provisional and
  replaceable, the bar, colour and time.
\<close>

record sent_frame =
  sf_key :: string
  sf_provisional :: bool
  sf_replaceable :: bool
  sf_openTime :: time
  sf_color :: string
  sf_at :: time

definition sent_of :: "SignalEvent \<Rightarrow> bool \<Rightarrow> liveCursor \<Rightarrow> time \<Rightarrow> sent_frame" where
  "sent_of event replaceable c now = \<lparr>sf_key = liveKey event, sf_provisional = ev_Provisional event, sf_replaceable = replaceable,
     sf_openTime = lc_openTime c, sf_color = lc_color c, sf_at = now\<rparr>"

inductive evaluation_step :: "('e, 'n) sender \<Rightarrow> 'n JetStream \<times> sent_frame list \<Rightarrow> 'n JetStream \<times> sent_frame list \<Rightarrow> bool"
  for send :: "('e, 'n) sender" where
  silent: "PublishEvaluation send j event now = (r, j') \<Longrightarrow>
     (r \<noteq> None \<or> (evaluation_frame (js_live j) event now :: ('e broker_error, _) result) = Inr None) \<Longrightarrow>
     evaluation_step send (j, acks) (j', acks)"
| accepted: "PublishEvaluation send j event now = (None, j') \<Longrightarrow>
     (evaluation_frame (js_live j) event now :: ('e broker_error, _) result) = Inr (Some (msg, replaceable, c)) \<Longrightarrow>
     evaluation_step send (j, acks) (j', acks @ [sent_of event replaceable c now])"

definition last_sent :: "string \<Rightarrow> sent_frame list \<Rightarrow> sent_frame option" where
  "last_sent k acks = (let fs = filter (\<lambda>f. sf_key f = k) acks in if fs = [] then None else Some (last fs))"

text \<open>The cursor of a series is the last provisional frame accepted for it.\<close>

definition live_inv :: "'n JetStream \<times> sent_frame list \<Rightarrow> bool" where
  "live_inv = (\<lambda>(j, acks). distinct (map fst (js_live j)) \<and> (\<forall>k. map_of (js_live j) k =
     (case last_sent k acks of
        None \<Rightarrow> None
      | Some f \<Rightarrow> if sf_provisional f then Some \<lparr>lc_openTime = sf_openTime f, lc_color = sf_color f, lc_lastPublished = sf_at f\<rparr> else None)) \<and>
     (\<forall>pre f post. acks = pre @ f # post \<and> sf_replaceable f \<longrightarrow>
        (\<exists>g. last_sent (sf_key f) pre = Some g \<and> sf_provisional g \<and> sf_openTime g = sf_openTime f \<and> sf_color g = sf_color f \<and>
             livePublishInterval \<le> sf_at f - sf_at g)))"

lemma last_sent_snoc: "last_sent k (acks @ [f]) = (if sf_key f = k then Some f else last_sent k acks)"
  by (simp add: last_sent_def Let_def)

text \<open>The decision on a provisional frame, read against what was last accepted.\<close>

lemma evaluation_frame_some:
  assumes "evaluation_frame live event now = Inr (Some (msg, replaceable, c))"
  shows "if ev_Provisional event then \<exists>bar. ev_SourceBar event = Some bar \<and> liveDecision live event bar now = (True, replaceable, c)
    else \<not> replaceable"
  using assms
  by (auto simp: evaluation_frame_def Let_def split: if_splits option.splits prod.splits sum.splits)

lemma liveDecision_cursor:
  assumes "liveDecision live event bar now = (publish, replaceable, c)"
  shows "lc_openTime c = ev_BarOpenTime event" "lc_color c = bar_color bar" "lc_lastPublished c = now"
    and "replaceable \<Longrightarrow> \<exists>p. map_of live (liveKey event) = Some p \<and> lc_openTime p = ev_BarOpenTime event \<and>
      lc_color p = bar_color bar \<and> livePublishInterval \<le> now - lc_lastPublished p"
  using assms by (auto simp: liveDecision_def Let_def split: option.splits if_splits)

lemma delete_map_of: "map_of (AList.delete k al) k' = (if k' = k then None else map_of al k')"
  by (simp add: delete_conv')

lemma evaluation_step_inv: "evaluation_step send s s' \<Longrightarrow> live_inv s \<Longrightarrow> live_inv s'"
proof (induction rule: evaluation_step.induct)
  case (silent j event now r j' acks)
  then have "js_live j' = js_live j"
    by (auto simp: PublishEvaluation_def split: sum.splits option.splits prod.splits)
  with silent(3) show ?case by (simp add: live_inv_def)
next
  case (accepted j event now j' msg replaceable c acks)
  let ?f = "sent_of event replaceable c now"
  have live: "js_live j' = (if ev_Provisional event then AList.update (liveKey event) c (js_live j) else AList.delete (liveKey event) (js_live j))"
    using accepted(1,2) by (auto simp: PublishEvaluation_def split: prod.splits option.splits)
  note frame = evaluation_frame_some [OF accepted(2)]
  have c: "lc_lastPublished c = now" if "ev_Provisional event" using frame that liveDecision_cursor(3) by auto
  have old: "distinct (map fst (js_live j))"
      "\<And>k. map_of (js_live j) k = (case last_sent k acks of None \<Rightarrow> None | Some f \<Rightarrow>
         if sf_provisional f then Some \<lparr>lc_openTime = sf_openTime f, lc_color = sf_color f, lc_lastPublished = sf_at f\<rparr> else None)"
    using accepted(3) by (simp_all add: live_inv_def)
  have new: "map_of (js_live j') k = (case last_sent k (acks @ [?f]) of None \<Rightarrow> None | Some f \<Rightarrow>
         if sf_provisional f then Some \<lparr>lc_openTime = sf_openTime f, lc_color = sf_color f, lc_lastPublished = sf_at f\<rparr> else None)" for k
    using old(2) [of k] c by (cases c) (simp add: live last_sent_snoc sent_of_def update_conv' delete_map_of)
  have "distinct (map fst (js_live j'))" using old(1) by (simp add: live distinct_update distinct_delete)
  moreover have "\<exists>g. last_sent (sf_key f) pre = Some g \<and> sf_provisional g \<and> sf_openTime g = sf_openTime f \<and> sf_color g = sf_color f \<and>
      livePublishInterval \<le> sf_at f - sf_at g" if s: "acks @ [?f] = pre @ f # post" "sf_replaceable f" for pre f post
  proof (cases post rule: rev_cases)
    case Nil
    then have f: "pre = acks" "f = ?f" using s(1) by auto
    then have "replaceable" using s(2) by (simp add: sent_of_def)
    moreover have "ev_Provisional event" using frame calculation by (auto split: if_splits)
    ultimately obtain bar p where bar: "liveDecision (js_live j) event bar now = (True, True, c)"
        and p: "map_of (js_live j) (liveKey event) = Some p" "lc_openTime p = ev_BarOpenTime event" "lc_color p = bar_color bar"
          "livePublishInterval \<le> now - lc_lastPublished p"
      using frame liveDecision_cursor(4) by (auto split: if_splits) blast
    note cur = liveDecision_cursor(1,2) [OF bar]
    show ?thesis using p old(2) [of "liveKey event"] cur f by (auto simp: sent_of_def split: option.splits if_splits)
  next
    case (snoc post' f')
    then have "acks = pre @ f # post'" using s(1) by auto
    with s(2) accepted(3) show ?thesis by (simp add: live_inv_def)
  qed
  ultimately show ?case using new unfolding live_inv_def by blast
qed

definition open_broker :: "'n \<Rightarrow> 'n JetStream" where
  "open_broker n = \<lparr>js_context = n, js_live = []\<rparr>"

interpretation evaluation: transition_system "\<lambda>s. s = (open_broker n, [])" "evaluation_step send" live_inv for n send
  by unfold_locales (auto simp: live_inv_def open_broker_def last_sent_def dest: evaluation_step_inv)

subsection \<open>Properties\<close>

text \<open>
  C35. Forming frames are coalesced without losing a transition: in every run, whatever the broker refuses, a replaceable
  snapshot is accepted only for the bar and colour of the frame accepted before it for its series and at
  least one second after it; and a frame of a new candle or colour is always sent, as a transition without the
  rollup header that would let it replace earlier ones.
\<close>

theorem evaluation_coalesced:
  assumes "(evaluation_step send)\<^sup>*\<^sup>* (open_broker n, []) (j, acks)"
  shows "(\<forall>pre f post. acks = pre @ f # post \<and> sf_replaceable f \<longrightarrow>
      (\<exists>g. last_sent (sf_key f) pre = Some g \<and> sf_openTime g = sf_openTime f \<and> sf_color g = sf_color f \<and>
           second \<le> sf_at f - sf_at g)) \<and>
    (\<forall>event bar now payload. ev_EventType event = ''market.state'' \<and> ev_Provisional event \<and> ev_SourceBar event = Some bar \<and>
       EncodeAnalysisEvent event now = Inr payload \<and>
       (\<forall>g. last_sent (liveKey event) acks = Some g \<longrightarrow>
          \<not> (sf_provisional g \<and> sf_openTime g = ev_BarOpenTime event \<and> sf_color g = bar_color bar)) \<longrightarrow>
       (\<exists>msg c. (evaluation_frame (js_live j) event now :: ('e broker_error, _) result) = Inr (Some (msg, False, c)) \<and> \<not> msg_Rollup msg))"
proof -
  have inv: "live_inv (j, acks)" by (rule evaluation.reachable_inv [OF refl assms])
  have "\<exists>msg c. (evaluation_frame (js_live j) event now :: ('e broker_error, _) result) = Inr (Some (msg, False, c)) \<and> \<not> msg_Rollup msg"
    if e: "ev_EventType event = ''market.state''" "ev_Provisional event" "ev_SourceBar event = Some bar"
      "EncodeAnalysisEvent event now = Inr payload"
      and g: "\<forall>g. last_sent (liveKey event) acks = Some g \<longrightarrow>
          \<not> (sf_provisional g \<and> sf_openTime g = ev_BarOpenTime event \<and> sf_color g = bar_color bar)" for event bar now payload
  proof -
    have "map_of (js_live j) (liveKey event) = Some p \<Longrightarrow> lc_openTime p \<noteq> ev_BarOpenTime event \<or> lc_color p \<noteq> bar_color bar" for p
      using inv g by (auto simp: live_inv_def split: option.splits if_splits)
    then have "\<exists>c. liveDecision (js_live j) event bar now = (True, False, c)"
      by (auto simp: liveDecision_def Let_def split: option.split)
    with e show ?thesis by (auto simp: evaluation_frame_def broker_message_def)
  qed
  with inv show ?thesis by (fastforce simp: live_inv_def livePublishInterval_def)
qed

text \<open>Two forming frames of one candle, a second apart, on a broker that accepts everything.\<close>

definition sample_forming :: SignalEvent where
  "sample_forming = (sample_event 0)\<lparr>ev_EventType := ''market.state'', ev_Timeframe := ''1m'', ev_BarOpenTime := minute,
     ev_SourceBar := Some (sample_bar 1 3), ev_Provisional := True, ev_Market := Some zero_MarketState\<rparr>"

lemma sample_forming_encodes:
  assumes "time_encodable now"
  shows "\<exists>payload. EncodeAnalysisEvent sample_forming now = Inr payload"
proof -
  have t: "time_encodable minute" "time_encodable (minute + minute)" by code_simp+
  have b: "list_all finite64 [lit 4, lit 9, lit 1, of_int64 3]" by (simp add: of_int64_def)
  have "event_encodable payload" if "toAnalysisEvent sample_forming now = Inr payload" for payload
    using that assms t b
    by (auto simp: toAnalysisEvent_def analysis_data_def sample_forming_def sample_event_def sample_timeframe event_encodable_def
        wire_bar_encodable_def market_data_def base_data_def event_bar_def sample_bar_def ema_outputs_def marketOutputs_def
        market_output_def zero_MarketState_def swingPrimitives_def structurePrimitives_def structureZonePrimitives_def
        zonePrimitives_def levelPrimitives_def patternPrimitives_def zoneTransitionPrimitives_def premiumDiscountPrimitives_def)
  moreover have "\<exists>payload. toAnalysisEvent sample_forming now = Inr payload"
    by (simp add: toAnalysisEvent_def analysis_data_def sample_forming_def sample_event_def sample_timeframe)
  ultimately show ?thesis by (auto simp: EncodeAnalysisEvent_def)
qed

lemma sample_forming_frame:
  assumes "time_encodable now" and "liveDecision (js_live j) sample_forming (sample_bar 1 3) now = (True, replaceable, c)"
  shows "\<exists>j'. js_live j' = AList.update (liveKey sample_forming) c (js_live j) \<and>
    evaluation_step (\<lambda>n m. (None :: unit option, n)) (j, acks) (j', acks @ [sent_of sample_forming replaceable c now])"
proof -
  let ?send = "\<lambda>n m. (None :: unit option, n)"
  obtain payload where "EncodeAnalysisEvent sample_forming now = Inr payload" using sample_forming_encodes [OF assms(1)] by blast
  then obtain msg where f: "(evaluation_frame (js_live j) sample_forming now :: (unit broker_error, _) result) = Inr (Some (msg, replaceable, c))"
    using assms(2) by (auto simp: evaluation_frame_def sample_forming_def sample_event_def)
  define j' where "j' = snd (PublishEvaluation ?send j sample_forming now)"
  have p: "PublishEvaluation ?send j sample_forming now = (None, j')" "js_live j' = AList.update (liveKey sample_forming) c (js_live j)"
    unfolding j'_def by (simp_all add: PublishEvaluation_def f) (simp add: sample_forming_def sample_event_def)
  from evaluation_step.accepted [OF p(1) f] p(2) show ?thesis by blast
qed

theorem evaluation_coalesced_witness:
  "\<exists>j f g. (evaluation_step (\<lambda>n m. (None :: unit option, n)))\<^sup>*\<^sup>* (open_broker (), []) (j, [g, f]) \<and> sf_replaceable f \<and>
     sf_key g = sf_key f \<and> sf_openTime g = sf_openTime f \<and> sf_color g = sf_color f \<and> second \<le> sf_at f - sf_at g"
proof -
  let ?step = "evaluation_step (\<lambda>n m. (None :: unit option, n))"
  let ?c = "\<lambda>now. \<lparr>lc_openTime = minute, lc_color = bar_color (sample_bar 1 3), lc_lastPublished = now\<rparr>"
  have t: "time_encodable 0" "time_encodable second" by code_simp+
  have e: "ev_BarOpenTime sample_forming = minute" by (simp add: sample_forming_def)
  have "liveDecision (js_live (open_broker ())) sample_forming (sample_bar 1 3) 0 = (True, False, ?c 0)"
    by (simp add: liveDecision_def open_broker_def e)
  from sample_forming_frame [OF t(1) this, of "[]"] obtain j where
    j: "js_live j = [(liveKey sample_forming, ?c 0)]" "?step (open_broker (), []) (j, [sent_of sample_forming False (?c 0) 0])"
    by (auto simp: open_broker_def)
  have "liveDecision (js_live j) sample_forming (sample_bar 1 3) second = (True, True, ?c second)"
    by (simp add: liveDecision_def j(1) e livePublishInterval_def)
  from sample_forming_frame [OF t(2) this, of "[sent_of sample_forming False (?c 0) 0]"] obtain j' where
    "?step (j, [sent_of sample_forming False (?c 0) 0]) (j', [sent_of sample_forming False (?c 0) 0, sent_of sample_forming True (?c second) second])"
    by auto
  with j(2) have run: "?step\<^sup>*\<^sup>* (open_broker (), []) (j', [sent_of sample_forming False (?c 0) 0] @ sent_of sample_forming True (?c second) second # [])"
    by simp
  let ?g = "sent_of sample_forming False (?c 0) 0" and ?f = "sent_of sample_forming True (?c second) second"
  have "sf_replaceable ?f" "last_sent (sf_key ?f) [?g] = Some ?g" by (simp_all add: sent_of_def last_sent_def)
  with evaluation_coalesced [OF run, THEN conjunct1, rule_format, of "[?g]" ?f "[]"] run
  show ?thesis by (intro exI [of _ j'] exI [of _ ?f] exI [of _ ?g]) (simp add: sent_of_def)
qed

end
