(* ===== verification/Streams.thy ===== *)
theory Streams
  imports Broker
begin

text \<open>
  \<^verbatim>\<open>Open\<close> of \<^verbatim>\<open>internal/broker/jetstream.go\<close>: the connection to the broker and the reconciliation of its two streams. The NATS client is
  a parameter, the record \<open>stream_ops\<close> of the three calls that are made of it on the state \<open>'n\<close> of the connection.
\<close>

definition FactStream :: string where "FactStream = ''MARKET_FACTS''"
definition FactSubjects :: string where "FactSubjects = ''signals.facts.>''"
definition EvaluationStream :: string where "EvaluationStream = ''MARKET_EVALUATION''"
definition EvaluationSubjects :: string where "EvaluationSubjects = ''signals.evaluation.>''"

datatype RetentionPolicy = LimitsPolicy | InterestPolicy | WorkQueuePolicy
datatype StorageType = FileStorage | MemoryStorage

record StreamConfig =
  sn_Name :: string
  sn_Subjects :: "string list"
  sn_Retention :: RetentionPolicy
  sn_Storage :: StorageType
  sn_Replicas :: int
  sn_MaxAge :: int
  sn_MaxMsgsPerSubject :: int
  sn_MaxMsgSize :: int
  sn_Duplicates :: int
  sn_AllowRollup :: bool

datatype stream_info = Found StreamConfig | StreamNotFound | InspectFailed
datatype stream_added = Added | NameAlreadyInUse | AddFailed

record 'n stream_ops =
  StreamInfo :: "'n \<Rightarrow> string \<Rightarrow> stream_info \<times> 'n"
  AddStream :: "'n \<Rightarrow> StreamConfig \<Rightarrow> stream_added \<times> 'n"
  UpdateStream :: "'n \<Rightarrow> StreamConfig \<Rightarrow> bool \<times> 'n"

datatype open_error = ConnectFailed | EnsureFailed string | InspectStreamFailed string | ReconcileFailed string

definition sameStreamConfig :: "StreamConfig \<Rightarrow> StreamConfig \<Rightarrow> bool" where
  "sameStreamConfig got want \<longleftrightarrow> sn_Name got = sn_Name want \<and> length (sn_Subjects got) = length (sn_Subjects want) \<and>
     length (sn_Subjects got) = 1 \<and> hd (sn_Subjects got) = hd (sn_Subjects want) \<and> sn_Retention got = sn_Retention want \<and>
     sn_Storage got = sn_Storage want \<and> sn_Replicas got = sn_Replicas want \<and> sn_MaxAge got = sn_MaxAge want \<and>
     sn_MaxMsgsPerSubject got = sn_MaxMsgsPerSubject want \<and> sn_MaxMsgSize got = sn_MaxMsgSize want \<and>
     sn_Duplicates got = sn_Duplicates want \<and> sn_AllowRollup got = sn_AllowRollup want"

definition stream_configs :: "int \<Rightarrow> StreamConfig list" where
  "stream_configs replicas =
     (let base = \<lparr>sn_Name = FactStream, sn_Subjects = [FactSubjects], sn_Retention = LimitsPolicy, sn_Storage = FileStorage,
        sn_Replicas = replicas, sn_MaxAge = 7 * 24 * hour, sn_MaxMsgsPerSubject = 0, sn_MaxMsgSize = 2 * 2 ^ 20,
        sn_Duplicates = 10 * minute, sn_AllowRollup = False\<rparr>
      in [base, base\<lparr>sn_Name := EvaluationStream, sn_Subjects := [EvaluationSubjects], sn_AllowRollup := True\<rparr>])"

text \<open>The loop over the configurations: a missing stream is added, one that differs is updated.\<close>

definition reconcile_stream :: "'n stream_ops \<Rightarrow> StreamConfig \<Rightarrow> 'n \<Rightarrow> open_error option \<times> 'n" where
  "reconcile_stream ops config n =
     (case StreamInfo ops n (sn_Name config) of
        (StreamNotFound, n1) \<Rightarrow>
          (case AddStream ops n1 config of
             (AddFailed, n2) \<Rightarrow> (Some (EnsureFailed (sn_Name config)), n2)
           | (_, n2) \<Rightarrow> (None, n2))
      | (InspectFailed, n1) \<Rightarrow> (Some (InspectStreamFailed (sn_Name config)), n1)
      | (Found got, n1) \<Rightarrow>
          if \<not> sameStreamConfig got config then
            (case UpdateStream ops n1 config of
               (False, n2) \<Rightarrow> (Some (ReconcileFailed (sn_Name config)), n2)
             | (True, n2) \<Rightarrow> (None, n2))
          else (None, n1))"

fun reconcile :: "'n stream_ops \<Rightarrow> StreamConfig list \<Rightarrow> 'n \<Rightarrow> open_error option \<times> 'n" where
  "reconcile ops [] n = (None, n)"
| "reconcile ops (config # configs) n =
     (case reconcile_stream ops config n of (Some e, n') \<Rightarrow> (Some e, n') | (None, n') \<Rightarrow> reconcile ops configs n')"

text \<open>On an error the connection is closed and its state given up.\<close>

definition JetStream_Open :: "(string \<Rightarrow> string \<Rightarrow> 'n option) \<Rightarrow> 'n stream_ops \<Rightarrow> string \<Rightarrow> string \<Rightarrow> int \<Rightarrow> (open_error, 'n JetStream) result" where
  "JetStream_Open connect ops url token replicas =
     (let replicas' = (if replicas < 1 then 1 else replicas)
      in case connect url token of
           None \<Rightarrow> Inl ConnectFailed
         | Some n \<Rightarrow> (case reconcile ops (stream_configs replicas') n of
               (Some e, _) \<Rightarrow> Inl e
             | (None, n') \<Rightarrow> Inr (open_broker n')))"

subsection \<open>The calls that are made\<close>

text \<open>
  Nothing is assumed of the server: it may answer anything, other clients may change its streams between two calls, and it may
  store a configuration otherwise than it was sent (NATS does, it replaces a limit of zero by -1). What is stated is which calls
  are made and what is made of the answers, recorded by \<open>logged\<close>.
\<close>

datatype stream_call = Inspected string stream_info | Sent_add StreamConfig stream_added | Sent_update StreamConfig bool

definition logged :: "'n stream_ops \<Rightarrow> ('n \<times> stream_call list) stream_ops" where
  "logged ops = \<lparr>StreamInfo = (\<lambda>(n, calls) name. case StreamInfo ops n name of (a, n') \<Rightarrow> (a, n', calls @ [Inspected name a])),
     AddStream = (\<lambda>(n, calls) config. case AddStream ops n config of (a, n') \<Rightarrow> (a, n', calls @ [Sent_add config a])),
     UpdateStream = (\<lambda>(n, calls) config. case UpdateStream ops n config of (a, n') \<Rightarrow> (a, n', calls @ [Sent_update config a]))\<rparr>"

text \<open>
  A stream is settled by an inspection that shows the settings wanted and no write, by one accepted update with them, or by one
  addition of it, which was accepted or met a stream of that name that was not there when it was inspected.
\<close>

inductive settled :: "StreamConfig \<Rightarrow> stream_call list \<Rightarrow> bool" for config where
  unchanged: "sameStreamConfig got config \<Longrightarrow> settled config [Inspected (sn_Name config) (Found got)]"
| updated: "\<not> sameStreamConfig got config \<Longrightarrow>
    settled config [Inspected (sn_Name config) (Found got), Sent_update config True]"
| added: "settled config [Inspected (sn_Name config) StreamNotFound, Sent_add config Added]"
| raced: "settled config [Inspected (sn_Name config) StreamNotFound, Sent_add config NameAlreadyInUse]"

inductive unsettled :: "StreamConfig \<Rightarrow> open_error \<Rightarrow> stream_call list \<Rightarrow> bool" for config where
  inspect: "unsettled config (InspectStreamFailed (sn_Name config)) [Inspected (sn_Name config) InspectFailed]"
| update: "\<not> sameStreamConfig got config \<Longrightarrow>
    unsettled config (ReconcileFailed (sn_Name config)) [Inspected (sn_Name config) (Found got), Sent_update config False]"
| add: "unsettled config (EnsureFailed (sn_Name config)) [Inspected (sn_Name config) StreamNotFound, Sent_add config AddFailed]"

text \<open>The streams are settled in order, up to the first failure, which is the one reported.\<close>

fun reconciled :: "StreamConfig list \<Rightarrow> open_error option \<Rightarrow> stream_call list \<Rightarrow> bool" where
  "reconciled [] e calls \<longleftrightarrow> e = None \<and> calls = []"
| "reconciled (config # configs) e calls \<longleftrightarrow>
     (\<exists>mine rest. calls = mine @ rest \<and> settled config mine \<and> reconciled configs e rest) \<or>
     (\<exists>err. e = Some err \<and> unsettled config err calls)"

lemma reconcile_stream_logged:
  obtains e n' mine where "reconcile_stream (logged ops) config (n, calls) = (e, n', calls @ mine)"
    "reconcile_stream ops config n = (e, n')"
    "case e of None \<Rightarrow> settled config mine | Some err \<Rightarrow> unsettled config err mine"
proof -
  obtain info n1 where i: "StreamInfo ops n (sn_Name config) = (info, n1)" by fastforce
  obtain a n2 where a: "AddStream ops n1 config = (a, n2)" by fastforce
  obtain u n3 where u: "UpdateStream ops n1 config = (u, n3)" by fastforce
  show thesis
  proof (cases info)
    case (Found got)
    show ?thesis
    proof (cases "sameStreamConfig got config")
      case True
      with i Found show ?thesis
        by (intro that [of None n1 "[Inspected (sn_Name config) (Found got)]"])
          (auto simp: reconcile_stream_def logged_def intro: settled.unchanged)
    next
      case False
      with i Found u show ?thesis
        by (intro that [of "if u then None else Some (ReconcileFailed (sn_Name config))" n3
              "[Inspected (sn_Name config) (Found got), Sent_update config u]"])
          (auto simp: reconcile_stream_def logged_def intro: settled.updated unsettled.update split: bool.splits)
    qed
  next
    case StreamNotFound
    with i a show ?thesis
      by (intro that [of "if a = AddFailed then Some (EnsureFailed (sn_Name config)) else None" n2
            "[Inspected (sn_Name config) StreamNotFound, Sent_add config a]"]; cases a)
        (auto simp: reconcile_stream_def logged_def intro: settled.added settled.raced unsettled.add)
  next
    case InspectFailed
    with i show ?thesis
      by (intro that [of "Some (InspectStreamFailed (sn_Name config))" n1 "[Inspected (sn_Name config) InspectFailed]"])
        (auto simp: reconcile_stream_def logged_def intro: unsettled.inspect)
  qed
qed

lemma reconcile_logged:
  "\<exists>e n' made. reconcile (logged ops) configs (n, calls) = (e, n', calls @ made) \<and> reconcile ops configs n = (e, n') \<and>
     reconciled configs e made"
proof (induction configs arbitrary: n calls)
  case (Cons config configs)
  obtain e n' mine where s: "reconcile_stream (logged ops) config (n, calls) = (e, n', calls @ mine)"
    "reconcile_stream ops config n = (e, n')" "case e of None \<Rightarrow> settled config mine | Some err \<Rightarrow> unsettled config err mine"
    by (rule reconcile_stream_logged)
  show ?case
  proof (cases e)
    case None
    from Cons.IH [of n' "calls @ mine"] s None show ?thesis by fastforce
  next
    case (Some err)
    with s show ?thesis by (intro exI [of _ e] exI [of _ n'] exI [of _ mine]) auto
  qed
qed simp

subsection \<open>Properties\<close>

text \<open>
  C40. Opening the broker reconciles its streams, whatever the server answers. The fact stream and the evaluation stream are taken
  in this order, with at least one replica and with rollup allowed on the evaluation stream alone. Each is inspected first; a
  stream that shows the settings wanted is not written, one that differs is sent one update, one that is missing is sent one
  addition, which may also meet a stream created meanwhile, and no other call is made. The first call that fails ends the opening
  with an error that names the stream, and the opening succeeds, with no forming frame remembered, exactly when none fails.
\<close>

theorem streams_reconciled:
  assumes "connect url token = Some n" and "reconcile (logged ops) (stream_configs (max 1 replicas)) (n, []) = (e, n', calls)"
  shows "reconciled (stream_configs (max 1 replicas)) e calls \<and>
    map (\<lambda>c. (sn_Name c, sn_Subjects c, sn_Replicas c, sn_AllowRollup c)) (stream_configs (max 1 replicas)) =
      [(''MARKET_FACTS'', [''signals.facts.>''], max 1 replicas, False),
       (''MARKET_EVALUATION'', [''signals.evaluation.>''], max 1 replicas, True)] \<and>
    JetStream_Open connect ops url token replicas =
      (case e of None \<Rightarrow> Inr \<lparr>js_context = n', js_live = []\<rparr> | Some err \<Rightarrow> Inl err)"
proof -
  have m: "(if replicas < 1 then 1 else replicas) = max 1 replicas" by simp
  obtain made where "calls = made" "reconcile ops (stream_configs (max 1 replicas)) n = (e, n')"
      "reconciled (stream_configs (max 1 replicas)) e made"
    using reconcile_logged [of ops "stream_configs (max 1 replicas)" n "[]"] assms(2) by auto
  then show ?thesis
    using assms(1) unfolding JetStream_Open_def Let_def m
    by (auto simp: open_broker_def stream_configs_def Let_def FactStream_def FactSubjects_def EvaluationStream_def
        EvaluationSubjects_def split: option.splits)
qed

text \<open>A server that does what it is asked, and holds the evaluation stream with other settings.\<close>

definition sample_streams :: "(string \<rightharpoonup> StreamConfig) stream_ops" where
  "sample_streams = \<lparr>StreamInfo = (\<lambda>m name. (case m name of None \<Rightarrow> StreamNotFound | Some config \<Rightarrow> Found config, m)),
     AddStream = (\<lambda>m config. if m (sn_Name config) \<noteq> None then (NameAlreadyInUse, m) else (Added, m(sn_Name config \<mapsto> config))),
     UpdateStream = (\<lambda>m config. (True, m(sn_Name config \<mapsto> config)))\<rparr>"

definition stale_streams :: "string \<rightharpoonup> StreamConfig" where
  "stale_streams = [EvaluationStream \<mapsto> (stream_configs 3 ! 1)]"

lemma sample_reconcile:
  "\<exists>m. reconcile (logged sample_streams) (stream_configs (max 1 0)) (stale_streams, []) =
     (None, m, [Inspected FactStream StreamNotFound, Sent_add (stream_configs 1 ! 0) Added,
        Inspected EvaluationStream (Found (stream_configs 3 ! 1)), Sent_update (stream_configs 1 ! 1) True])"
  by (simp add: stream_configs_def reconcile_stream_def logged_def sample_streams_def stale_streams_def sameStreamConfig_def
      FactStream_def EvaluationStream_def Let_def)

theorem streams_reconciled_witness:
  "\<exists>m. JetStream_Open (\<lambda>_ _. Some stale_streams) sample_streams ''nats'' ''token'' 0 = Inr \<lparr>js_context = m, js_live = []\<rparr> \<and>
     reconciled (stream_configs 1) None [Inspected FactStream StreamNotFound, Sent_add (stream_configs 1 ! 0) Added,
       Inspected EvaluationStream (Found (stream_configs 3 ! 1)), Sent_update (stream_configs 1 ! 1) True]"
proof -
  obtain m where m: "reconcile (logged sample_streams) (stream_configs (max 1 0)) (stale_streams, []) =
     (None, m, [Inspected FactStream StreamNotFound, Sent_add (stream_configs 1 ! 0) Added,
        Inspected EvaluationStream (Found (stream_configs 3 ! 1)), Sent_update (stream_configs 1 ! 1) True])"
    using sample_reconcile by blast
  from streams_reconciled [of "\<lambda>_ _. Some stale_streams" "''nats''" "''token''", OF refl m] show ?thesis by auto
qed

text \<open>
  The branch for a name in use does not reconcile: when another client creates a stream between the inspection and the addition,
  the opening succeeds though the stream has settings that differ from those wanted.
\<close>

definition racing_streams :: "StreamConfig \<Rightarrow> (string \<rightharpoonup> StreamConfig) stream_ops" where
  "racing_streams other = sample_streams\<lparr>StreamInfo := (\<lambda>m name. case m name of
       None \<Rightarrow> (StreamNotFound, m(sn_Name other \<mapsto> other))
     | Some config \<Rightarrow> (Found config, m))\<rparr>"

lemma raced_stream_not_reconciled:
  "\<exists>other j got. JetStream_Open (\<lambda>_ _. Some [EvaluationStream \<mapsto> (stream_configs 1 ! 1)]) (racing_streams other) url token 1 = Inr j \<and>
     js_context j FactStream = Some got \<and> \<not> sameStreamConfig got (stream_configs 1 ! 0)"
  by (rule exI [of _ "stream_configs 3 ! 0"])
    (simp add: JetStream_Open_def stream_configs_def reconcile_stream_def racing_streams_def sample_streams_def sameStreamConfig_def
      FactStream_def EvaluationStream_def open_broker_def Let_def)

end
