(* ===== verification/Server.thy ===== *)
theory Server
  imports Contract Registry
begin

text \<open>
  \<^verbatim>\<open>internal/api/server.go\<close>: the subscription of a WebSocket client with its snapshot, history, replay
  and live phases, the pages of \<^verbatim>\<open>/v1/events\<close>, the snapshots, readiness, and the credentials and origins of a
  request. A connection is the list of the envelopes written to it; the WebSocket library is a parameter, the
  predicate \<open>accepts\<close> that tells whether the next write succeeds. Clocks, the random subscription id and the
  decoded request are arguments.
\<close>

subsection \<open>Envelopes\<close>

datatype envelope_data = NoData | Subscribed time | Event analysisEvent | Events "analysisEvent list"

datatype subscription_error = NoSelector | IncompleteSelector | SelectorTimeframe timeframe_error | UnnamedAnalysis |
  EmptyEventType | UnknownStatus | BadResumeAfter | BadHistoryLimit

datatype error_text = Text string | SubscriptionText subscription_error | ConversionText contract_error

record wireError =
  we_Code :: string
  we_Message :: error_text
  we_Retryable :: bool

record wireEnvelope =
  env_Protocol :: string
  env_Type :: string
  env_RequestID :: string
  env_SubscriptionID :: string
  env_Cursor :: string
  env_Data :: envelope_data
  env_Error :: "wireError option"

definition envelope :: "string \<Rightarrow> envelope_data \<Rightarrow> wireEnvelope" where
  "envelope kind data = \<lparr>env_Protocol = protocolVersion, env_Type = kind, env_RequestID = [], env_SubscriptionID = [],
     env_Cursor = [], env_Data = data, env_Error = None\<rparr>"

definition protocolError :: "string \<Rightarrow> string \<Rightarrow> error_text \<Rightarrow> bool \<Rightarrow> wireEnvelope" where
  "protocolError requestID code message_text retryable =
     (envelope ''error'' NoData)\<lparr>env_RequestID := requestID,
        env_Error := Some \<lparr>we_Code = code, we_Message = message_text, we_Retryable = retryable\<rparr>\<rparr>"

definition event_envelope :: "string \<Rightarrow> SignalEvent \<Rightarrow> analysisEvent \<Rightarrow> wireEnvelope" where
  "event_envelope subscriptionID event converted =
     (envelope ''event'' (Event converted))\<lparr>env_SubscriptionID := subscriptionID, env_Cursor := eventCursor event\<rparr>"

subsection \<open>Subscription requests\<close>

record wsSubscriptionData =
  wd_Series :: "seriesSelector list"
  wd_Analyses :: "analysisSelector list"
  wd_EventTypes :: "string list"
  wd_Statuses :: "string list"
  wd_ResumeAfter :: string
  wd_HistoryLimit :: int

record wsRequest =
  wr_Protocol :: string
  wr_Type :: string
  wr_RequestID :: string
  wr_Data :: wsSubscriptionData

definition defaultHistoryLimit :: int where "defaultHistoryLimit = 500"
definition maxHistoryLimit :: int where "maxHistoryLimit = 1000"

text \<open>The keys of the set, each once.\<close>

definition stringSet :: "string list \<Rightarrow> string list" where
  "stringSet values = remdups (filter (\<lambda>v. v \<noteq> []) (map trim_space values))"

fun check_selectors :: "seriesSelector list \<Rightarrow> subscription_error option" where
  "check_selectors [] = None"
| "check_selectors (s # ss) =
     (if trim_space (sel_Symbol s) = [] \<or> trim_space (sel_Timeframe s) = [] then Some IncompleteSelector
      else case TimeframeDuration (sel_Timeframe s) of
          Inl e \<Rightarrow> Some (SelectorTimeframe e)
        | Inr _ \<Rightarrow> check_selectors ss)"

definition resume_cursor :: "string \<Rightarrow> int option" where
  "resume_cursor raw = (if raw = [] then Some 0
     else case atoi raw of None \<Rightarrow> None | Some n \<Rightarrow> if n < 0 then None else Some n)"

text \<open>The event types of a subscription, the default one when none is named and none at all for the wildcard.\<close>

definition subscription_types :: "string list \<Rightarrow> string list" where
  "subscription_types values =
     (let types = stringSet values; types' = (if types = [] then [analysisEventType] else types)
      in if ''*'' \<in> set types' then [] else types')"

definition subscription_statuses :: "string list \<Rightarrow> string list" where
  "subscription_statuses values = (let statuses = stringSet values in if statuses = [] then [''confirmed''] else statuses)"

definition history_limit :: "int \<Rightarrow> int" where
  "history_limit n = (if n = 0 then defaultHistoryLimit else n)"

definition makeSubscription :: "wsSubscriptionData \<Rightarrow> (subscription_error, Subscription \<times> int \<times> int) result" where
  "makeSubscription request =
     (if wd_Series request = [] then Inl NoSelector
      else case check_selectors (wd_Series request) of Some e \<Rightarrow> Inl e | None \<Rightarrow>
        if list_ex (\<lambda>s. trim_space (asel_Name s) = []) (wd_Analyses request) then Inl UnnamedAnalysis
        else let types = subscription_types (wd_EventTypes request); statuses = subscription_statuses (wd_Statuses request);
            limit = history_limit (wd_HistoryLimit request)
          in if list_ex (\<lambda>t. trim_space t = []) types then Inl EmptyEventType
             else if list_ex (\<lambda>s. s \<noteq> ''confirmed'' \<and> s \<noteq> ''provisional'') statuses then Inl UnknownStatus
             else case resume_cursor (wd_ResumeAfter request) of None \<Rightarrow> Inl BadResumeAfter | Some afterCursor \<Rightarrow>
               if limit < 0 \<or> maxHistoryLimit < limit then Inl BadHistoryLimit
               else Inr (\<lparr>sub_Series = wd_Series request, sub_Analyses = wd_Analyses request, sub_EventTypes = types,
                 sub_Confirmed = (''confirmed'' \<in> set statuses), sub_Provisional = (''provisional'' \<in> set statuses)\<rparr>,
                 afterCursor, limit))"

subsection \<open>Snapshots and history of a subscription\<close>

definition filter_analyses :: "analysisSelector list \<Rightarrow> SeriesSnapshot \<Rightarrow> SeriesSnapshot" where
  "filter_analyses selectors s =
     (if selectors = [] then s
      else s\<lparr>ss_Indicators := filter (\<lambda>st. matchesAnalysis selectors (is_Algorithm st)) (ss_Indicators s),
             ss_Provisional := filter (\<lambda>st. matchesAnalysis selectors (is_Algorithm st)) (ss_Provisional s),
             ss_Market := (case ss_Market s of None \<Rightarrow> None
               | Some m \<Rightarrow> if matchesAnalysis selectors (ms_Algorithm m) then Some m else None)\<rparr>)"

definition filter_types :: "Subscription \<Rightarrow> SeriesSnapshot \<Rightarrow> SeriesSnapshot" where
  "filter_types filt s0 =
     (let s1 = (if sub_EventTypes filt \<noteq> [] \<and> analysisEventType \<notin> set (sub_EventTypes filt)
                then s0\<lparr>ss_Indicators := [], ss_Provisional := [], ss_Market := None\<rparr> else s0);
          s2 = (if \<not> sub_Provisional filt then s1\<lparr>ss_Provisional := [], ss_FormingOpenTime := None\<rparr> else s1)
      in if \<not> sub_Confirmed filt then s2\<lparr>ss_Indicators := [], ss_Market := None\<rparr> else s2)"

definition filteredSnapshots :: "SeriesSnapshot list \<Rightarrow> Subscription \<Rightarrow> SeriesSnapshot list" where
  "filteredSnapshots all filt =
     map (\<lambda>s. filter_types filt (filter_analyses (sub_Analyses filt) s))
       (filter (\<lambda>s. sub_Series filt = [] \<or> matchesSeries (sub_Series filt) (key_Dataset (ss_Series s))
          (key_Symbol (ss_Series s)) (key_Timeframe (ss_Series s))) all)"

type_synonym event_query = "EventFilter \<Rightarrow> (store_error, SignalEvent list) result"
type_synonym point_query = "PointFilter \<Rightarrow> (store_error, SignalEvent list) result"

definition point_filter :: "SeriesSnapshot \<Rightarrow> int \<Rightarrow> IndicatorState \<Rightarrow> PointFilter" where
  "point_filter s limit st = \<lparr>pf_Dataset = key_Dataset (ss_Series s), pf_Symbol = key_Symbol (ss_Series s),
     pf_Timeframe = key_Timeframe (ss_Series s), pf_Period = is_Period st, pf_Algorithm = is_Algorithm st, pf_Limit = limit\<rparr>"

fun query_points :: "point_query \<Rightarrow> PointFilter list \<Rightarrow> (store_error, SignalEvent list) result" where
  "query_points q [] = Inr []"
| "query_points q (f # fs) =
     (case q f of Inl e \<Rightarrow> Inl e
      | Inr points \<Rightarrow> (case query_points q fs of Inl e \<Rightarrow> Inl e | Inr events \<Rightarrow> Inr (points @ events)))"

definition recentPoints :: "point_query \<Rightarrow> SeriesSnapshot list \<Rightarrow> int \<Rightarrow> (store_error, SignalEvent list) result" where
  "recentPoints q snapshots limit =
     query_points q (concat (map (\<lambda>s. map (point_filter s limit) (ss_Indicators s)) snapshots))"

subsection \<open>The WebSocket session\<close>

type_synonym conn = "wireEnvelope list"
type_synonym acceptor = "conn \<Rightarrow> wireEnvelope \<Rightarrow> bool"

text \<open>\<^verbatim>\<open>conn.WriteJSON\<close>: whether the write succeeded and what the connection carried since.\<close>

definition write_json :: "acceptor \<Rightarrow> conn \<Rightarrow> wireEnvelope \<Rightarrow> bool \<times> conn" where
  "write_json accepts out env = (if accepts out env then (True, out @ [env]) else (False, out))"

datatype phase = Greeting | Replaying int | Replayed int | Live | Ended

record session =
  se_RequestID :: string
  se_ID :: string
  se_filter :: Subscription
  se_after :: int
  se_limit :: int
  se_phase :: phase
  se_conn :: conn

definition refuse :: "acceptor \<Rightarrow> session \<Rightarrow> string \<Rightarrow> error_text \<Rightarrow> bool \<Rightarrow> session" where
  "refuse accepts se code message_text retryable =
     se\<lparr>se_phase := Ended, se_conn := snd (write_json accepts (se_conn se) (protocolError (se_RequestID se) code message_text retryable))\<rparr>"

text \<open>
  From the request to the confirmation of the subscription; the second argument is whether the request was
  decoded and what was decoded of it. A session that could subscribe comes with its client of the hub.
\<close>

definition ws_open :: "acceptor \<Rightarrow> bool \<times> wsRequest \<Rightarrow> string option \<Rightarrow> time \<Rightarrow> session \<times> hubClient option" where
  "ws_open accepts = (\<lambda>(decoded, request) subscriptionID now.
     (let se = \<lparr>se_RequestID = wr_RequestID request, se_ID = [], se_filter = \<lparr>sub_Series = [], sub_Analyses = [],
                 sub_EventTypes = [], sub_Confirmed = False, sub_Provisional = False\<rparr>, se_after = 0, se_limit = 0,
                 se_phase = Ended, se_conn = []\<rparr>
      in if \<not> decoded \<or> wr_Protocol request \<noteq> protocolVersion \<or> wr_Type request \<noteq> ''subscribe'' \<or>
            trim_space (wr_RequestID request) = []
         then (refuse accepts se ''invalid_request'' (Text ''a signals.v1 subscribe message with request_id is required'') False, None)
         else case makeSubscription (wr_Data request) of
             Inl e \<Rightarrow> (refuse accepts se ''invalid_subscription'' (SubscriptionText e) False, None)
           | Inr (filt, afterCursor, historyLimit) \<Rightarrow>
               (case subscriptionID of
                  None \<Rightarrow> (refuse accepts se ''internal_error'' (Text ''could not allocate subscription'') True, None)
                | Some sid \<Rightarrow>
                    (let (ok, out) = write_json accepts [] ((envelope ''subscribed'' (Subscribed now))
                           \<lparr>env_RequestID := wr_RequestID request, env_SubscriptionID := sid\<rparr>)
                     in (se\<lparr>se_ID := sid, se_filter := filt, se_after := afterCursor, se_limit := historyLimit,
                            se_phase := (if ok then Greeting else Ended), se_conn := out\<rparr>, Some (new_client filt 2048))))))"

fun send_snapshots :: "acceptor \<Rightarrow> session \<Rightarrow> time \<Rightarrow> SeriesSnapshot list \<Rightarrow> session" where
  "send_snapshots accepts se now [] = se"
| "send_snapshots accepts se now (s # ss) =
     (case snapshotAnalysisEvents s now of
        Inl e \<Rightarrow> refuse accepts se ''conversion_failed'' (ConversionText e) True
      | Inr events \<Rightarrow>
          (let (ok, out) = write_json accepts (se_conn se) ((envelope ''snapshot'' (Events events))\<lparr>env_SubscriptionID := se_ID se\<rparr>)
           in if ok then send_snapshots accepts (se\<lparr>se_conn := out\<rparr>) now ss else se\<lparr>se_phase := Ended, se_conn := out\<rparr>))"

text \<open>The snapshots and the history; then the replay starts, if a cursor was given.\<close>

definition ws_greet :: "acceptor \<Rightarrow> SeriesSnapshot list \<Rightarrow> point_query \<Rightarrow> time \<Rightarrow> session \<Rightarrow> session" where
  "ws_greet accepts all points now se0 =
     (let snapshots = filteredSnapshots all (se_filter se0); se = send_snapshots accepts se0 now snapshots
      in if se_phase se = Ended then se
         else case recentPoints points snapshots (se_limit se) of
             Inl _ \<Rightarrow> refuse accepts se ''history_failed'' (Text ''history query failed'') True
           | Inr history \<Rightarrow>
               (case toAnalysisEvents history now of
                  Inl e \<Rightarrow> refuse accepts se ''conversion_failed'' (ConversionText e) True
                | Inr converted \<Rightarrow>
                    (let (ok, out) = write_json accepts (se_conn se) ((envelope ''history'' (Events converted))\<lparr>env_SubscriptionID := se_ID se\<rparr>)
                     in se\<lparr>se_conn := out, se_phase := (if \<not> ok then Ended
                          else if 0 < se_after se then Replaying (se_after se) else Replayed (se_after se))\<rparr>)))"

text \<open>The loop over one page of the replay: \<open>None\<close> when the handler returns.\<close>

fun replay_events :: "acceptor \<Rightarrow> session \<Rightarrow> time \<Rightarrow> conn \<Rightarrow> int \<Rightarrow> SignalEvent list \<Rightarrow> int option \<times> conn" where
  "replay_events accepts se now out lastCursor [] = (Some lastCursor, out)"
| "replay_events accepts se now out lastCursor (event # events) =
     (if matches (se_filter se) event then
        (case toAnalysisEvent event now of
           Inl _ \<Rightarrow> (None, out)
         | Inr converted \<Rightarrow>
             (let (ok, out') = write_json accepts out (event_envelope (se_ID se) event converted)
              in if ok then replay_events accepts se now out' (ev_Cursor event) events else (None, out')))
      else replay_events accepts se now out (ev_Cursor event) events)"

definition replay_filter :: "int \<Rightarrow> EventFilter" where
  "replay_filter lastCursor = \<lparr>ef_AfterCursor = lastCursor, ef_Dataset = [], ef_Symbol = [], ef_Timeframe = [], ef_Period = 0,
     ef_EventType = [], ef_Analysis = [], ef_Limit = 5000\<rparr>"

definition ws_page :: "acceptor \<Rightarrow> event_query \<Rightarrow> time \<Rightarrow> int \<Rightarrow> session \<Rightarrow> session" where
  "ws_page accepts query now lastCursor se =
     (case query (replay_filter lastCursor) of
        Inl _ \<Rightarrow> se\<lparr>se_phase := Ended\<rparr>
      | Inr events \<Rightarrow>
          (case replay_events accepts se now (se_conn se) lastCursor events of
             (None, out) \<Rightarrow> se\<lparr>se_phase := Ended, se_conn := out\<rparr>
           | (Some lastCursor', out) \<Rightarrow>
               se\<lparr>se_phase := (if length events < 5000 then Replayed lastCursor' else Replaying lastCursor'), se_conn := out\<rparr>))"

text \<open>\<^verbatim>\<open>writeClient\<close>: one event taken from the channel, or the end of a closed channel.\<close>

definition writeClient :: "acceptor \<Rightarrow> time \<Rightarrow> session \<Rightarrow> hubClient \<Rightarrow> session \<times> hubClient" where
  "writeClient accepts now se c =
     (case ch_buf (hc_send c) of
        [] \<Rightarrow> (if ch_closed (hc_send c) then se\<lparr>se_phase := Ended\<rparr> else se, c)
      | event # rest \<Rightarrow>
          (let c' = c\<lparr>hc_send := (hc_send c)\<lparr>ch_buf := rest\<rparr>\<rparr>
           in case toAnalysisEvent event now of
                Inl _ \<Rightarrow> (se\<lparr>se_phase := Ended\<rparr>, c')
              | Inr converted \<Rightarrow>
                  (let (ok, out) = write_json accepts (se_conn se) (event_envelope (se_ID se) event converted)
                   in (se\<lparr>se_conn := out, se_phase := (if ok then se_phase se else Ended)\<rparr>, c'))))"

subsection \<open>Accepted subscriptions\<close>

lemma resume_cursor_nonneg: "resume_cursor raw = Some n \<Longrightarrow> 0 \<le> n"
  by (auto simp: resume_cursor_def split: if_splits option.splits)

lemma makeSubscription_some:
  assumes "makeSubscription request = Inr (filt, afterCursor, limit)"
  shows "wd_Series request \<noteq> [] \<and> resume_cursor (wd_ResumeAfter request) = Some afterCursor \<and>
    limit = history_limit (wd_HistoryLimit request) \<and> 0 \<le> limit \<and> limit \<le> maxHistoryLimit \<and>
    \<not> list_ex (\<lambda>s. s \<noteq> ''confirmed'' \<and> s \<noteq> ''provisional'') (subscription_statuses (wd_Statuses request)) \<and>
    filt = \<lparr>sub_Series = wd_Series request, sub_Analyses = wd_Analyses request,
       sub_EventTypes = subscription_types (wd_EventTypes request),
       sub_Confirmed = (''confirmed'' \<in> set (subscription_statuses (wd_Statuses request))),
       sub_Provisional = (''provisional'' \<in> set (subscription_statuses (wd_Statuses request)))\<rparr>"
proof -
  define statuses where "statuses = subscription_statuses (wd_Statuses request)"
  show ?thesis
    using assms unfolding makeSubscription_def Let_def statuses_def [symmetric]
    by (simp split: if_split_asm option.split_asm)
qed

lemma makeSubscription_ok:
  assumes "makeSubscription request = Inr (filt, afterCursor, limit)"
  shows "0 \<le> afterCursor" "0 \<le> limit" "limit \<le> maxHistoryLimit" "sub_Series filt \<noteq> []" "sub_Confirmed filt \<or> sub_Provisional filt"
proof -
  let ?statuses = "subscription_statuses (wd_Statuses request)"
  note f = makeSubscription_some [OF assms]
  have "last ?statuses \<in> set ?statuses" by (rule last_in_set) (simp add: subscription_statuses_def Let_def)
  moreover have "last ?statuses = ''confirmed'' \<or> last ?statuses = ''provisional''" if "last ?statuses \<in> set ?statuses"
    using f that unfolding list_ex_iff by blast
  ultimately have "''confirmed'' \<in> set ?statuses \<or> ''provisional'' \<in> set ?statuses" by metis
  with f show "sub_Confirmed filt \<or> sub_Provisional filt" by simp
  show "0 \<le> afterCursor" "0 \<le> limit" "limit \<le> maxHistoryLimit" "sub_Series filt \<noteq> []"
    using f resume_cursor_nonneg by auto
qed

end
