(* ===== verification/Metrics.thy ===== *)
theory Metrics
  imports GoStrings Float64
begin

text \<open>
  \<^verbatim>\<open>internal/monitor/metrics.go\<close>: the counters and flags of the process. The atomic 64-bit counters wrap around; the
  clock is an argument. The report is the list of the lines written.
\<close>

record Metrics =
  mt_startedAt :: time
  mt_upstreamConnected :: bool
  mt_outboxHealthy :: bool
  mt_lastInputUnixNano :: int
  mt_seedMessages :: uint64
  mt_closedMessages :: uint64
  mt_formingMessages :: uint64
  mt_reconnects :: uint64
  mt_inputErrors :: uint64
  mt_outboxErrors :: uint64

definition NewMetrics :: "time \<Rightarrow> Metrics" where
  "NewMetrics now = \<lparr>mt_startedAt = now, mt_upstreamConnected = False, mt_outboxHealthy = False, mt_lastInputUnixNano = 0,
     mt_seedMessages = 0, mt_closedMessages = 0, mt_formingMessages = 0, mt_reconnects = 0, mt_inputErrors = 0, mt_outboxErrors = 0\<rparr>"

definition SetConnected :: "bool \<Rightarrow> Metrics \<Rightarrow> Metrics" where
  "SetConnected v m = m\<lparr>mt_upstreamConnected := v\<rparr>"

definition SetOutboxHealthy :: "bool \<Rightarrow> Metrics \<Rightarrow> Metrics" where
  "SetOutboxHealthy v m = m\<lparr>mt_outboxHealthy := v\<rparr>"

definition RecordOutboxError :: "Metrics \<Rightarrow> Metrics" where
  "RecordOutboxError m = m\<lparr>mt_outboxErrors := mt_outboxErrors m + 1\<rparr>"

text \<open>\<^verbatim>\<open>UnixNano\<close> of the clock is kept in 64 bits.\<close>

definition RecordInput :: "time \<Rightarrow> string \<Rightarrow> Metrics \<Rightarrow> Metrics" where
  "RecordInput now kind m0 =
     (let m = m0\<lparr>mt_lastInputUnixNano := wrap64 now\<rparr>
      in if kind = ''seed'' then m\<lparr>mt_seedMessages := mt_seedMessages m + 1\<rparr>
         else if kind = ''closed'' then m\<lparr>mt_closedMessages := mt_closedMessages m + 1\<rparr>
         else if kind = ''forming'' then m\<lparr>mt_formingMessages := mt_formingMessages m + 1\<rparr>
         else m)"

definition RecordReconnect :: "Metrics \<Rightarrow> Metrics" where
  "RecordReconnect m = m\<lparr>mt_reconnects := mt_reconnects m + 1\<rparr>"

definition RecordInputError :: "Metrics \<Rightarrow> Metrics" where
  "RecordInputError m = m\<lparr>mt_inputErrors := mt_inputErrors m + 1\<rparr>"

subsection \<open>The report\<close>

text \<open>The verb \<^verbatim>\<open>%.df\<close>: the exact value of the double, rounded half to even to \<open>d\<close> decimals.\<close>

definition fmt_fixed :: "nat \<Rightarrow> f64 \<Rightarrow> string" where
  "fmt_fixed d x =
     (if isNaN x then ''NaN'' else if isInf x then (if signbit x then ''-Inf'' else ''+Inf'')
      else let n = nat (round_half_even (\<bar>fval x\<bar> * 10 ^ d))
        in (if signbit x then ''-'' else []) @ dec_digits (n div 10 ^ d) @ (if d = 0 then [] else ''.'' @ pad_left d (dec_digits (n mod 10 ^ d))))"

text \<open>\<^verbatim>\<open>Duration.Seconds\<close>: whole seconds plus the rest, each converted.\<close>

definition duration_seconds :: "int \<Rightarrow> f64" where
  "duration_seconds d = (let sec = (if d < 0 then - (- d div nanos) else d div nanos); nsec = d - sec * nanos
     in of_int64 sec + of_int64 nsec / lit 1000000000)"

definition gauge :: "string \<Rightarrow> string \<Rightarrow> string" where
  "gauge name v = ''# TYPE '' @ name @ '' gauge'' @ [CHR 0x0A] @ name @ '' '' @ v"

definition counter :: "string \<Rightarrow> string \<Rightarrow> string" where
  "counter name v = ''# TYPE '' @ name @ '' counter'' @ [CHR 0x0A] @ name @ '' '' @ v"

definition flag :: "bool \<Rightarrow> string" where
  "flag b = (if b then ''1'' else ''0'')"

definition labelled :: "string \<Rightarrow> string" where
  "labelled kind = ''{type='' @ [CHR 0x22] @ kind @ [CHR 0x22] @ ''}''"

definition WritePrometheus :: "time \<Rightarrow> Metrics \<Rightarrow> bool \<Rightarrow> int \<Rightarrow> int \<Rightarrow> string list" where
  "WritePrometheus now m is_ready laneCount readyLaneCount =
     [gauge ''signald_up'' ''1'', gauge ''signald_ready'' (flag is_ready),
      gauge ''signald_upstream_connected'' (flag (mt_upstreamConnected m)),
      gauge ''signald_outbox_healthy'' (flag (mt_outboxHealthy m)),
      gauge ''signald_uptime_seconds'' (fmt_fixed 3 (duration_seconds (now - mt_startedAt m))),
      gauge ''signald_last_input_timestamp_seconds'' (fmt_fixed 6 (of_int64 (mt_lastInputUnixNano m) / lit 1000000000)),
      ''# TYPE signald_input_messages_total counter'' @ [CHR 0x0A] @ ''signald_input_messages_total'' @ labelled ''seed'' @ '' '' @
        format_uint (mt_seedMessages m),
      ''signald_input_messages_total'' @ labelled ''closed'' @ '' '' @ format_uint (mt_closedMessages m),
      ''signald_input_messages_total'' @ labelled ''forming'' @ '' '' @ format_uint (mt_formingMessages m),
      counter ''signald_upstream_reconnects_total'' (format_uint (mt_reconnects m)),
      counter ''signald_input_errors_total'' (format_uint (mt_inputErrors m)),
      counter ''signald_outbox_errors_total'' (format_uint (mt_outboxErrors m)),
      gauge ''signald_lanes'' (itoa laneCount), gauge ''signald_ready_lanes'' (itoa readyLaneCount)]"

end
