(* ===== verification/Http.thy ===== *)
theory Http
  imports Server Metrics
begin

text \<open>
  The HTTP handlers of \<^verbatim>\<open>internal/api/server.go\<close>: pages of stored events, snapshots, readiness, the catalogue,
  the credentials of a request and the origins of browsers, and the routes that compose them. A handler is a function of
  the values it reads from the request, and a response is the status with the envelope that it hands to \<^verbatim>\<open>writeJSON\<close>;
  listening and shutting down are left to \<^verbatim>\<open>net/http\<close>.
\<close>

subsection \<open>Responses\<close>

record response =
  resp_Status :: nat
  resp_Body :: wireEnvelope

definition writeError :: "nat \<Rightarrow> string \<Rightarrow> string \<Rightarrow> response" where
  "writeError status code message_text =
     \<lparr>resp_Status = status, resp_Body = protocolError [] code (Text message_text) (500 \<le> status)\<rparr>"

text \<open>
  What reaches the client: the status is written before the value is encoded, and an encoding error is ignored, so a value that
  has no JSON form (a number that is not finite, a year of more than four digits) leaves the body empty.
\<close>

fun data_encodable :: "envelope_data \<Rightarrow> bool" where
  "data_encodable NoData = True"
| "data_encodable (Subscribed t) = time_encodable t"
| "data_encodable (Event e) = event_encodable e"
| "data_encodable (Events es) = list_all event_encodable es"

definition writeJSON :: "response \<Rightarrow> nat \<times> wireEnvelope option" where
  "writeJSON r = (resp_Status r, if data_encodable (env_Data (resp_Body r)) then Some (resp_Body r) else None)"

subsection \<open>Stored events\<close>

text \<open>The filter of a query: \<open>url.Values.Get\<close> returns the empty string for a parameter that is not given.\<close>

definition page_limit :: "string \<Rightarrow> int option" where
  "page_limit raw = (if raw = [] then Some 0
     else case atoi raw of None \<Rightarrow> None | Some n \<Rightarrow> if n \<le> 0 \<or> 5000 < n then None else Some n)"

definition signals_filter :: "(string \<Rightarrow> string) \<Rightarrow> (response, EventFilter) result" where
  "signals_filter query =
     (case resume_cursor (query ''resume_after'') of
        None \<Rightarrow> Inl (writeError 400 ''invalid_query'' ''resume_after must be a non-negative integer string'')
      | Some afterCursor \<Rightarrow>
          (case page_limit (query ''limit'') of
             None \<Rightarrow> Inl (writeError 400 ''invalid_query'' ''limit must be from 1 to 5000'')
           | Some limit \<Rightarrow> Inr \<lparr>ef_AfterCursor = afterCursor, ef_Dataset = query ''dataset'', ef_Symbol = query ''symbol'',
               ef_Timeframe = query ''timeframe'', ef_Period = 0, ef_EventType = [], ef_Analysis = query ''analysis'',
               ef_Limit = limit\<rparr>))"

definition signals :: "event_query \<Rightarrow> time \<Rightarrow> (string \<Rightarrow> string) \<Rightarrow> response" where
  "signals store_query now query =
     (case signals_filter query of
        Inl r \<Rightarrow> r
      | Inr filt \<Rightarrow>
          (case store_query filt of
             Inl _ \<Rightarrow> writeError 500 ''query_failed'' ''query failed''
           | Inr events \<Rightarrow>
               (case toAnalysisEvents events now of
                  Inl _ \<Rightarrow> writeError 500 ''conversion_failed'' ''event conversion failed''
                | Inr converted \<Rightarrow>
                    \<lparr>resp_Status = 200, resp_Body = (envelope ''page'' (Events converted))
                       \<lparr>env_Cursor := itoa (if events \<noteq> [] then ev_Cursor (last events) else ef_AfterCursor filt)\<rparr>\<rparr>)))"

subsection \<open>Snapshots and readiness\<close>

fun convert_snapshots :: "time \<Rightarrow> SeriesSnapshot list \<Rightarrow> (contract_error, analysisEvent list) result" where
  "convert_snapshots now [] = Inr []"
| "convert_snapshots now (s # ss) =
     (case snapshotAnalysisEvents s now of
        Inl e \<Rightarrow> Inl e
      | Inr events \<Rightarrow> (case convert_snapshots now ss of Inl e \<Rightarrow> Inl e | Inr more_events \<Rightarrow> Inr (events @ more_events)))"

definition snapshot_response :: "(contract_error, analysisEvent list) result \<Rightarrow> response" where
  "snapshot_response r = (case r of
       Inl _ \<Rightarrow> writeError 500 ''conversion_failed'' ''snapshot conversion failed''
     | Inr events \<Rightarrow> \<lparr>resp_Status = 200, resp_Body = envelope ''snapshot'' (Events events)\<rparr>)"

text \<open>\<open>None\<close> when a configured series has no lane, whose snapshot the registry would dereference.\<close>

definition snapshots :: "Registry \<Rightarrow> time \<Rightarrow> string \<Rightarrow> string \<Rightarrow> response option" where
  "snapshots registry now symbol timeframe =
     (if symbol \<noteq> [] \<or> timeframe \<noteq> [] then
        (if symbol = [] \<or> timeframe = []
         then Some (writeError 400 ''invalid_query'' ''symbol and timeframe must be provided together'')
         else case Registry_Snapshot registry symbol timeframe of
             None \<Rightarrow> Some (writeError 404 ''series_not_found'' ''series is not configured'')
           | Some s \<Rightarrow> Some (snapshot_response (snapshotAnalysisEvents s now)))
      else map_option (\<lambda>ss. snapshot_response (convert_snapshots now ss)) (Registry_Snapshots registry))"

record readiness =
  ry_Status :: nat
  ry_Store :: bool
  ry_Indicators :: bool
  ry_Upstream :: bool
  ry_Outbox :: bool

definition ready :: "bool \<Rightarrow> Registry \<Rightarrow> bool \<Rightarrow> bool \<Rightarrow> readiness option" where
  "ready storeReady registry upstreamReady outboxReady =
     map_option (\<lambda>registryReady.
       \<lparr>ry_Status = (if \<not> storeReady \<or> \<not> registryReady \<or> \<not> upstreamReady \<or> \<not> outboxReady then 503 else 200),
        ry_Store = storeReady, ry_Indicators = registryReady, ry_Upstream = upstreamReady, ry_Outbox = outboxReady\<rparr>)
       (Registry_Ready registry)"

subsection \<open>The catalogue\<close>

record catalog_output =
  co_Name :: string
  co_Type :: string
  co_Unit :: string
  co_Display :: displayHint

text \<open>The parameters are the period and the price source, the warm-up the least number of samples and the kind of seed;
  the entry of the market analysis has neither.\<close>

record catalog_entry =
  ce_ID :: string
  ce_Name :: string
  ce_Parameters :: "(int \<times> string) option"
  ce_Engine :: string
  ce_EngineVersion :: string
  ce_AlgorithmVersion :: string
  ce_ConfigHash :: string
  ce_Warmup :: "(int \<times> string) option"
  ce_Statuses :: "string list"
  ce_Outputs :: "catalog_output list"

definition catalog_of :: "analysisOutput \<Rightarrow> catalog_output" where
  "catalog_of out = \<lparr>co_Name = ao_Name out, co_Type = ao_Type out, co_Unit = ao_Unit out, co_Display = ao_Display out\<rparr>"

definition marketOutputCatalog :: "catalog_output list" where
  "marketOutputCatalog = map catalog_of (marketOutputs zero_MarketState)"

definition ema_entry :: "int \<Rightarrow> catalog_entry" where
  "ema_entry period =
     (let configHash = indicatorConfigHash ''ema'' EMAAlgorithmVersion period
      in \<lparr>ce_ID = ''ema:'' @ configHash, ce_Name = ''ema'', ce_Parameters = Some (period, ''close''),
          ce_Engine = ''ytstack-native'', ce_EngineVersion = EMAAlgorithmVersion, ce_AlgorithmVersion = EMAAlgorithmVersion,
          ce_ConfigHash = configHash, ce_Warmup = Some (period, ''sma''), ce_Statuses = [''confirmed'', ''provisional''],
          ce_Outputs = [\<lparr>co_Name = ''value'', co_Type = ''number'', co_Unit = ''price'',
            co_Display = \<lparr>dh_Kind = ''line'', dh_Pane = ''price'', dh_Group = [], dh_Order = 0\<rparr>\<rparr>]\<rparr>)"

definition market_entry :: catalog_entry where
  "market_entry =
     (let market = MarketAlgorithm DefaultMarketConfig
      in \<lparr>ce_ID = alg_Name market @ '':'' @ alg_ConfigHash market, ce_Name = alg_Name market, ce_Parameters = None,
          ce_Engine = ''ytstack-native'', ce_EngineVersion = alg_Version market, ce_AlgorithmVersion = alg_Version market,
          ce_ConfigHash = alg_ConfigHash market, ce_Warmup = None,
          ce_Statuses = [''confirmed''], ce_Outputs = marketOutputCatalog\<rparr>)"

definition algorithms :: "int list \<Rightarrow> catalog_entry list" where
  "algorithms periods = map ema_entry periods @ [market_entry]"

subsection \<open>Credentials and origins\<close>

definition bearer_prefix :: string where "bearer_prefix = ''Bearer ''"
definition protocol_prefix :: string where "protocol_prefix = ''bearer.''"

fun protocol_credentials :: "string list \<Rightarrow> string \<times> string" where
  "protocol_credentials [] = ([], [])"
| "protocol_credentials (p # ps) =
     (if \<not> has_prefix p protocol_prefix then protocol_credentials ps
      else case base64_decode (drop (length protocol_prefix) p) of
          Some decoded \<Rightarrow> (decoded, p)
        | None \<Rightarrow> protocol_credentials ps)"

text \<open>The header and the offered subprotocols of a request; the token and the subprotocol it came with.\<close>

definition requestCredentials :: "string \<Rightarrow> string list \<Rightarrow> string \<times> string" where
  "requestCredentials authorization protocols =
     (if has_prefix authorization bearer_prefix
      then (trim_space (drop (length bearer_prefix) authorization), [])
      else protocol_credentials protocols)"

text \<open>Whether \<^verbatim>\<open>auth\<close> lets the request through.\<close>

definition auth :: "bool \<Rightarrow> string \<Rightarrow> string \<Rightarrow> string list \<Rightarrow> bool" where
  "auth insecureNoAuth authToken authorization protocols =
     (insecureNoAuth \<or>
      (let provided = fst (requestCredentials authorization protocols)
       in \<not> (length provided \<noteq> length authToken \<or> provided \<noteq> authToken)))"

definition originAllowed :: "string list \<Rightarrow> string \<Rightarrow> bool" where
  "originAllowed origins origin = (origin = [] \<or> origin \<in> set origins)"

datatype cors_outcome = Preflight nat | Forward

text \<open>Whether the origin is echoed in the response, and what becomes of the request.\<close>

definition cors :: "string list \<Rightarrow> string \<Rightarrow> bool \<Rightarrow> bool \<times> cors_outcome" where
  "cors origins origin options_method =
     (origin \<noteq> [] \<and> originAllowed origins origin,
      if options_method then (if origin = [] \<or> \<not> originAllowed origins origin then Preflight 403 else Preflight 204) else Forward)"

subsection \<open>The routes\<close>

text \<open>The options that the handlers read; whether the parts of the process were given is a flag.\<close>

record ServerOptions =
  so_Addr :: string
  so_AuthToken :: string
  so_InsecureNoAuth :: bool
  so_AllowedOrigins :: "string list"
  so_Periods :: "int list"
  so_Parts :: bool
  so_ShutdownTimeout :: int

definition NewServer :: "ServerOptions \<Rightarrow> ServerOptions option" where
  "NewServer opts =
     (if so_Addr opts = [] \<or> \<not> so_Parts opts then None
      else if \<not> so_InsecureNoAuth opts \<and> so_AuthToken opts = [] then None
      else Some (if so_ShutdownTimeout opts \<le> 0 then opts\<lparr>so_ShutdownTimeout := 15 * second\<rparr> else opts))"

text \<open>What the handlers see of the running process.\<close>

record server_state =
  st_Registry :: Registry
  st_Events :: event_query
  st_Ping :: bool
  st_Metrics :: Metrics
  st_Now :: time

definition metrics :: "server_state \<Rightarrow> string list option" where
  "metrics st =
     map_option (\<lambda>all.
       let is_ready = length (filter (\<lambda>s. ss_Ready s \<and> ss_LastClosedTime s \<noteq> None) all)
       in WritePrometheus (st_Now st) (st_Metrics st)
            (is_ready = length all \<and> mt_upstreamConnected (st_Metrics st) \<and> mt_outboxHealthy (st_Metrics st))
            (int (length all)) (int is_ready))
       (Registry_Snapshots (st_Registry st))"

text \<open>A request: the subprotocols are those the WebSocket library parses from its header, and \<open>rq_Handshake\<close> is
  whether that library finds a well-formed handshake.\<close>

record request =
  rq_Method :: string
  rq_Path :: string
  rq_Query :: "string \<Rightarrow> string"
  rq_Authorization :: string
  rq_Origin :: string
  rq_Subprotocols :: "string list"
  rq_Handshake :: bool

datatype reply = Healthy | Readiness readiness | Report "string list" | Catalog "string list" "catalog_entry list" | Json response |
  Upgraded "string option" | BadHandshake | Unauthorized response | PreflightReply nat | NotFound | NotAllowed

definition authorised :: "ServerOptions \<Rightarrow> request \<Rightarrow> bool" where
  "authorised opts rq = auth (so_InsecureNoAuth opts) (so_AuthToken opts) (rq_Authorization rq) (rq_Subprotocols rq)"

definition with_auth :: "ServerOptions \<Rightarrow> request \<Rightarrow> reply option \<Rightarrow> reply option" where
  "with_auth opts rq handler =
     (if authorised opts rq then handler else Some (Unauthorized (writeError 401 ''unauthorized'' ''unauthorized'')))"

text \<open>The upgrade of \<^verbatim>\<open>websocket\<close>: the origin is checked and the subprotocol that carried the credentials is chosen.\<close>

definition ws_upgrade :: "ServerOptions \<Rightarrow> request \<Rightarrow> reply" where
  "ws_upgrade opts rq =
     (let protocol = snd (requestCredentials (rq_Authorization rq) (rq_Subprotocols rq))
      in if rq_Handshake rq \<and> originAllowed (so_AllowedOrigins opts) (rq_Origin rq)
         then Upgraded (if protocol \<noteq> [] then Some protocol else None) else BadHandshake)"

text \<open>The multiplexer: a pattern with the method GET also serves HEAD, a known path with another method is
  refused. \<open>None\<close> is a handler that panics.\<close>

definition mux :: "ServerOptions \<Rightarrow> server_state \<Rightarrow> request \<Rightarrow> reply option" where
  "mux opts st rq =
     (let path = rq_Path rq; paths = [''/healthz'', ''/readyz'', ''/metrics'', ''/v1/catalog'', ''/v1/snapshots'', ''/v1/events'', ''/v1/ws'']
      in if path \<notin> set paths then Some NotFound
         else if rq_Method rq \<notin> {''GET'', ''HEAD''} then Some NotAllowed
         else if path = ''/healthz'' then Some Healthy
         else if path = ''/readyz'' then map_option Readiness (ready (st_Ping st) (st_Registry st)
           (mt_upstreamConnected (st_Metrics st)) (mt_outboxHealthy (st_Metrics st)))
         else if path = ''/metrics'' then map_option Report (metrics st)
         else if path = ''/v1/catalog'' then with_auth opts rq (Some (Catalog [analysisEventType] (algorithms (so_Periods opts))))
         else if path = ''/v1/snapshots'' then with_auth opts rq
           (map_option Json (snapshots (st_Registry st) (st_Now st) (rq_Query rq ''symbol'') (rq_Query rq ''timeframe'')))
         else if path = ''/v1/events'' then with_auth opts rq (Some (Json (signals (st_Events st) (st_Now st) (rq_Query rq))))
         else with_auth opts rq (Some (ws_upgrade opts rq)))"

definition security :: "(string \<times> string) list" where
  "security = [(''X-Content-Type-Options'', ''nosniff''), (''X-Frame-Options'', ''DENY''), (''Referrer-Policy'', ''no-referrer'')]"

text \<open>The handler of the server: the security headers, then the origin, then the routes.\<close>

definition serve :: "ServerOptions \<Rightarrow> server_state \<Rightarrow> request \<Rightarrow> (string \<times> string) list \<times> reply option" where
  "serve opts st rq =
     (let (echo, outcome) = cors (so_AllowedOrigins opts) (rq_Origin rq) (rq_Method rq = ''OPTIONS'')
      in (security @ (if echo then [(''Access-Control-Allow-Origin'', rq_Origin rq), (''Access-Control-Allow-Headers'', ''Authorization, Content-Type''),
            (''Access-Control-Allow-Methods'', ''GET, OPTIONS''), (''Vary'', ''Origin'')] else []),
          case outcome of Preflight status \<Rightarrow> Some (PreflightReply status) | Forward \<Rightarrow> mux opts st rq))"

subsection \<open>Following the pages\<close>

text \<open>A client that asks for \<open>n\<close> pages, each after the cursor the one before returned.\<close>

fun follow :: "nat \<Rightarrow> event_query \<Rightarrow> time \<Rightarrow> (string \<Rightarrow> string) \<Rightarrow> analysisEvent list" where
  "follow 0 store_query now query = []"
| "follow (Suc n) store_query now query =
     (let body = resp_Body (signals store_query now query)
      in case env_Data body of
           Events events \<Rightarrow> events @ follow n store_query now (query(''resume_after'' := env_Cursor body))
         | _ \<Rightarrow> [])"

text \<open>The same client behind the encoder: it stops at an empty body.\<close>

fun receive :: "nat \<Rightarrow> event_query \<Rightarrow> time \<Rightarrow> (string \<Rightarrow> string) \<Rightarrow> analysisEvent list" where
  "receive 0 store_query now query = []"
| "receive (Suc n) store_query now query =
     (case snd (writeJSON (signals store_query now query)) of
        None \<Rightarrow> []
      | Some body \<Rightarrow>
          (case env_Data body of
             Events events \<Rightarrow> events @ receive n store_query now (query(''resume_after'' := env_Cursor body))
           | _ \<Rightarrow> []))"

lemma receive_follow:
  "list_all event_encodable (follow n store_query now query) \<Longrightarrow> receive n store_query now query = follow n store_query now query"
  by (induction n arbitrary: query) (auto simp: writeJSON_def Let_def simp del: fun_upd_apply split: envelope_data.splits)

text \<open>One event without a JSON form empties its page, under a status of success.\<close>

lemma unencodable_page_empty:
  assumes "signals_filter query = Inr f" and "store_query f = Inr events" and "toAnalysisEvents events now = Inr converted"
    and "\<not> list_all event_encodable converted"
  shows "writeJSON (signals store_query now query) = (200, None)"
  using assms by (simp add: signals_def writeJSON_def envelope_def)

lemma toAnalysisEvents_list: "toAnalysisEvents xs now = Inr zs \<longleftrightarrow> list_all2 (\<lambda>x z. toAnalysisEvent x now = Inr z) xs zs"
proof (induction xs arbitrary: zs)
  case (Cons x xs)
  show ?case
  proof (cases "toAnalysisEvent x now")
    case (Inr y)
    then have "toAnalysisEvents (x # xs) now = Inr zs \<longleftrightarrow> (\<exists>zs'. zs = y # zs' \<and> toAnalysisEvents xs now = Inr zs')"
      by (simp split: sum.split) blast
    then show ?thesis unfolding Cons.IH list_all2_Cons1 Inr by simp
  qed (simp add: list_all2_Cons1)
qed auto

lemma toAnalysisEvents_take_drop:
  assumes "toAnalysisEvents xs now = Inr zs"
  shows "toAnalysisEvents (take n xs) now = Inr (take n zs)" "toAnalysisEvents (drop n xs) now = Inr (drop n zs)"
  using assms unfolding toAnalysisEvents_list by (rule list_all2_takeI, rule list_all2_dropI)

lemma filter_after:
  assumes "sorted_wrt (<) (map ev_Cursor evs)" and "take n (filter (event_matches f) evs) \<noteq> []"
  shows "filter (event_matches (f\<lparr>ef_AfterCursor := ev_Cursor (last (take n (filter (event_matches f) evs)))\<rparr>)) evs =
    drop n (filter (event_matches f) evs)"
proof -
  let ?xs = "filter (event_matches f) evs" and ?c = "ev_Cursor (last (take n (filter (event_matches f) evs)))"
  have l: "last (take n ?xs) \<in> set ?xs" using assms(2) last_in_set in_set_takeD by metis
  then have "ef_AfterCursor f < ?c" by (simp add: event_matches_def)
  then have "event_matches (f\<lparr>ef_AfterCursor := ?c\<rparr>) e \<longleftrightarrow> event_matches f e \<and> ?c < ev_Cursor e" for e
    by (auto simp: event_matches_def)
  then have 1: "filter (event_matches (f\<lparr>ef_AfterCursor := ?c\<rparr>)) evs = filter (\<lambda>e. ?c < ev_Cursor e) ?xs"
    by (simp add: conj_commute cong: filter_cong)
  have s: "sorted_wrt (\<lambda>x y. ev_Cursor x < ev_Cursor y) (take n ?xs @ drop n ?xs)"
    using assms(1) by (simp add: sorted_wrt_map sorted_wrt_filter)
  have "ev_Cursor x \<le> ?c" if "x \<in> set (take n ?xs)" for x
    using that s assms(2) by (cases "take n ?xs" rule: rev_cases) (auto simp: sorted_wrt_append)
  then have "filter (\<lambda>e. ?c < ev_Cursor e) (take n ?xs) = []" by (auto simp: filter_empty_conv not_less)
  moreover have "filter (\<lambda>e. ?c < ev_Cursor e) (drop n ?xs) = drop n ?xs"
    using s last_in_set [OF assms(2)] unfolding sorted_wrt_append by (intro filter_True) blast
  ultimately have "filter (\<lambda>e. ?c < ev_Cursor e) (take n ?xs @ drop n ?xs) = drop n ?xs" by (simp only: filter_append append_Nil)
  with 1 show ?thesis by simp
qed

lemma resume_cursor_range: "resume_cursor raw = Some n \<Longrightarrow> 0 \<le> n \<and> n < 2 ^ 63"
  by (auto simp: resume_cursor_def atoi_def Let_def split: if_splits option.splits)

lemma signals_filter_resume:
  assumes "signals_filter query = Inr f" and "0 \<le> c" and "c < 2 ^ 63"
  shows "signals_filter (query(''resume_after'' := itoa c)) = Inr (f\<lparr>ef_AfterCursor := c\<rparr>)"
proof -
  have "itoa c \<noteq> []" using atoi_itoa [OF assms(2,3)] by (auto simp: atoi_def)
  then have "resume_cursor (itoa c) = Some c" using atoi_itoa [OF assms(2,3)] assms(2) by (simp add: resume_cursor_def)
  with assms(1) show ?thesis by (auto simp: signals_filter_def split: option.splits)
qed

subsection \<open>The types of outputs\<close>

fun value_types :: "output_value \<Rightarrow> string list" where
  "value_types (TextValue _) = [''text'']"
| "value_types (NumberValue _) = [''number'']"
| "value_types (PointsValue _) = [''points'', ''markers'']"
| "value_types (ZonesValue _) = [''zones'']"
| "value_types (LevelsValue _) = [''levels'']"

definition output_typed :: "analysisOutput \<Rightarrow> bool" where
  "output_typed out \<longleftrightarrow> ao_Type out \<in> set (value_types (ao_Value out))"

lemma marketOutputs_typed: "list_all output_typed (marketOutputs m)"
  by (simp add: marketOutputs_def market_output_def output_typed_def)

lemma marketOutputs_catalogue: "map catalog_of (marketOutputs m) = marketOutputCatalog"
  by (simp add: marketOutputCatalog_def marketOutputs_def market_output_def catalog_of_def)

lemma ema_outputs_typed: "list_all output_typed (ema_outputs states)"
  by (auto simp: ema_outputs_def output_typed_def list_all_iff split: option.splits if_splits)

subsection \<open>Properties\<close>

lemma follow_complete:
  assumes "wf_memory m" and "mem_next m < 2 ^ 63" and "signals_filter query = Inr f"
    and "toAnalysisEvents (filter (event_matches f) (mem_events m)) now = Inr all"
  shows "follow n (\<lambda>f. Inr (Memory_QueryEvents m f)) now query = take (n * nat (normalize_limit (ef_Limit f))) all"
  using assms(3,4)
proof (induction n arbitrary: query f all)
  case (Suc n)
  let ?q = "\<lambda>f. Inr (Memory_QueryEvents m f)" and ?k = "nat (normalize_limit (ef_Limit f))" and ?xs = "filter (event_matches f) (mem_events m)"
  have page: "Memory_QueryEvents m f = take ?k ?xs" by (simp add: Memory_QueryEvents_def)
  define c where "c = (if take ?k ?xs \<noteq> [] then ev_Cursor (last (take ?k ?xs)) else ef_AfterCursor f)"
  have body: "resp_Body (signals ?q now query) = (envelope ''page'' (Events (take ?k all)))\<lparr>env_Cursor := itoa c\<rparr>"
    using Suc.prems toAnalysisEvents_take_drop(1) by (simp add: signals_def page c_def)
  show ?case
  proof (cases "take ?k ?xs = []")
    case True
    moreover have "0 < ?k" by (simp add: normalize_limit_def Let_def)
    ultimately have xs: "?xs = []" by (metis less_irrefl take_eq_Nil)
    then have all: "all = []" using Suc.prems(2) by simp
    have c: "c = ef_AfterCursor f" using True by (simp add: c_def)
    have "0 \<le> c" "c < 2 ^ 63"
      using Suc.prems(1) resume_cursor_range unfolding c by (auto simp: signals_filter_def split: option.splits)
    from signals_filter_resume [OF Suc.prems(1) this]
    have f': "signals_filter (query(''resume_after'' := itoa c)) = Inr f" by (simp add: c)
    from Suc.IH [OF f', of "[]"] show ?thesis by (simp add: body all xs Let_def envelope_def del: fun_upd_apply)
  next
    case False
    then have "last (take ?k ?xs) \<in> set ?xs" using last_in_set in_set_takeD by metis
    then have l: "last (take ?k ?xs) \<in> set (mem_events m)" by simp
    then have c: "0 \<le> c" "c < 2 ^ 63" using assms(1,2) False by (auto simp: c_def wf_memory_def)
    have f': "signals_filter (query(''resume_after'' := itoa c)) = Inr (f\<lparr>ef_AfterCursor := c\<rparr>)"
      by (rule signals_filter_resume [OF Suc.prems(1) c])
    have "filter (event_matches (f\<lparr>ef_AfterCursor := c\<rparr>)) (mem_events m) = drop ?k ?xs"
      using filter_after [OF _ False] assms(1) False by (simp add: c_def wf_memory_def)
    then have "follow n ?q now (query(''resume_after'' := itoa c)) = take (n * ?k) (drop ?k all)"
      using Suc.IH [OF f'] toAnalysisEvents_take_drop(2) [OF Suc.prems(2), of ?k] by (simp del: fun_upd_apply)
    then show ?thesis by (simp add: body Let_def envelope_def take_add)
  qed
qed simp

text \<open>
  C23. Paging is complete: a client of the event query that follows the returned cursors is given every stored event that
  matches its filter, once and in the order of the log; as many pages as are needed to hold them bring them all. If all of these
  events have a JSON form, this is also what the client receives.
\<close>

theorem event_pages_complete:
  assumes "wf_memory m" and "mem_next m < 2 ^ 63" and "signals_filter query = Inr f"
    and "toAnalysisEvents (filter (event_matches f) (mem_events m)) now = Inr all"
  shows "follow n (\<lambda>f. Inr (Memory_QueryEvents m f)) now query = take (n * nat (normalize_limit (ef_Limit f))) all \<and>
    (list_all event_encodable all \<longrightarrow>
       receive n (\<lambda>f. Inr (Memory_QueryEvents m f)) now query = take (n * nat (normalize_limit (ef_Limit f))) all)"
proof -
  note f = follow_complete [OF assms, of n]
  have "list_all event_encodable all \<Longrightarrow> list_all event_encodable (follow n (\<lambda>f. Inr (Memory_QueryEvents m f)) now query)"
    unfolding f by (auto simp: list_all_iff dest: in_set_takeD)
  with f receive_follow show ?thesis by metis
qed

text \<open>Two stored events, fetched one by one.\<close>

definition sample_page_event :: "int \<Rightarrow> SignalEvent" where
  "sample_page_event c = (sample_event c)\<lparr>ev_EventID := itoa c, ev_EventType := ''market.state'', ev_Timeframe := ''1m'',
     ev_Market := Some zero_MarketState\<rparr>"

definition sample_pages :: Memory where
  "sample_pages = NewMemory\<lparr>mem_next := 2, mem_events := [sample_page_event 1, sample_page_event 2]\<rparr>"

theorem event_pages_complete_witness:
  "\<exists>a b. toAnalysisEvents [sample_page_event 1, sample_page_event 2] 0 = Inr [a, b] \<and>
     follow 1 (\<lambda>f. Inr (Memory_QueryEvents sample_pages f)) 0 (\<lambda>name. if name = ''limit'' then ''1'' else []) = [a] \<and>
     follow 2 (\<lambda>f. Inr (Memory_QueryEvents sample_pages f)) 0 (\<lambda>name. if name = ''limit'' then ''1'' else []) = [a, b]"
proof -
  let ?q = "\<lambda>name. if name = ''limit'' then ''1'' else []"
  let ?f = "\<lparr>ef_AfterCursor = 0, ef_Dataset = [], ef_Symbol = [], ef_Timeframe = [], ef_Period = 0, ef_EventType = [],
    ef_Analysis = [], ef_Limit = 1\<rparr>"
  have f: "signals_filter ?q = Inr ?f" by (simp add: signals_filter_def resume_cursor_def page_limit_def atoi_one)
  have wf: "wf_memory sample_pages" "mem_next sample_pages < 2 ^ 63"
    by (auto simp: wf_memory_def sample_pages_def NewMemory_def sample_page_event_def sample_event_def)
  have m: "filter (event_matches ?f) (mem_events sample_pages) = [sample_page_event 1, sample_page_event 2]"
    by (simp add: sample_pages_def event_matches_def sample_page_event_def sample_event_def)
  obtain a b where ab: "toAnalysisEvents [sample_page_event 1, sample_page_event 2] 0 = Inr [a, b]"
    by (simp add: toAnalysisEvent_def analysis_data_def sample_page_event_def sample_event_def sample_timeframe)
  note p = event_pages_complete [OF wf f ab [folded m]]
  have "nat (normalize_limit (ef_Limit ?f)) = 1" by (simp add: normalize_limit_def)
  with p [of 1] p [of 2] ab show ?thesis by (intro exI [of _ a] exI [of _ b]) simp
qed

text \<open>
  C26. Public events are typed as the catalogue says: every output of a converted event has a value of the type it
  names, a market event carries the outputs of the catalogue in their order followed by the averages, and an average is
  announced under the hash its events carry.
\<close>

theorem outputs_typed:
  assumes "toAnalysisEvent event now = Inr a"
  shows "list_all output_typed (ad_Outputs (ae_Data a)) \<and>
    (ev_EventType event = ''market.state'' \<longrightarrow> (\<exists>averages. map catalog_of (ad_Outputs (ae_Data a)) = marketOutputCatalog @ averages)) \<and>
    (\<forall>p. ce_ConfigHash (ema_entry p) = alg_ConfigHash (emaAlgorithm p) \<and> ce_Name (ema_entry p) = alg_Name (emaAlgorithm p))"
proof -
  obtain d data where d: "analysis_data event d = Inr data" "ae_Data a = data"
    using assms by (auto simp: toAnalysisEvent_def split: sum.splits)
  have i: "list_all output_typed (ad_Outputs (indicator_data event p (base_data event d)))" for p
    by (simp add: indicator_data_def output_typed_def base_data_def)
  have m: "ad_Outputs (market_data event st (base_data event d)) = marketOutputs st @ ema_outputs (ev_Indicators event)" for st
    by (simp add: market_data_def)
  have "list_all output_typed (ad_Outputs data)"
    using d(1) i m marketOutputs_typed ema_outputs_typed by (auto simp: analysis_data_def split: if_splits option.splits)
  moreover have "\<exists>averages. map catalog_of (ad_Outputs data) = marketOutputCatalog @ averages" if "ev_EventType event = ''market.state''"
    using d(1) that m marketOutputs_catalogue by (auto simp: analysis_data_def split: option.splits)
  ultimately show ?thesis
    by (simp add: d(2) ema_entry_def Let_def indicatorConfigHash_ema) (simp add: emaAlgorithm_def)
qed

theorem outputs_typed_witness:
  "\<exists>a averages. toAnalysisEvent (sample_page_event 1) 0 = Inr a \<and>
     map catalog_of (ad_Outputs (ae_Data a)) = marketOutputCatalog @ averages"
proof -
  obtain a where a: "toAnalysisEvent (sample_page_event 1) 0 = Inr a"
    by (simp add: toAnalysisEvent_def analysis_data_def sample_page_event_def sample_event_def sample_timeframe)
  with outputs_typed [OF a] show ?thesis by (auto simp: sample_page_event_def)
qed

end
