(* ===== verification/Input.thy ===== *)
theory Input
  imports Registry Metrics
begin

text \<open>
  \<^verbatim>\<open>internal/input/ohlc.go\<close>: the client of the candle service. Messages are dispatched to a sink, the registry in the
  process, a record of operations on its state. The connection is the list of what its reads return: \<open>None\<close> is a
  payload that is not a message; the end of the list is a read error. Clocks and random numbers are arguments.
\<close>

subsection \<open>Options\<close>

record ('s, 'e) Sink =
  sink_Seed :: "'s \<Rightarrow> string \<Rightarrow> string \<Rightarrow> Bar list \<Rightarrow> ('e, unit) result \<times> 's"
  sink_Closed :: "'s \<Rightarrow> Bar \<Rightarrow> ('e, unit) result \<times> 's"
  sink_Forming :: "'s \<Rightarrow> Bar \<Rightarrow> ('e, unit) result \<times> 's"

text \<open>The options without the sink, the logger and the metrics, which are arguments of the operations; whether a
  sink was given is a flag.\<close>

record OHLCOptions =
  oo_URL :: string
  oo_Token :: string
  oo_Series :: "SeriesKey list"
  oo_SeedBars :: int
  oo_Sink :: bool
  oo_MinBackoff :: int
  oo_MaxBackoff :: int
  oo_HandshakeWait :: int

definition NewOHLCClient :: "OHLCOptions \<Rightarrow> OHLCOptions option" where
  "NewOHLCClient opts =
     (if oo_URL opts = [] \<or> \<not> oo_Sink opts \<or> oo_Series opts = [] \<or> oo_SeedBars opts \<le> 0 then None
      else let o1 = (if oo_MinBackoff opts \<le> 0 then opts\<lparr>oo_MinBackoff := second\<rparr> else opts);
          o2 = (if oo_MaxBackoff o1 < oo_MinBackoff o1 then o1\<lparr>oo_MaxBackoff := 30 * second\<rparr> else o1)
        in Some (if oo_HandshakeWait o2 \<le> 0 then o2\<lparr>oo_HandshakeWait := 10 * second\<rparr> else o2))"

subsection \<open>Messages\<close>

record subscribeMessage =
  sm_Action :: string
  sm_Symbol :: string
  sm_Timeframe :: string
  sm_SeedBars :: int

record serverMessage =
  msg_Type :: string
  msg_Key :: string
  msg_Bars :: "Bar list"
  msg_Bar :: "Bar option"
  msg_Err :: string

datatype 'e input_error = NoSeriesIdentity | SeedFailed string 'e | InvalidClosed | ClosedFailed 'e | InvalidForming |
  FormingFailed 'e | ServerError string | UnsupportedMessage string | DecodeFailed | ReadFailed | SubscribeFailed SeriesKey | DialFailed

text \<open>The scan for the separator, with what is before the index.\<close>

fun key_scan :: "string \<Rightarrow> string \<Rightarrow> (string \<times> string) option" where
  "key_scan before [] = None"
| "key_scan before (c # rest) =
     (if c = CHR ''|'' \<and> before \<noteq> [] \<and> rest \<noteq> [] then Some (before, rest) else key_scan (before @ [c]) rest)"

definition seriesFromMessage :: "serverMessage \<Rightarrow> ('e input_error, string \<times> string) result" where
  "seriesFromMessage m =
     (case msg_Bars m of
        bar # _ \<Rightarrow> Inr (bar_Symbol bar, bar_Timeframe bar)
      | [] \<Rightarrow> (case key_scan [] (msg_Key m) of None \<Rightarrow> Inl NoSeriesIdentity | Some p \<Rightarrow> Inr p))"

text \<open>What a message does to the sink; the metrics record it when it succeeds.\<close>

definition dispatch_sink :: "('s, 'e) Sink \<Rightarrow> 's \<Rightarrow> serverMessage \<Rightarrow> ('e input_error, unit) result \<times> 's" where
  "dispatch_sink sink s m =
     (if msg_Type m = ''seed'' then
        (case seriesFromMessage m of
           Inl e \<Rightarrow> (Inl e, s)
         | Inr (symbol, timeframe) \<Rightarrow>
             (case sink_Seed sink s symbol timeframe (msg_Bars m) of
                (Inl e, s') \<Rightarrow> (Inl (SeedFailed (msg_Key m) e), s') | (Inr _, s') \<Rightarrow> (Inr (), s')))
      else if msg_Type m = ''closed'' then
        (case msg_Bar m of
           None \<Rightarrow> (Inl InvalidClosed, s)
         | Some bar \<Rightarrow> if \<not> bar_Closed bar then (Inl InvalidClosed, s)
             else (case sink_Closed sink s bar of (Inl e, s') \<Rightarrow> (Inl (ClosedFailed e), s') | (Inr _, s') \<Rightarrow> (Inr (), s')))
      else if msg_Type m = ''forming'' then
        (case msg_Bar m of
           None \<Rightarrow> (Inl InvalidForming, s)
         | Some bar \<Rightarrow> if bar_Closed bar then (Inl InvalidForming, s)
             else (case sink_Forming sink s bar of (Inl e, s') \<Rightarrow> (Inl (FormingFailed e), s') | (Inr _, s') \<Rightarrow> (Inr (), s')))
      else if msg_Type m = ''error'' then (Inl (ServerError (msg_Err m)), s)
      else (Inl (UnsupportedMessage (msg_Type m)), s))"

definition dispatch_message :: "('s, 'e) Sink \<Rightarrow> time \<Rightarrow> 's \<times> Metrics \<Rightarrow> serverMessage \<Rightarrow> ('e input_error, unit) result \<times> 's \<times> Metrics" where
  "dispatch_message sink now = (\<lambda>(s, mt) m.
     (case dispatch_sink sink s m of
        (Inl e, s') \<Rightarrow> (Inl e, s', mt)
      | (Inr _, s') \<Rightarrow> (Inr (), s', RecordInput now (msg_Type m) mt)))"

subsection \<open>A connection\<close>

fun read_loop :: "('s, 'e) Sink \<Rightarrow> time \<Rightarrow> 's \<times> Metrics \<Rightarrow> serverMessage option list \<Rightarrow> 'e input_error \<times> 's \<times> Metrics" where
  "read_loop sink now st [] = (ReadFailed, st)"
| "read_loop sink now st (None # payloads) = (DecodeFailed, st)"
| "read_loop sink now st (Some m # payloads) =
     (case dispatch_message sink now st m of
        (Inl e, st') \<Rightarrow> (e, st')
      | (Inr _, st') \<Rightarrow> read_loop sink now st' payloads)"

definition subscribe_messages :: "OHLCOptions \<Rightarrow> subscribeMessage list" where
  "subscribe_messages opts = map (\<lambda>key. \<lparr>sm_Action = ''subscribe'', sm_Symbol = key_Symbol key, sm_Timeframe = key_Timeframe key,
     sm_SeedBars = oo_SeedBars opts\<rparr>) (oo_Series opts)"

text \<open>
  One connection: the dial succeeds or not, the first \<open>n\<close> subscriptions can be written, then the reads. The first
  component tells whether a connection was made.
\<close>

record dialled =
  dl_ok :: bool
  dl_writes :: nat
  dl_reads :: "serverMessage option list"

definition runConnection :: "OHLCOptions \<Rightarrow> ('s, 'e) Sink \<Rightarrow> time \<Rightarrow> dialled \<Rightarrow> 's \<times> Metrics \<Rightarrow> bool \<times> 'e input_error \<times> 's \<times> Metrics" where
  "runConnection opts sink now d st =
     (if \<not> dl_ok d then (False, DialFailed, st)
      else if dl_writes d < length (oo_Series opts) then (True, SubscribeFailed (oo_Series opts ! dl_writes d), st)
      else (True, read_loop sink now (fst st, SetConnected True (snd st)) (dl_reads d)))"

subsection \<open>The reconnect loop\<close>

text \<open>The next base delay, the doubling taken in 64 bits.\<close>

definition next_backoff :: "OHLCOptions \<Rightarrow> int \<Rightarrow> int" where
  "next_backoff opts backoff = (let b = wrap64 (backoff * 2) in if oo_MaxBackoff opts < b then oo_MaxBackoff opts else b)"

text \<open>\<^verbatim>\<open>rand.Int64N(n)\<close> draws from 0 to \<open>n - 1\<close>: any such number is some \<open>u mod n\<close>.\<close>

definition jitter_of :: "int \<Rightarrow> nat \<Rightarrow> int" where
  "jitter_of base u = int u mod (base div 4 + 1)"

text \<open>
  The loop over the connections of a run, with the random number drawn for each; the delays it waits are
  collected. A run whose context is cancelled while it waits is one whose list ends.
\<close>

fun Run :: "OHLCOptions \<Rightarrow> ('s, 'e) Sink \<Rightarrow> time \<Rightarrow> int \<Rightarrow> (dialled \<times> nat) list \<Rightarrow> 's \<times> Metrics \<Rightarrow> int list \<times> 's \<times> Metrics" where
  "Run opts sink now backoff [] st = ([], st)"
| "Run opts sink now backoff ((d, u) # ds) st =
     (let (connected, e, s, mt) = runConnection opts sink now d st;
          mt' = RecordReconnect (RecordInputError (SetConnected False mt));
          base = (if connected then oo_MinBackoff opts else backoff);
          (delays, st') = Run opts sink now (next_backoff opts base) ds (s, mt')
      in ((base + jitter_of base u) # delays, st'))"

subsection \<open>The registry as the sink\<close>

definition registry_sink :: "'s store_ops \<Rightarrow> (Registry \<times> 's world, registry_error) Sink" where
  "registry_sink ops = \<lparr>sink_Seed = (\<lambda>(r, w) symbol timeframe bars. Registry_Seed ops r w symbol timeframe bars),
     sink_Closed = (\<lambda>(r, w) bar. Registry_Closed ops r w bar), sink_Forming = (\<lambda>(r, w) bar. Registry_Forming ops r w bar)\<rparr>"

lemma registry_sink_simps [simp]:
  "sink_Seed (registry_sink ops) (r, w) = Registry_Seed ops r w" "sink_Closed (registry_sink ops) (r, w) = Registry_Closed ops r w"
  "sink_Forming (registry_sink ops) (r, w) = Registry_Forming ops r w"
  by (simp_all add: registry_sink_def fun_eq_iff)

subsection \<open>Delays\<close>

text \<open>The base delay after \<open>k\<close> dials that failed in a row.\<close>

lemma next_backoff_min:
  assumes "0 < b" and "oo_MaxBackoff opts < 2 ^ 62" and "0 < oo_MaxBackoff opts"
  shows "next_backoff opts (min (oo_MaxBackoff opts) b) = min (oo_MaxBackoff opts) (2 * b)"
proof -
  let ?m = "min (oo_MaxBackoff opts) b"
  have "0 < ?m" "?m < 2 ^ 62" using assms by auto
  then have "wrap64 (?m * 2) = ?m * 2" by (intro wrap64_id) auto
  then show ?thesis using assms by (auto simp: next_backoff_def min_def Let_def)
qed

definition failed_run :: "(dialled \<times> nat) list \<Rightarrow> nat" where
  "failed_run ds = length (takeWhile (\<lambda>d. \<not> dl_ok (fst d)) (rev ds))"

lemma runConnection_connected: "fst (runConnection opts sink now d st) = dl_ok d"
  by (simp add: runConnection_def)

lemma failed_run_Cons:
  "failed_run (d # ds) = (if failed_run ds = length ds then (if dl_ok (fst d) then length ds else Suc (length ds)) else failed_run ds)"
proof -
  let ?P = "\<lambda>d. \<not> dl_ok (fst d)"
  show ?thesis
  proof (cases "\<forall>x \<in> set ds. ?P x")
    case True
    then have "takeWhile ?P (rev ds) = rev ds" by (simp add: takeWhile_eq_all_conv)
    then have "length (takeWhile ?P (rev ds)) = length ds" by (metis length_rev)
    moreover have "takeWhile ?P (rev ds @ [d]) = rev ds @ takeWhile ?P [d]" using True by (intro takeWhile_append2) auto
    ultimately show ?thesis by (simp add: failed_run_def)
  next
    case False
    then obtain x where "x \<in> set (rev ds)" "\<not> ?P x" by auto
    then have t: "takeWhile ?P (rev ds @ [d]) = takeWhile ?P (rev ds)" by (rule takeWhile_append1)
    have "takeWhile ?P (rev ds) \<noteq> rev ds" using False by (metis set_rev takeWhile_eq_all_conv)
    then have "length (takeWhile ?P (rev ds)) \<noteq> length ds"
      by (metis length_rev takeWhile_eq_take take_all order_refl)
    with t show ?thesis by (simp add: failed_run_def)
  qed
qed

lemma failed_run_le: "failed_run ds \<le> length ds"
  unfolding failed_run_def by (metis length_rev length_takeWhile_le)

lemma Run_delays:
  assumes "0 < b" and "0 < oo_MinBackoff opts" and "oo_MinBackoff opts \<le> oo_MaxBackoff opts" and "oo_MaxBackoff opts < 2 ^ 62"
    and "Run opts sink now (min (oo_MaxBackoff opts) b) ds st = (delays, st')" and "i < length ds"
  shows "length delays = length ds \<and> (\<exists>u. delays ! i = (let base = min (oo_MaxBackoff opts)
      (if failed_run (take (Suc i) ds) = Suc i then b * 2 ^ i else oo_MinBackoff opts * 2 ^ failed_run (take (Suc i) ds))
    in base + jitter_of base u))"
  using assms(1,5,6)
proof (induction ds arbitrary: b st delays i)
  case (Cons du ds)
  let ?max = "oo_MaxBackoff opts" and ?min = "oo_MinBackoff opts"
  obtain d u where du: "du = (d, u)" by fastforce
  obtain connected e s mt where c: "runConnection opts sink now d st = (connected, e, s, mt)" by (metis prod_cases4)
  then have ok: "connected = dl_ok d" using runConnection_connected [of opts sink now d st] by simp
  define b1 where "b1 = (if connected then ?min else b)"
  have base: "(if connected then ?min else min ?max b) = min ?max b1" using assms(3) by (simp add: b1_def)
  have pos: "0 < b1" using Cons.prems(1) assms(2) by (simp add: b1_def)
  have n: "next_backoff opts (min ?max b1) = min ?max (2 * b1)" using next_backoff_min [OF pos assms(4)] assms(2,3) by simp
  let ?mt = "RecordReconnect (RecordInputError (SetConnected False mt))"
  obtain rest where r: "Run opts sink now (min ?max (2 * b1)) ds (s, ?mt) = (rest, st')" and
      del: "delays = (min ?max b1 + jitter_of (min ?max b1) u) # rest"
    using Cons.prems(2) by (simp add: du c base n Let_def split: prod.splits)
  have len: "length rest = length ds" by (cases ds) (use r Cons.IH [of "2 * b1" "(s, ?mt)" rest 0] pos in auto)
  show ?case
  proof (cases i)
    case 0
    then show ?thesis using len by (auto simp: del du b1_def ok failed_run_def Let_def intro!: exI [of _ u])
  next
    case (Suc j)
    then have j: "j < length ds" using Cons.prems(3) by simp
    have f: "failed_run (du # take (Suc j) ds) = (if failed_run (take (Suc j) ds) = Suc j then (if dl_ok d then Suc j else Suc (Suc j))
        else failed_run (take (Suc j) ds))"
      using failed_run_Cons [of du "take (Suc j) ds"] j by (simp add: du min_def)
    obtain v where v: "rest ! j = (let base = min ?max
        (if failed_run (take (Suc j) ds) = Suc j then 2 * b1 * 2 ^ j else ?min * 2 ^ failed_run (take (Suc j) ds))
      in base + jitter_of base v)"
      using Cons.IH [OF _ r j] pos by auto
    have "failed_run (take (Suc j) ds) \<le> Suc j" using failed_run_le [of "take (Suc j) ds"] j by simp
    then show ?thesis using v len by (auto simp: del Suc f b1_def ok Let_def mult.assoc mult.left_commute)
  qed
qed simp

subsection \<open>Properties\<close>

text \<open>
  C25. Reconnects back off exponentially: the delay before the next dial lies between the base and a quarter more, where the
  base is the least delay doubled for every dial that failed in a row, capped at the greatest delay; a connection that was
  made resets it.
\<close>

theorem backoff_exponential:
  assumes "NewOHLCClient given = Some opts" and "oo_MinBackoff opts \<le> oo_MaxBackoff opts" and "oo_MaxBackoff opts < 2 ^ 62"
    and "Run opts sink now (oo_MinBackoff opts) ds st = (delays, st')" and "i < length ds"
    and "base = min (oo_MaxBackoff opts) (oo_MinBackoff opts * 2 ^ min i (failed_run (take (Suc i) ds)))"
  shows "length delays = length ds \<and> base \<le> delays ! i \<and> delays ! i \<le> base + base div 4"
proof -
  have pos: "0 < oo_MinBackoff opts"
    using assms(1) by (auto simp: NewOHLCClient_def Let_def second_def nanos_def split: if_splits)
  have "min (oo_MaxBackoff opts) (oo_MinBackoff opts) = oo_MinBackoff opts" using assms(2) by simp
  then have r: "Run opts sink now (min (oo_MaxBackoff opts) (oo_MinBackoff opts)) ds st = (delays, st')" using assms(4) by simp
  have "failed_run (take (Suc i) ds) \<le> Suc i" using failed_run_le [of "take (Suc i) ds"] by simp
  then have "(if failed_run (take (Suc i) ds) = Suc i then oo_MinBackoff opts * 2 ^ i else oo_MinBackoff opts * 2 ^ failed_run (take (Suc i) ds)) =
      oo_MinBackoff opts * 2 ^ min i (failed_run (take (Suc i) ds))" by (auto simp: min_def le_Suc_eq)
  with Run_delays [OF pos pos assms(2,3) r assms(5)] assms(6) obtain u where
    u: "length delays = length ds" "delays ! i = base + jitter_of base u" by (auto simp: Let_def)
  have "0 < base" using pos assms(2,6) by simp
  then have n: "0 < base div 4 + 1" by (simp add: pos_imp_zdiv_nonneg_iff)
  have "0 \<le> jitter_of base u" "jitter_of base u < base div 4 + 1"
    unfolding jitter_of_def using pos_mod_sign [OF n] pos_mod_bound [OF n] by simp_all
  with u show ?thesis by simp
qed

definition sample_ohlc :: OHLCOptions where
  "sample_ohlc = \<lparr>oo_URL = ''ws'', oo_Token = [], oo_Series = [sample_key], oo_SeedBars = 500, oo_Sink = True, oo_MinBackoff = 0,
     oo_MaxBackoff = 0, oo_HandshakeWait = 0\<rparr>"

definition sample_dials :: "(dialled \<times> nat) list" where
  "sample_dials = replicate 2 (\<lparr>dl_ok = False, dl_writes = 0, dl_reads = []\<rparr>, 7)"

theorem backoff_exponential_witness:
  "\<exists>opts delays st'. NewOHLCClient sample_ohlc = Some opts \<and>
     Run opts (registry_sink memory_ops) 0 (oo_MinBackoff opts) sample_dials ((sample_registry, sample_world), NewMetrics 0) = (delays, st') \<and>
     2 * second \<le> delays ! 1 \<and> delays ! 1 \<le> 2 * second + 2 * second div 4"
proof -
  obtain opts where o: "NewOHLCClient sample_ohlc = Some opts" "oo_MinBackoff opts = second" "oo_MaxBackoff opts = 30 * second"
    by (simp add: NewOHLCClient_def sample_ohlc_def second_def nanos_def)
  obtain delays st' where r: "Run opts (registry_sink memory_ops) 0 (oo_MinBackoff opts) sample_dials
      ((sample_registry, sample_world), NewMetrics 0) = (delays, st')" by (rule prod.exhaust)
  have f: "failed_run (take (Suc 1) sample_dials) = 2" "1 < length sample_dials" by code_simp+
  have "2 * second \<le> delays ! 1 \<and> delays ! 1 \<le> 2 * second + 2 * second div 4"
    using backoff_exponential [OF o(1) _ _ r f(2) refl] o(2,3) f(1) by (simp add: second_def nanos_def)
  with o(1) r show ?thesis by blast
qed

lemma key_scan_symbol:
  "CHR ''|'' \<notin> set symbol \<Longrightarrow> before @ symbol \<noteq> [] \<Longrightarrow> timeframe \<noteq> [] \<Longrightarrow>
     key_scan before (symbol @ CHR ''|'' # timeframe) = Some (before @ symbol, timeframe)"
  by (induction symbol arbitrary: before) auto

text \<open>
  A seed without bars is routed by its key: the symbol and the timeframe are recovered from the key of a series, as long as the
  symbol does not contain the separator.
\<close>

theorem series_from_key:
  assumes "CHR ''|'' \<notin> set symbol" and "symbol \<noteq> []" and "timeframe \<noteq> []" and "msg_Bars m = []"
    and "msg_Key m = lookupKey symbol timeframe"
  shows "seriesFromMessage m = Inr (symbol, timeframe)"
  using assms key_scan_symbol [of symbol "[]" timeframe] by (simp add: seriesFromMessage_def lookupKey_def)

theorem series_from_key_witness:
  "(seriesFromMessage \<lparr>msg_Type = ''seed'', msg_Key = ''BTC|1m'', msg_Bars = [], msg_Bar = None, msg_Err = []\<rparr> ::
      (unit input_error, _) result) = Inr (''BTC'', ''1m'')"
  by (rule series_from_key) (simp_all add: lookupKey_def)

subsection \<open>The calls a connection makes\<close>

text \<open>A sink that records the calls it is given, with what the sink behind it answered.\<close>

datatype sink_call = SeedCall string string "Bar list" | ClosedCall Bar | FormingCall Bar

type_synonym 'e answered = "sink_call \<times> ('e, unit) result"

definition recorded :: "('s, 'e) Sink \<Rightarrow> ('s \<times> 'e answered list, 'e) Sink" where
  "recorded sink =
     \<lparr>sink_Seed = (\<lambda>(s, calls) symbol timeframe bars.
        case sink_Seed sink s symbol timeframe bars of (a, s') \<Rightarrow> (a, s', calls @ [(SeedCall symbol timeframe bars, a)])),
      sink_Closed = (\<lambda>(s, calls) bar. case sink_Closed sink s bar of (a, s') \<Rightarrow> (a, s', calls @ [(ClosedCall bar, a)])),
      sink_Forming = (\<lambda>(s, calls) bar. case sink_Forming sink s bar of (a, s') \<Rightarrow> (a, s', calls @ [(FormingCall bar, a)]))\<rparr>"

text \<open>The series of a seed: that of its first bar or, without bars, the one its key names, split at the first separator that leaves
  a symbol and a timeframe.\<close>

definition names_series :: "serverMessage \<Rightarrow> string \<Rightarrow> string \<Rightarrow> bool" where
  "names_series m symbol timeframe \<longleftrightarrow>
     (\<exists>bar bars. msg_Bars m = bar # bars \<and> symbol = bar_Symbol bar \<and> timeframe = bar_Timeframe bar) \<or>
     (msg_Bars m = [] \<and> msg_Key m = symbol @ CHR ''|'' # timeframe \<and> symbol \<noteq> [] \<and> timeframe \<noteq> [] \<and> CHR ''|'' \<notin> set (tl symbol))"

definition failure :: "('e \<Rightarrow> 'e input_error) \<Rightarrow> ('e, unit) result \<Rightarrow> 'e input_error option" where
  "failure wrap a = (case a of Inl e \<Rightarrow> Some (wrap e) | Inr _ \<Rightarrow> None)"

text \<open>What a message makes of the sink, and the error it ends the connection with, if any.\<close>

inductive handled :: "serverMessage \<Rightarrow> 'e answered list \<Rightarrow> 'e input_error option \<Rightarrow> bool" for m where
  seed: "msg_Type m = ''seed'' \<Longrightarrow> names_series m symbol timeframe \<Longrightarrow>
    handled m [(SeedCall symbol timeframe (msg_Bars m), a)] (failure (SeedFailed (msg_Key m)) a)"
| closed_bar: "msg_Type m = ''closed'' \<Longrightarrow> msg_Bar m = Some bar \<Longrightarrow> bar_Closed bar \<Longrightarrow>
    handled m [(ClosedCall bar, a)] (failure ClosedFailed a)"
| forming_bar: "msg_Type m = ''forming'' \<Longrightarrow> msg_Bar m = Some bar \<Longrightarrow> \<not> bar_Closed bar \<Longrightarrow>
    handled m [(FormingCall bar, a)] (failure FormingFailed a)"
| no_series: "msg_Type m = ''seed'' \<Longrightarrow> \<nexists>symbol timeframe. names_series m symbol timeframe \<Longrightarrow> handled m [] (Some NoSeriesIdentity)"
| no_closed: "msg_Type m = ''closed'' \<Longrightarrow> \<nexists>bar. msg_Bar m = Some bar \<and> bar_Closed bar \<Longrightarrow> handled m [] (Some InvalidClosed)"
| no_forming: "msg_Type m = ''forming'' \<Longrightarrow> \<nexists>bar. msg_Bar m = Some bar \<and> \<not> bar_Closed bar \<Longrightarrow> handled m [] (Some InvalidForming)"
| server_error: "msg_Type m = ''error'' \<Longrightarrow> handled m [] (Some (ServerError (msg_Err m)))"
| unsupported: "msg_Type m \<notin> {''seed'', ''closed'', ''forming'', ''error''} \<Longrightarrow> handled m [] (Some (UnsupportedMessage (msg_Type m)))"

text \<open>A whole connection: what was read, the calls made, the messages accepted and the error at the end.\<close>

fun conversation :: "serverMessage option list \<Rightarrow> 'e answered list \<Rightarrow> serverMessage list \<Rightarrow> 'e input_error \<Rightarrow> bool" where
  "conversation [] calls ms e \<longleftrightarrow> calls = [] \<and> ms = [] \<and> e = ReadFailed"
| "conversation (None # payloads) calls ms e \<longleftrightarrow> calls = [] \<and> ms = [] \<and> e = DecodeFailed"
| "conversation (Some m # payloads) calls ms e \<longleftrightarrow>
     (handled m calls (Some e) \<and> ms = []) \<or>
     (\<exists>mine rest ms'. handled m mine None \<and> calls = mine @ rest \<and> ms = m # ms' \<and> conversation payloads rest ms' e)"

lemma key_scan_Some:
  assumes "key_scan before key = Some (symbol, timeframe)" and "CHR ''|'' \<notin> set (tl before)"
  shows "before @ key = symbol @ CHR ''|'' # timeframe \<and> symbol \<noteq> [] \<and> timeframe \<noteq> [] \<and> CHR ''|'' \<notin> set (tl symbol)"
  using assms
proof (induction key arbitrary: before)
  case (Cons c rest)
  show ?case
  proof (cases "c = CHR ''|'' \<and> before \<noteq> [] \<and> rest \<noteq> []")
    case True
    with Cons.prems show ?thesis by auto
  next
    case False
    then have k: "key_scan (before @ [c]) rest = Some (symbol, timeframe)" using Cons.prems(1) by (simp split: if_splits)
    then have "rest \<noteq> []" by (cases rest) auto
    with False Cons.prems(2) have "CHR ''|'' \<notin> set (tl (before @ [c]))" by (cases before) auto
    from Cons.IH [OF k this] show ?thesis by simp
  qed
qed simp

lemma key_scan_None:
  "key_scan before key = None \<Longrightarrow> before @ key \<noteq> symbol @ CHR ''|'' # timeframe \<or> length symbol < length before \<or> symbol = [] \<or> timeframe = []"
proof (induction key arbitrary: before)
  case (Cons c rest)
  have f: "\<not> (c = CHR ''|'' \<and> before \<noteq> [] \<and> rest \<noteq> [])" and k: "key_scan (before @ [c]) rest = None"
    using Cons.prems by (auto split: if_splits)
  show ?case
  proof (cases "length symbol = length before")
    case True
    then show ?thesis using f by (auto simp: append_eq_append_conv)
  next
    case False
    then show ?thesis using Cons.IH [OF k] by auto
  qed
qed auto

lemma seriesFromMessage_cases:
  fixes r :: "('e input_error, string \<times> string) result"
  assumes "r = seriesFromMessage m"
  obtains symbol timeframe where "r = Inr (symbol, timeframe)" "names_series m symbol timeframe"
  | "r = Inl NoSeriesIdentity" "\<nexists>symbol timeframe. names_series m symbol timeframe"
proof (cases "msg_Bars m")
  case Nil
  show thesis
  proof (cases "key_scan [] (msg_Key m)")
    case None
    have "\<nexists>symbol timeframe. names_series m symbol timeframe"
      using Nil key_scan_None [OF None] by (auto simp: names_series_def)
    moreover have "r = Inl NoSeriesIdentity" using Nil None assms by (simp add: seriesFromMessage_def)
    ultimately show ?thesis using that(2) by blast
  next
    case (Some p)
    obtain symbol timeframe where p: "p = (symbol, timeframe)" by fastforce
    from key_scan_Some [OF Some [unfolded p]] have "names_series m symbol timeframe" using Nil by (simp add: names_series_def)
    moreover have "r = Inr (symbol, timeframe)" using assms Nil Some p by (simp add: seriesFromMessage_def)
    ultimately show ?thesis using that(1) by blast
  qed
qed (use assms that(1) in \<open>simp add: seriesFromMessage_def names_series_def\<close>)

lemma dispatch_recorded_seed:
  fixes m :: serverMessage and sink :: "('s, 'e) Sink"
  assumes seed: "msg_Type m = ''seed''"
  obtains a s' mine where "dispatch_sink (recorded sink) (s, calls) m = (a, s', calls @ mine)" "dispatch_sink sink s m = (a, s')"
    "handled m mine (case a of Inl e \<Rightarrow> Some e | Inr _ \<Rightarrow> None)"
proof -
  obtain r :: "('e input_error, string \<times> string) result" where r: "r = seriesFromMessage m" by blast
  then show ?thesis
  proof (cases rule: seriesFromMessage_cases)
    case (1 symbol timeframe)
    obtain a s' where a: "sink_Seed sink s symbol timeframe (msg_Bars m) = (a, s')" by fastforce
    have "handled m [(SeedCall symbol timeframe (msg_Bars m), a)] (failure (SeedFailed (msg_Key m)) a)"
      using seed 1 by (intro handled.seed)
    then show ?thesis using seed 1 a r
      by (intro that [of "map_sum (SeedFailed (msg_Key m)) (\<lambda>u. u) a" s' "[(SeedCall symbol timeframe (msg_Bars m), a)]"]; cases a)
        (auto simp: dispatch_sink_def recorded_def failure_def)
  next
    case 2
    then show ?thesis using seed r that [of "Inl NoSeriesIdentity" s "[]"] handled.no_series [OF seed 2(2)]
      by (simp add: dispatch_sink_def)
  qed
qed

lemma dispatch_recorded:
  fixes m :: serverMessage and sink :: "('s, 'e) Sink"
  obtains a s' mine where "dispatch_sink (recorded sink) (s, calls) m = (a, s', calls @ mine)" "dispatch_sink sink s m = (a, s')"
    "handled m mine (case a of Inl e \<Rightarrow> Some e | Inr _ \<Rightarrow> None)"
proof -
  consider (seed) "msg_Type m = ''seed''" | (closed) "msg_Type m = ''closed''" | (forming) "msg_Type m = ''forming''"
    | (other) "msg_Type m \<notin> {''seed'', ''closed'', ''forming''}" by blast
  then show thesis
  proof cases
    case seed
    then show ?thesis by (rule dispatch_recorded_seed) (rule that)
  next
    case closed
    show ?thesis
    proof (cases "\<exists>bar. msg_Bar m = Some bar \<and> bar_Closed bar")
      case True
      then obtain bar where b: "msg_Bar m = Some bar" "bar_Closed bar" by blast
      obtain a s' where a: "sink_Closed sink s bar = (a, s')" by fastforce
      from handled.closed_bar [OF closed b, of a] closed b a show ?thesis
        by (intro that [of "map_sum (ClosedFailed) (\<lambda>u. u) a" s' "[(ClosedCall bar, a)]"]; cases a) (auto simp: dispatch_sink_def recorded_def failure_def)
    next
      case False
      then show ?thesis using closed handled.no_closed [OF closed False]
        by (intro that [of "Inl InvalidClosed" s "[]"]) (auto simp: dispatch_sink_def split: option.split)
    qed
  next
    case forming
    show ?thesis
    proof (cases "\<exists>bar. msg_Bar m = Some bar \<and> \<not> bar_Closed bar")
      case True
      then obtain bar where b: "msg_Bar m = Some bar" "\<not> bar_Closed bar" by blast
      obtain a s' where a: "sink_Forming sink s bar = (a, s')" by fastforce
      from handled.forming_bar [OF forming b, of a] forming b a show ?thesis
        by (intro that [of "map_sum (FormingFailed) (\<lambda>u. u) a" s' "[(FormingCall bar, a)]"]; cases a) (auto simp: dispatch_sink_def recorded_def failure_def)
    next
      case False
      then show ?thesis using forming handled.no_forming [OF forming False]
        by (intro that [of "Inl InvalidForming" s "[]"]) (auto simp: dispatch_sink_def split: option.split)
    qed
  next
    case other
    then show ?thesis using that [of _ s "[]"] handled.server_error [of m] handled.unsupported [of m]
      by (cases "msg_Type m = ''error''") (auto simp: dispatch_sink_def)
  qed
qed

lemma read_loop_recorded:
  "\<exists>e s' made ms. read_loop (recorded sink) now ((s, calls), mt) payloads = (e, (s', calls @ made), foldl (\<lambda>mt m. RecordInput now (msg_Type m) mt) mt ms) \<and>
     read_loop sink now (s, mt) payloads = (e, s', foldl (\<lambda>mt m. RecordInput now (msg_Type m) mt) mt ms) \<and> conversation payloads made ms e"
proof (induction payloads arbitrary: s calls mt)
  case (Cons p payloads)
  show ?case
  proof (cases p)
    case (Some m)
    obtain a s' mine where d: "dispatch_sink (recorded sink) (s, calls) m = (a, s', calls @ mine)" "dispatch_sink sink s m = (a, s')"
      "handled m mine (case a of Inl e \<Rightarrow> Some e | Inr _ \<Rightarrow> None)" by (rule dispatch_recorded)
    show ?thesis
    proof (cases a)
      case (Inl e)
      with d Some show ?thesis
        by (intro exI [of _ e] exI [of _ s'] exI [of _ mine] exI [of _ "[]"]) (simp add: dispatch_message_def)
    next
      case (Inr u)
      obtain e s2 made ms where r:
        "read_loop (recorded sink) now ((s', calls @ mine), RecordInput now (msg_Type m) mt) payloads =
           (e, (s2, (calls @ mine) @ made), foldl (\<lambda>mt m. RecordInput now (msg_Type m) mt) (RecordInput now (msg_Type m) mt) ms)"
        "read_loop sink now (s', RecordInput now (msg_Type m) mt) payloads =
           (e, s2, foldl (\<lambda>mt m. RecordInput now (msg_Type m) mt) (RecordInput now (msg_Type m) mt) ms)" "conversation payloads made ms e"
        using Cons.IH by blast
      with d Some Inr show ?thesis
        by (intro exI [of _ e] exI [of _ s2] exI [of _ "mine @ made"] exI [of _ "m # ms"]) (auto simp: dispatch_message_def)
    qed
  qed (auto intro!: exI [of _ "[]"])
qed (auto intro!: exI [of _ "[]"])

text \<open>
  C24. A connection passes on exactly what it reads. Whatever the sink is and answers, a connection that was dialled and subscribed
  makes the sink exactly the calls its messages stand for, in the order of the wire: a seed goes to the series its first bar or its
  key names with the bars it carries, a closed bar to the call for closed bars and a forming bar to the one for forming bars, a
  message of another shape makes no call; the messages accepted, and no other, are counted by their kind; and the first payload that cannot
  be decoded, the first message of no use, the first refusal of the sink or the end of the connection ends it with the error of that
  cause. A connection that was not dialled or not subscribed makes no call.
\<close>

theorem connection_passes_on:
  assumes "runConnection opts (recorded sink) now d ((s, []), mt) = (made, e, (s', calls), mt')"
  shows "runConnection opts sink now d (s, mt) = (made, e, s', mt') \<and> made = dl_ok d \<and>
    (if dl_ok d \<and> length (oo_Series opts) \<le> dl_writes d
     then \<exists>ms. conversation (dl_reads d) calls ms e \<and> mt' = foldl (\<lambda>mt m. RecordInput now (msg_Type m) mt) (SetConnected True mt) ms
     else calls = [] \<and> s' = s \<and> mt' = mt \<and>
       e = (if dl_ok d then SubscribeFailed (oo_Series opts ! dl_writes d) else DialFailed))"
  using read_loop_recorded [of sink now s "[]" "SetConnected True mt" "dl_reads d"] assms
  by (auto simp: runConnection_def not_less split: if_splits)

text \<open>A connection that delivers a closed bar to the registry and then ends.\<close>

definition sample_delivery :: dialled where
  "sample_delivery = \<lparr>dl_ok = True, dl_writes = 1,
     dl_reads = [Some \<lparr>msg_Type = ''closed'', msg_Key = [], msg_Bars = [], msg_Bar = Some (sample_bar 1 3), msg_Err = []\<rparr>]\<rparr>"

lemma handled_closed:
  assumes "handled m calls e" and "msg_Type m = ''closed''" and "msg_Bar m = Some bar" and "bar_Closed bar"
  shows "\<exists>a. calls = [(ClosedCall bar, a)] \<and> e = failure ClosedFailed a"
  using assms by (cases rule: handled.cases) auto

theorem connection_passes_on_witness:
  "\<exists>e s' a mt'. runConnection sample_ohlc (recorded (registry_sink memory_ops)) 0 sample_delivery
       (((sample_registry, sample_world), []), NewMetrics 0) = (True, e, (s', [(ClosedCall (sample_bar 1 3), a)]), mt') \<and>
     runConnection sample_ohlc (registry_sink memory_ops) 0 sample_delivery ((sample_registry, sample_world), NewMetrics 0) = (True, e, s', mt')"
proof -
  obtain c e s' calls mt' where r: "runConnection sample_ohlc (recorded (registry_sink memory_ops)) 0 sample_delivery
       (((sample_registry, sample_world), []), NewMetrics 0) = (c, e, (s', calls), mt')" by (metis prod.exhaust)
  from connection_passes_on [OF r] have c: "c = True"
      "runConnection sample_ohlc (registry_sink memory_ops) 0 sample_delivery ((sample_registry, sample_world), NewMetrics 0) = (c, e, s', mt')"
    and "\<exists>ms. conversation (dl_reads sample_delivery) calls ms e"
    by (auto simp: sample_delivery_def sample_ohlc_def)
  then obtain ms where "conversation (dl_reads sample_delivery) calls ms e" by blast
  moreover have "bar_Closed (sample_bar 1 3)" by (simp add: sample_bar_def)
  ultimately obtain a where "calls = [(ClosedCall (sample_bar 1 3), a)]"
    by (auto simp: sample_delivery_def dest: handled_closed)
  with r c show ?thesis by blast
qed

end
