(* ===== verification/Session.thy ===== *)
theory Session
  imports Server
begin

text \<open>
  A WebSocket session beside the rest of the service: the store commits, the outbox dispatcher hands stored events
  to the hub in the order of their cursors (possibly again), lanes publish provisional events, and the handler
  of \<^verbatim>\<open>internal/api/server.go\<close> greets, replays page by page, activates its client of the hub and writes what the
  client receives. Each operation under a mutex is one step. The result is that no event is lost between the replay and the
  live phase.
\<close>

subsection \<open>The log only grows\<close>

definition log_extends :: "Memory \<Rightarrow> Memory \<Rightarrow> bool" where
  "log_extends m m' \<longleftrightarrow> mem_next m \<le> mem_next m' \<and>
     (\<exists>added. mem_events m' = mem_events m @ added \<and> (\<forall>e \<in> set added. mem_next m < ev_Cursor e))"

lemma log_extends_same: "mem_next m' = mem_next m \<Longrightarrow> mem_events m' = mem_events m \<Longrightarrow> log_extends m m'"
  by (simp add: log_extends_def)

lemma log_extends_trans: "log_extends a b \<Longrightarrow> log_extends b c \<Longrightarrow> log_extends a c"
  by (force simp: log_extends_def)

lemma log_extends_append: "append_event e m reset m' \<Longrightarrow> log_extends m m'"
  by (simp add: append_event_def log_extends_def)

lemma log_extends_commits: "foldl commit_event (committed, m) evs = (committed', m') \<Longrightarrow> log_extends m m'"
proof (induction evs arbitrary: committed m)
  case (Cons e evs)
  obtain c1 m1 where 1: "commit_event (committed, m) e = (c1, m1)" by fastforce
  have "log_extends m m1" using commit_event_cases [OF 1] log_extends_append log_extends_same by auto
  with Cons.IH [of c1 m1] Cons.prems 1 log_extends_trans show ?case by auto
qed (simp add: log_extends_same)

lemma log_extends_rebuilds: "foldl rebuild_event (committed, m) evs = (committed', m') \<Longrightarrow> log_extends m m'"
proof (induction evs arbitrary: committed m)
  case (Cons e evs)
  obtain c1 m1 where 1: "rebuild_event (committed, m) e = (c1, m1)" by fastforce
  have "log_extends m m1" using rebuild_event_cases [OF 1] log_extends_append by (auto simp: log_extends_same)
  with Cons.IH [of c1 m1] Cons.prems 1 log_extends_trans show ?case by auto
qed (simp add: log_extends_same)

lemma mem_step_extends: "mem_step m m' \<Longrightarrow> log_extends m m'"
proof (induction rule: mem_step.induct)
  case (commit s key bar evs snaps r s')
  from commit show ?case
    by (cases rule: Memory_CommitClosed_cases) (auto dest!: log_extends_commits simp: log_extends_def)
next
  case (rebuild s key evs snaps lastBar r s')
  from rebuild show ?case
    by (cases rule: Memory_RebuildSeries_cases) (auto dest!: log_extends_rebuilds simp: log_extends_def split: option.splits)
next
  case (mark cs s r s')
  then show ?case by (auto simp: Memory_MarkPublished_alt log_extends_def)
qed

subsection \<open>Steps\<close>

text \<open>\<open>sv_handed\<close> is the highest cursor the dispatcher has handed to the hub.\<close>

record service =
  sv_store :: Memory
  sv_handed :: int
  sv_client :: hubClient
  sv_session :: session

inductive session_step :: "acceptor \<Rightarrow> service \<Rightarrow> service \<Rightarrow> bool" for accepts where
  store: "mem_step (sv_store s) m \<Longrightarrow> session_step accepts s (s\<lparr>sv_store := m\<rparr>)"
| outbox: "e \<in> set (mem_events (sv_store s)) \<Longrightarrow>
    \<forall>x \<in> set (mem_events (sv_store s)). ev_Cursor x < ev_Cursor e \<longrightarrow> ev_Cursor x \<le> sv_handed s \<Longrightarrow>
    enqueue (sv_client s) e = Some c \<Longrightarrow>
    session_step accepts s (s\<lparr>sv_handed := max (sv_handed s) (ev_Cursor e), sv_client := c\<rparr>)"
| provisional: "ev_Cursor e = 0 \<Longrightarrow> enqueue (sv_client s) e = Some c \<Longrightarrow> session_step accepts s (s\<lparr>sv_client := c\<rparr>)"
| greet: "se_phase (sv_session s) = Greeting \<Longrightarrow>
    session_step accepts s (s\<lparr>sv_session := ws_greet accepts snapshots points now (sv_session s)\<rparr>)"
| page: "se_phase (sv_session s) = Replaying lastCursor \<Longrightarrow>
    session_step accepts s (s\<lparr>sv_session :=
      ws_page accepts (\<lambda>f. Inr (Memory_QueryEvents (sv_store s) f)) now lastCursor (sv_session s)\<rparr>)"
| activation: "se_phase (sv_session s) = Replayed lastCursor \<Longrightarrow> activate (sv_client s) lastCursor = Some c \<Longrightarrow>
    session_step accepts s (s\<lparr>sv_client := c, sv_session := (sv_session s)\<lparr>se_phase := Live\<rparr>\<rparr>)"
| live: "se_phase (sv_session s) = Live \<Longrightarrow> writeClient accepts now (sv_session s) (sv_client s) = (se, c) \<Longrightarrow>
    session_step accepts s (s\<lparr>sv_session := se, sv_client := c\<rparr>)"
| leave: "close_client (sv_client s) = Some c \<Longrightarrow>
    session_step accepts s (s\<lparr>sv_client := c, sv_session := (sv_session s)\<lparr>se_phase := Ended\<rparr>\<rparr>)"

text \<open>A service whose client has just subscribed.\<close>

definition subscribed_service :: "Memory \<Rightarrow> int \<Rightarrow> session \<times> hubClient option \<Rightarrow> service option" where
  "subscribed_service m handed opened = (case opened of (se, None) \<Rightarrow> None
     | (se, Some c) \<Rightarrow> Some \<lparr>sv_store = m, sv_handed = handed, sv_client = c, sv_session = se\<rparr>)"

subsection \<open>What the client is owed\<close>

text \<open>
  A resuming client is owed everything beyond its cursor; one that starts anew what is handed to the hub
  after it subscribed.
\<close>

definition owed :: "int \<Rightarrow> session \<Rightarrow> SignalEvent \<Rightarrow> bool" where
  "owed handed se e \<longleftrightarrow> matches (se_filter se) e \<and> se_after se < ev_Cursor e \<and> (0 < se_after se \<or> handed < ev_Cursor e)"

definition written :: "session \<Rightarrow> SignalEvent \<Rightarrow> bool" where
  "written se e \<longleftrightarrow> (\<exists>now converted. toAnalysisEvent e now = Inr converted \<and>
     event_envelope (se_ID se) e converted \<in> set (se_conn se))"

text \<open>Before the activation: what was handed over since the subscription waits.\<close>

definition waiting_inv :: "int \<Rightarrow> service \<Rightarrow> bool" where
  "waiting_inv handed0 s \<longleftrightarrow> \<not> hc_active (sv_client s) \<and> hc_lastCursor (sv_client s) = 0 \<and>
     (\<forall>e \<in> set (hc_pending (sv_client s)). ev_Cursor e \<le> sv_handed s) \<and>
     (\<forall>e \<in> set (mem_events (sv_store s)). owed handed0 (sv_session s) e \<and> handed0 < ev_Cursor e \<and> ev_Cursor e \<le> sv_handed s \<longrightarrow>
        e \<in> set (hc_pending (sv_client s)))"

text \<open>What the replay has covered.\<close>

definition replay_inv :: "int \<Rightarrow> int \<Rightarrow> Memory \<Rightarrow> session \<Rightarrow> bool" where
  "replay_inv handed0 l m se \<longleftrightarrow> se_after se \<le> l \<and> l \<le> max (se_after se) (mem_next m) \<and>
     (0 < se_after se \<longrightarrow> (\<forall>e \<in> set (mem_events m). owed handed0 se e \<and> ev_Cursor e \<le> l \<longrightarrow> written se e))"

definition live_inv :: "int \<Rightarrow> service \<Rightarrow> bool" where
  "live_inv handed0 s \<longleftrightarrow> hc_active (sv_client s) \<and>
     hc_lastCursor (sv_client s) \<le> max (se_after (sv_session s)) (mem_next (sv_store s)) \<and>
     (\<forall>e \<in> set (mem_events (sv_store s)). owed handed0 (sv_session s) e \<and>
        (ev_Cursor e \<le> sv_handed s \<or> ev_Cursor e \<le> hc_lastCursor (sv_client s)) \<longrightarrow>
        written (sv_session s) e \<or> e \<in> set (ch_buf (hc_send (sv_client s))))"

definition phase_inv :: "int \<Rightarrow> service \<Rightarrow> bool" where
  "phase_inv handed0 s =
     (case se_phase (sv_session s) of
        Greeting \<Rightarrow> waiting_inv handed0 s
      | Replaying l \<Rightarrow> waiting_inv handed0 s \<and> replay_inv handed0 l (sv_store s) (sv_session s) \<and> 0 < se_after (sv_session s)
      | Replayed l \<Rightarrow> waiting_inv handed0 s \<and> replay_inv handed0 l (sv_store s) (sv_session s) \<and>
          (0 < se_after (sv_session s) \<longrightarrow> (\<forall>e \<in> set (mem_events (sv_store s)). ev_Cursor e \<le> handed0 \<longrightarrow> ev_Cursor e \<le> l)) \<and>
          (\<not> 0 < se_after (sv_session s) \<longrightarrow> l = se_after (sv_session s))
      | Live \<Rightarrow> live_inv handed0 s
      | Ended \<Rightarrow> True)"

definition session_inv :: "int \<Rightarrow> service \<Rightarrow> bool" where
  "session_inv handed0 s \<longleftrightarrow> wf_memory (sv_store s) \<and> handed0 \<le> sv_handed s \<and> sv_handed s \<le> mem_next (sv_store s) \<and>
     0 \<le> handed0 \<and> 0 \<le> se_after (sv_session s) \<and>
     (\<exists>out. client_inv (sv_client s, out)) \<and> hc_filter (sv_client s) = se_filter (sv_session s) \<and>
     (\<not> hc_closed (sv_client s) \<longrightarrow> phase_inv handed0 s)"

subsection \<open>The parts of a step\<close>

text \<open>A stage of the handler writes more to the connection of the same subscription.\<close>

definition continues :: "session \<Rightarrow> session \<Rightarrow> bool" where
  "continues se se' \<longleftrightarrow> se_ID se' = se_ID se \<and> se_filter se' = se_filter se \<and> se_after se' = se_after se \<and>
     (\<exists>extra. se_conn se' = se_conn se @ extra)"

lemma continuesI [intro]:
  "se_ID se' = se_ID se \<Longrightarrow> se_filter se' = se_filter se \<Longrightarrow> se_after se' = se_after se \<Longrightarrow> se_conn se' = se_conn se @ extra \<Longrightarrow>
   continues se se'"
  by (auto simp: continues_def)

lemma continues_trans: "continues a b \<Longrightarrow> continues b c \<Longrightarrow> continues a c"
  by (force simp: continues_def)

lemma continues_written: "continues se se' \<Longrightarrow> written se e \<Longrightarrow> written se' e"
  by (force simp: continues_def written_def)

lemma continues_owed: "continues se se' \<Longrightarrow> owed handed se' e = owed handed se e"
  by (simp add: continues_def owed_def)

lemma write_json_conn: "write_json accepts out env = (ok, out') \<Longrightarrow> \<exists>extra. out' = out @ extra \<and> (ok \<longrightarrow> extra = [env])"
  by (auto simp: write_json_def split: if_splits)

lemma refuse_continues: "continues se (refuse accepts se code t r)"
  by (auto simp: refuse_def continues_def write_json_def)

lemma continues_update: "continues se (se\<lparr>se_conn := se_conn se @ extra, se_phase := p\<rparr>)" "continues se (se\<lparr>se_conn := se_conn se @ extra\<rparr>)"
    "continues se (se\<lparr>se_phase := p\<rparr>)" "continues se se"
  by (auto simp: continues_def)

lemma send_snapshots_continues: "continues se (send_snapshots accepts se now ss)"
proof (induction ss arbitrary: se)
  case (Cons s ss)
  have "continues se (send_snapshots accepts (se\<lparr>se_conn := se_conn se @ extra\<rparr>) now ss)" for extra
    using continues_update(2) Cons.IH by (rule continues_trans)
  then show ?case
    by (auto simp: write_json_def refuse_continues continues_update split: sum.split)
qed (simp add: continues_update)

lemma ws_greet_continues: "continues se (ws_greet accepts snapshots points now se)"
proof -
  let ?se = "send_snapshots accepts se now (filteredSnapshots snapshots (se_filter se))"
  have 1: "continues se ?se" by (rule send_snapshots_continues)
  have "continues ?se (ws_greet accepts snapshots points now se)"
    by (auto simp: ws_greet_def Let_def write_json_def refuse_continues continues_update split: sum.split)
  with 1 show ?thesis by (rule continues_trans)
qed

lemma ws_greet_phase:
  assumes "se_phase (ws_greet accepts snapshots points now se) \<noteq> Ended"
  shows "se_phase (ws_greet accepts snapshots points now se) =
    (if 0 < se_after se then Replaying (se_after se) else Replayed (se_after se))"
  using assms send_snapshots_continues [of se accepts now "filteredSnapshots snapshots (se_filter se)"]
  by (auto simp: ws_greet_def Let_def write_json_def refuse_def continues_def split: sum.splits if_splits)

text \<open>A page of the replay writes every matching event of it and ends at its last cursor.\<close>

lemma replay_events_some:
  assumes "replay_events accepts se now out l evs = (Some l', out')"
  shows "(\<exists>extra. out' = out @ extra) \<and> l' = last (l # map ev_Cursor evs) \<and>
    (\<forall>e \<in> set evs. matches (se_filter se) e \<longrightarrow> (\<exists>converted. toAnalysisEvent e now = Inr converted \<and>
       event_envelope (se_ID se) e converted \<in> set out'))"
  using assms
proof (induction evs arbitrary: out l)
  case (Cons e evs)
  show ?case
  proof (cases "matches (se_filter se) e")
    case False
    with Cons.prems have "replay_events accepts se now out (ev_Cursor e) evs = (Some l', out')" by simp
    from Cons.IH [OF this] False show ?thesis by auto
  next
    case True
    with Cons.prems obtain converted where c: "toAnalysisEvent e now = Inr converted"
        and r: "replay_events accepts se now (out @ [event_envelope (se_ID se) e converted]) (ev_Cursor e) evs = (Some l', out')"
      by (auto simp: write_json_def split: sum.splits if_splits)
    from Cons.IH [OF r] c show ?thesis by auto
  qed
qed simp

lemma ws_page_cases:
  assumes "query (replay_filter l) = Inr evs" and "se_phase (ws_page accepts query now l se) \<noteq> Ended"
  obtains l' where "l' = last (l # map ev_Cursor evs)"
    "se_phase (ws_page accepts query now l se) = (if length evs < 5000 then Replayed l' else Replaying l')"
    "continues se (ws_page accepts query now l se)"
    "\<And>e. e \<in> set evs \<Longrightarrow> matches (se_filter se) e \<Longrightarrow> written (ws_page accepts query now l se) e"
proof -
  obtain r out' where r: "replay_events accepts se now (se_conn se) l evs = (r, out')" by fastforce
  with assms obtain l' where l': "r = Some l'" by (cases r) (auto simp: ws_page_def)
  note f = replay_events_some [OF r [unfolded l']]
  have p: "ws_page accepts query now l se =
      se\<lparr>se_phase := (if length evs < 5000 then Replayed l' else Replaying l'), se_conn := out'\<rparr>"
    using assms(1) r l' by (simp add: ws_page_def)
  have "continues se (ws_page accepts query now l se)" using f unfolding p by (auto simp: continues_def)
  moreover have "written (ws_page accepts query now l se) e" if "e \<in> set evs" "matches (se_filter se) e" for e
    using f that unfolding p written_def by fastforce
  ultimately show thesis using f by (intro that [of l']) (auto simp: p)
qed

text \<open>The page read from the log: everything up to its last cursor, and everything there is when it is not full.\<close>

lemma replay_query: "Memory_QueryEvents m (replay_filter l) = take 5000 (filter (\<lambda>e. l < ev_Cursor e) (mem_events m))"
  by (simp add: Memory_QueryEvents_def replay_filter_def event_matches_def [abs_def] normalize_limit_def not_le)

lemma take_sorted_covers:
  assumes "sorted_wrt (<) (map f xs)" and "x \<in> set xs" and "take n xs \<noteq> []" and "f x \<le> (f (last (take n xs)) :: int)"
  shows "x \<in> set (take n xs)"
proof (rule ccontr)
  assume "x \<notin> set (take n xs)"
  then have "x \<in> set (drop n xs)" using assms(2) append_take_drop_id [of n xs] set_append by (metis Un_iff)
  moreover have "sorted_wrt (<) (map f (take n xs) @ map f (drop n xs))"
    using assms(1) by (simp flip: map_append)
  ultimately have "f (last (take n xs)) < f x" using assms(3) by (auto simp: sorted_wrt_append)
  with assms(4) show False by simp
qed

lemma replay_page_covers:
  assumes "wf_memory m" and "e \<in> set (mem_events m)" and "l < ev_Cursor e"
    and "ev_Cursor e \<le> last (l # map ev_Cursor (Memory_QueryEvents m (replay_filter l))) \<or>
      length (Memory_QueryEvents m (replay_filter l)) < 5000"
  shows "e \<in> set (Memory_QueryEvents m (replay_filter l))"
proof -
  let ?xs = "filter (\<lambda>e. l < ev_Cursor e) (mem_events m)"
  have e: "e \<in> set ?xs" using assms(2,3) by simp
  have s: "sorted_wrt (<) (map ev_Cursor ?xs)"
    using assms(1) by (simp add: wf_memory_def sorted_wrt_map sorted_wrt_filter)
  show ?thesis
  proof (cases "length ?xs < 5000")
    case True
    with e show ?thesis by (simp add: replay_query)
  next
    case False
    then have ne: "take 5000 ?xs \<noteq> []" by auto
    have "length (take 5000 ?xs) = 5000" using False by simp
    with assms(4) ne have "ev_Cursor e \<le> ev_Cursor (last (take 5000 ?xs))"
      unfolding replay_query by (auto simp: last_map)
    from take_sorted_covers [OF s e ne this] show ?thesis by (simp add: replay_query)
  qed
qed

lemma replay_page_bounds:
  assumes "wf_memory m" and "l \<le> max a (mem_next m)"
  shows "l \<le> last (l # map ev_Cursor (Memory_QueryEvents m (replay_filter l)))"
    and "last (l # map ev_Cursor (Memory_QueryEvents m (replay_filter l))) \<le> max a (mem_next m)"
proof -
  let ?page = "Memory_QueryEvents m (replay_filter l)"
  have "l \<le> ev_Cursor e \<and> ev_Cursor e \<le> mem_next m" if "e \<in> set ?page" for e
    using that assms(1) by (auto simp: replay_query wf_memory_def dest!: in_set_takeD)
  then show "l \<le> last (l # map ev_Cursor ?page)" "last (l # map ev_Cursor ?page) \<le> max a (mem_next m)"
    using assms(2) last_in_set [of ?page] by (auto simp: last_map le_max_iff_disj)
qed

lemma sorted_page_last:
  assumes "wf_memory m" and "e \<in> set (Memory_QueryEvents m (replay_filter l))"
  shows "ev_Cursor e \<le> last (l # map ev_Cursor (Memory_QueryEvents m (replay_filter l)))"
proof -
  let ?page = "Memory_QueryEvents m (replay_filter l)"
  have "sorted_wrt (<) (map ev_Cursor ?page)"
    using assms(1) by (simp add: replay_query wf_memory_def sorted_wrt_map sorted_wrt_filter sorted_wrt_take)
  then have "sorted (map ev_Cursor ?page)" by (rule strict_sorted_imp_sorted)
  moreover have "ev_Cursor e \<in> set (map ev_Cursor ?page)" using assms(2) by simp
  ultimately show ?thesis by (cases "map ev_Cursor ?page" rule: rev_cases) (auto simp: sorted_append simp del: set_map)
qed

subsection \<open>Every step keeps the invariant\<close>

lemma log_extends_old: "log_extends m m' \<Longrightarrow> e \<in> set (mem_events m') \<Longrightarrow> e \<in> set (mem_events m) \<or> mem_next m < ev_Cursor e"
  by (auto simp: log_extends_def)

lemma store_step_inv:
  assumes "session_inv h s" and "mem_step (sv_store s) m"
  shows "session_inv h (s\<lparr>sv_store := m\<rparr>)"
proof -
  let ?m = "sv_store s" and ?se = "sv_session s" and ?s = "s\<lparr>sv_store := m\<rparr>"
  have x: "log_extends ?m m" by (rule mem_step_extends [OF assms(2)])
  then have grows: "mem_next ?m \<le> mem_next m" by (simp add: log_extends_def)
  have h: "h \<le> sv_handed s" "sv_handed s \<le> mem_next ?m" using assms(1) by (simp_all add: session_inv_def)
  have old: "e \<in> set (mem_events ?m)" if "e \<in> set (mem_events m)" "ev_Cursor e \<le> mem_next ?m" for e
    using log_extends_old [OF x that(1)] that(2) by auto
  have old': "e \<in> set (mem_events ?m)" if "e \<in> set (mem_events m)" "owed h ?se e" "ev_Cursor e \<le> max (se_after ?se) (mem_next ?m)" for e
    using old [OF that(1)] that(2,3) by (auto simp: owed_def)
  have w: "waiting_inv h s \<Longrightarrow> waiting_inv h ?s" using old h by (fastforce simp: waiting_inv_def)
  have r: "replay_inv h l ?m ?se \<Longrightarrow> replay_inv h l m ?se" for l
    using old' grows unfolding replay_inv_def by (metis (no_types, lifting) max.mono order.refl order.trans)
  have "live_inv h ?s" if "live_inv h s"
  proof -
    have "e \<in> set (mem_events ?m)" if e: "e \<in> set (mem_events m)" "owed h ?se e"
        "ev_Cursor e \<le> sv_handed s \<or> ev_Cursor e \<le> hc_lastCursor (sv_client s)" for e
      using e(3) old' [OF e(1,2)] h(2) \<open>live_inv h s\<close> by (fastforce simp: live_inv_def le_max_iff_disj)
    with that grows show ?thesis by (auto simp: live_inv_def le_max_iff_disj)
  qed
  then have "phase_inv h s \<Longrightarrow> phase_inv h ?s"
    using w r old h by (fastforce simp: phase_inv_def split: phase.splits)
  with assms grows show ?thesis using mem_step_wf by (auto simp: session_inv_def)
qed

lemma enqueue_open:
  assumes "enqueue c e = Some c'" and "\<not> hc_closed c'"
  shows "hc_filter c' = hc_filter c \<and> \<not> hc_closed c \<and>
    (if \<not> matches (hc_filter c) e \<or> 0 < ev_Cursor e \<and> ev_Cursor e \<le> hc_lastCursor c then c' = c
     else if hc_active c then c' = sent ((hc_send c)\<lparr>ch_buf := ch_buf (hc_send c) @ [e]\<rparr>) e c
     else c' = c\<lparr>hc_pending := hc_pending c @ [e]\<rparr>)"
  using assms unfolding enqueue_def shut_def chan_close_def chan_try_send_def
  by (auto simp: sent_def split: if_splits)

lemma enqueue_filter: "enqueue c e = Some c' \<Longrightarrow> hc_filter c' = hc_filter c"
  by (auto simp: enqueue_def shut_def chan_close_def chan_try_send_def sent_def split: if_splits)

text \<open>An event handed to the client, after which the dispatcher has handed over everything up to \<open>n\<close>.\<close>

lemma enqueue_waiting:
  assumes "waiting_inv h s" and "enqueue (sv_client s) e = Some c" and "\<not> hc_closed c"
    and "hc_filter (sv_client s) = se_filter (sv_session s)" and "sv_handed s \<le> n" and "ev_Cursor e \<le> n"
    and "\<And>x. x \<in> set (mem_events (sv_store s)) \<Longrightarrow> ev_Cursor x \<le> n \<Longrightarrow> ev_Cursor x \<le> sv_handed s \<or> x = e"
  shows "waiting_inv h (s\<lparr>sv_handed := n, sv_client := c\<rparr>)"
proof -
  let ?c = "sv_client s"
  have a: "\<not> hc_active ?c" "hc_lastCursor ?c = 0" using assms(1) by (simp_all add: waiting_inv_def)
  have c: "c = (if matches (hc_filter ?c) e then ?c\<lparr>hc_pending := hc_pending ?c @ [e]\<rparr> else ?c)"
    using enqueue_open [OF assms(2,3)] a by (auto split: if_splits)
  have "x \<in> set (hc_pending c)" if x: "x \<in> set (mem_events (sv_store s))" "owed h (sv_session s) x" "h < ev_Cursor x" "ev_Cursor x \<le> n" for x
  proof (cases "x = e")
    case True
    with x(2) show ?thesis by (simp add: c owed_def assms(4))
  next
    case False
    with x assms(1) assms(7) [OF x(1,4)] show ?thesis by (auto simp: waiting_inv_def c)
  qed
  moreover have "\<forall>x \<in> set (hc_pending c). ev_Cursor x \<le> n" using assms(1,5,6) by (auto simp: waiting_inv_def c split: if_splits)
  ultimately show ?thesis using a by (simp add: waiting_inv_def c)
qed

lemma enqueue_live:
  assumes "live_inv h s" and "enqueue (sv_client s) e = Some c" and "\<not> hc_closed c"
    and "hc_filter (sv_client s) = se_filter (sv_session s)" and "n \<le> mem_next (sv_store s)" and "ev_Cursor e \<le> n"
    and "\<And>x. x \<in> set (mem_events (sv_store s)) \<Longrightarrow> ev_Cursor x \<le> n \<Longrightarrow> ev_Cursor x \<le> sv_handed s \<or> x = e"
  shows "live_inv h (s\<lparr>sv_handed := n, sv_client := c\<rparr>)"
proof -
  let ?c = "sv_client s" and ?se = "sv_session s"
  have a: "hc_active ?c" using assms(1) by (simp add: live_inv_def)
  have known: "written ?se x \<or> x \<in> set (ch_buf (hc_send ?c))"
    if "x \<in> set (mem_events (sv_store s))" "owed h ?se x" "ev_Cursor x \<le> sv_handed s \<or> ev_Cursor x \<le> hc_lastCursor ?c" for x
    using that assms(1) by (simp add: live_inv_def)
  show ?thesis
  proof (cases "\<not> matches (hc_filter ?c) e \<or> 0 < ev_Cursor e \<and> ev_Cursor e \<le> hc_lastCursor ?c")
    case True
    then have c: "c = ?c" using enqueue_open [OF assms(2,3)] by simp
    have "ev_Cursor x \<le> sv_handed s \<or> ev_Cursor x \<le> hc_lastCursor ?c"
      if "x \<in> set (mem_events (sv_store s))" "owed h ?se x" "ev_Cursor x \<le> n" for x
      using assms(7) [OF that(1,3)] True that(2) assms(4) by (auto simp: owed_def)
    with known assms(1) show ?thesis by (auto simp: live_inv_def c)
  next
    case False
    then have c: "c = sent ((hc_send ?c)\<lparr>ch_buf := ch_buf (hc_send ?c) @ [e]\<rparr>) e ?c"
      using enqueue_open [OF assms(2,3)] a by simp
    have "written ?se x \<or> x \<in> set (ch_buf (hc_send ?c)) \<or> x = e"
      if "x \<in> set (mem_events (sv_store s))" "owed h ?se x" "ev_Cursor x \<le> n \<or> ev_Cursor x \<le> ev_Cursor e \<or> ev_Cursor x \<le> hc_lastCursor ?c" for x
      using assms(7) [OF that(1)] known [OF that(1,2)] that(3) assms(6) by fastforce
    with assms(1,5,6) show ?thesis by (auto simp: live_inv_def c sent_def le_max_iff_disj)
  qed
qed

lemma enqueue_step_inv:
  assumes "session_inv h s" and "enqueue (sv_client s) e = Some c" and "sv_handed s \<le> n" and "n \<le> mem_next (sv_store s)"
    and "ev_Cursor e \<le> n" and "\<And>x. x \<in> set (mem_events (sv_store s)) \<Longrightarrow> ev_Cursor x \<le> n \<Longrightarrow> ev_Cursor x \<le> sv_handed s \<or> x = e"
  shows "session_inv h (s\<lparr>sv_handed := n, sv_client := c\<rparr>)"
proof -
  have f: "hc_filter (sv_client s) = se_filter (sv_session s)" using assms(1) by (simp add: session_inv_def)
  have "phase_inv h (s\<lparr>sv_handed := n, sv_client := c\<rparr>)" if o: "\<not> hc_closed c"
  proof -
    have p: "phase_inv h s" using assms(1) enqueue_open [OF assms(2) o] by (simp add: session_inv_def)
    note w = enqueue_waiting [OF _ assms(2) o f assms(3,5,6)] and l = enqueue_live [OF _ assms(2) o f assms(4,5,6)]
    show ?thesis using p w l by (cases "se_phase (sv_session s)") (simp_all add: phase_inv_def)
  qed
  with assms(1,3,4) enqueue_inv [OF assms(2)] enqueue_filter [OF assms(2)] show ?thesis by (auto simp: session_inv_def)
qed

lemma outbox_step_inv:
  assumes "session_inv h s" and "e \<in> set (mem_events (sv_store s))"
    and "\<forall>x \<in> set (mem_events (sv_store s)). ev_Cursor x < ev_Cursor e \<longrightarrow> ev_Cursor x \<le> sv_handed s"
    and "enqueue (sv_client s) e = Some c"
  shows "session_inv h (s\<lparr>sv_handed := max (sv_handed s) (ev_Cursor e), sv_client := c\<rparr>)"
proof (rule enqueue_step_inv [OF assms(1,4)])
  have wf: "wf_memory (sv_store s)" using assms(1) by (simp add: session_inv_def)
  show "max (sv_handed s) (ev_Cursor e) \<le> mem_next (sv_store s)"
    using assms(1,2) wf by (simp add: session_inv_def wf_memory_def)
  have "distinct (map ev_Cursor (mem_events (sv_store s)))"
    using wf strict_sorted_iff by (auto simp: wf_memory_def)
  then have "inj_on ev_Cursor (set (mem_events (sv_store s)))" by (simp add: distinct_map)
  then show "ev_Cursor x \<le> sv_handed s \<or> x = e" if "x \<in> set (mem_events (sv_store s))" "ev_Cursor x \<le> max (sv_handed s) (ev_Cursor e)" for x
    using that assms(2,3) by (metis inj_onD le_max_iff_disj order.order_iff_strict)
qed simp_all

lemma provisional_step_inv:
  assumes "session_inv h s" and "ev_Cursor e = 0" and "enqueue (sv_client s) e = Some c"
  shows "session_inv h (s\<lparr>sv_client := c\<rparr>)"
  using enqueue_step_inv [OF assms(1,3), of "sv_handed s"] assms(1,2) by (simp add: session_inv_def)

text \<open>The stages of the handler.\<close>

lemma continues_waiting:
  "continues (sv_session s) se \<Longrightarrow> waiting_inv h (s\<lparr>sv_session := se\<rparr>) = waiting_inv h s"
  by (simp add: waiting_inv_def continues_owed)

lemma continues_session_inv:
  assumes "session_inv h s" and "continues (sv_session s) se" and "\<not> hc_closed (sv_client s) \<Longrightarrow> phase_inv h (s\<lparr>sv_session := se\<rparr>)"
  shows "session_inv h (s\<lparr>sv_session := se\<rparr>)"
  using assms by (simp add: session_inv_def continues_def)

lemma greet_step_inv:
  assumes "session_inv h s" and "se_phase (sv_session s) = Greeting"
  shows "session_inv h (s\<lparr>sv_session := ws_greet accepts snapshots points now (sv_session s)\<rparr>)"
proof (rule continues_session_inv [OF assms(1) ws_greet_continues])
  let ?se = "ws_greet accepts snapshots points now (sv_session s)"
  assume "\<not> hc_closed (sv_client s)"
  then have w: "waiting_inv h (s\<lparr>sv_session := ?se\<rparr>)"
    using assms continues_waiting [OF ws_greet_continues] by (simp add: session_inv_def phase_inv_def)
  have a: "se_after ?se = se_after (sv_session s)" using ws_greet_continues by (simp add: continues_def)
  have "0 \<le> se_after (sv_session s)" using assms(1) by (simp add: session_inv_def)
  then have r: "replay_inv h (se_after (sv_session s)) (sv_store s) ?se" by (auto simp: replay_inv_def a owed_def)
  show "phase_inv h (s\<lparr>sv_session := ?se\<rparr>)"
  proof (cases "se_phase ?se = Ended")
    case False
    from ws_greet_phase [OF this] w r show ?thesis by (simp add: phase_inv_def a split: if_splits)
  qed (simp add: phase_inv_def)
qed

lemma page_step_inv:
  assumes "session_inv h s" and "se_phase (sv_session s) = Replaying l"
  shows "session_inv h (s\<lparr>sv_session :=
    ws_page accepts (\<lambda>f. Inr (Memory_QueryEvents (sv_store s) f)) now l (sv_session s)\<rparr>)" (is "session_inv h (s\<lparr>sv_session := ?se\<rparr>)")
proof (cases "se_phase ?se = Ended")
  case True
  have "hc_filter (sv_client s) = se_filter ?se" "0 \<le> se_after ?se"
    using assms(1) by (simp_all add: session_inv_def ws_page_def split: prod.split option.split)
  with True assms(1) show ?thesis by (simp add: session_inv_def phase_inv_def)
next
  case False
  let ?m = "sv_store s" and ?page = "Memory_QueryEvents (sv_store s) (replay_filter l)"
  obtain l' where l': "l' = last (l # map ev_Cursor ?page)"
      and p: "se_phase ?se = (if length ?page < 5000 then Replayed l' else Replaying l')"
      and c: "continues (sv_session s) ?se"
      and w: "\<And>e. e \<in> set ?page \<Longrightarrow> matches (se_filter (sv_session s)) e \<Longrightarrow> written ?se e"
    by (rule ws_page_cases [OF refl False]) blast
  show ?thesis
  proof (rule continues_session_inv [OF assms(1) c])
    assume "\<not> hc_closed (sv_client s)"
    then have i: "waiting_inv h s" "replay_inv h l ?m (sv_session s)" "0 < se_after (sv_session s)"
      using assms by (simp_all add: session_inv_def phase_inv_def)
    have wf: "wf_memory ?m" using assms(1) by (simp add: session_inv_def)
    have a: "se_after ?se = se_after (sv_session s)" using c by (simp add: continues_def)
    have "l \<le> max (se_after (sv_session s)) (mem_next ?m)" using i(2) by (simp add: replay_inv_def)
    note b = replay_page_bounds [OF wf this, folded l']
    have "written ?se e" if e: "e \<in> set (mem_events ?m)" "owed h ?se e" "ev_Cursor e \<le> l'" for e
    proof (cases "ev_Cursor e \<le> l")
      case True
      then show ?thesis using e i(2,3) continues_written [OF c] by (simp add: replay_inv_def continues_owed [OF c])
    next
      case False
      then have "e \<in> set ?page" using replay_page_covers [OF wf e(1)] e(3) unfolding l' by simp
      moreover have "matches (se_filter (sv_session s)) e" using e(2) continues_owed [OF c] by (simp add: owed_def)
      ultimately show ?thesis by (rule w)
    qed
    then have r: "replay_inv h l' ?m ?se" using b i(2) by (auto simp: replay_inv_def a)
    have "ev_Cursor e \<le> l'" if "length ?page < 5000" "e \<in> set (mem_events ?m)" for e
    proof (rule ccontr)
      assume n: "\<not> ev_Cursor e \<le> l'"
      then have "e \<in> set ?page" using replay_page_covers [OF wf that(2), of l] that(1) b(1) by simp
      then show False using n sorted_page_last [OF wf] unfolding l' by blast
    qed
    with p r i a continues_waiting [OF c] show "phase_inv h (s\<lparr>sv_session := ?se\<rparr>)" by (auto simp: phase_inv_def)
  qed
qed

lemma phase_update: "owed h (se\<lparr>se_phase := p\<rparr>) e = owed h se e" "written (se\<lparr>se_phase := p\<rparr>) e = written se e"
  by (simp_all add: owed_def written_def)

lemma activation_step_inv:
  assumes "session_inv h s" and "se_phase (sv_session s) = Replayed l" and "activate (sv_client s) l = Some c"
  shows "session_inv h (s\<lparr>sv_client := c, sv_session := (sv_session s)\<lparr>se_phase := Live\<rparr>\<rparr>)"
proof -
  let ?c = "sv_client s" and ?se = "sv_session s" and ?m = "sv_store s"
  obtain out where i: "client_inv (?c, out)" using assms(1) by (auto simp: session_inv_def)
  have f: "hc_filter c = hc_filter ?c \<and> (\<not> hc_closed c \<longrightarrow> \<not> hc_closed ?c)"
    using assms(3) activate_inactive [OF i, of l] by (cases "hc_closed ?c") (auto simp: activate_def)
  have "live_inv h (s\<lparr>sv_client := c, sv_session := ?se\<lparr>se_phase := Live\<rparr>\<rparr>)" if "\<not> hc_closed c"
  proof -
    have o: "\<not> hc_closed ?c" using f that by simp
    let ?kept = "replay_kept l (slice_sort pending_before (hc_pending ?c))"
    have c: "c = ?c\<lparr>hc_send := (hc_send ?c)\<lparr>ch_buf := ch_buf (hc_send ?c) @ ?kept\<rparr>, hc_pending := [],
        hc_lastCursor := max l (last_cursor (hc_lastCursor ?c) ?kept), hc_active := True\<rparr>"
      using assms(3) activate_inactive [OF i o, of l] by simp
    have w: "waiting_inv h s" and r: "replay_inv h l ?m ?se"
        and old: "0 < se_after ?se \<Longrightarrow> \<forall>e \<in> set (mem_events ?m). ev_Cursor e \<le> h \<longrightarrow> ev_Cursor e \<le> l"
        and new: "\<not> 0 < se_after ?se \<Longrightarrow> l = se_after ?se"
      using assms(1,2) o by (simp_all add: session_inv_def phase_inv_def)
    have pos: "0 \<le> h" "h \<le> sv_handed s" "sv_handed s \<le> mem_next ?m" "0 \<le> se_after ?se" using assms(1) by (simp_all add: session_inv_def)
    have kept: "x \<in> set ?kept \<longleftrightarrow> x \<in> set (hc_pending ?c) \<and> \<not> (0 < ev_Cursor x \<and> ev_Cursor x \<le> l)" for x
      by (simp add: replay_kept_def)
    have last: "last_cursor (hc_lastCursor ?c) ?kept \<le> sv_handed s"
      using w pos kept last_in_set [of "durable_cursors ?kept"]
      by (fastforce simp: last_cursor_durable waiting_inv_def durable_cursors_def)
    have "written ?se e \<or> e \<in> set ?kept" if e: "e \<in> set (mem_events ?m)" "owed h ?se e" "ev_Cursor e \<le> sv_handed s \<or> ev_Cursor e \<le> max l (last_cursor (hc_lastCursor ?c) ?kept)" for e
    proof (cases "0 < se_after ?se \<and> ev_Cursor e \<le> l")
      case True
      with r e show ?thesis by (simp add: replay_inv_def)
    next
      case False
      then have l: "l < ev_Cursor e" using e(2) new by (auto simp: owed_def)
      then have "h < ev_Cursor e" using old e(1,2) by (force simp: owed_def)
      moreover have "ev_Cursor e \<le> sv_handed s" using e(3) l last by linarith
      ultimately have "e \<in> set (hc_pending ?c)" using w e(1,2) by (simp add: waiting_inv_def)
      with l kept show ?thesis by simp
    qed
    moreover have "l \<le> max (se_after ?se) (mem_next ?m)" using r by (simp add: replay_inv_def)
    moreover have "max l (last_cursor (hc_lastCursor ?c) ?kept) \<le> max (se_after ?se) (mem_next ?m)"
      using calculation(2) last pos(3) by linarith
    ultimately show ?thesis by (simp add: live_inv_def c phase_update) blast
  qed
  with assms(1) activate_inv [OF assms(3)] f show ?thesis by (auto simp: session_inv_def phase_inv_def)
qed

lemma live_step_inv:
  assumes "session_inv h s" and "se_phase (sv_session s) = Live" and "writeClient accepts now (sv_session s) (sv_client s) = (se, c)"
  shows "session_inv h (s\<lparr>sv_session := se, sv_client := c\<rparr>)"
proof -
  let ?c = "sv_client s" and ?se = "sv_session s"
  have frame: "se_filter se = se_filter ?se" "se_after se = se_after ?se" "hc_filter c = hc_filter ?c" "hc_closed c = hc_closed ?c"
      "hc_active c = hc_active ?c" "hc_lastCursor c = hc_lastCursor ?c" "continues ?se se"
    using assms(3)
    by (auto simp: writeClient_def write_json_def Let_def continues_update continues_def split: list.splits sum.splits if_splits)
  obtain out where i: "client_inv (?c, out)" using assms(1) by (auto simp: session_inv_def)
  have "client_inv (c, case ch_buf (hc_send ?c) of [] \<Rightarrow> out | e # _ \<Rightarrow> out @ [e])"
  proof (cases "ch_buf (hc_send ?c)")
    case Nil
    with assms(3) i show ?thesis by (auto simp: writeClient_def)
  next
    case (Cons e rest)
    with assms(3) have "c = ?c\<lparr>hc_send := (hc_send ?c)\<lparr>ch_buf := rest\<rparr>\<rparr>"
      by (auto simp: writeClient_def Let_def split: sum.splits prod.splits)
    with client_step_inv [OF client_step.receive [OF Cons] i] Cons show ?thesis by simp
  qed
  moreover have "phase_inv h (s\<lparr>sv_session := se, sv_client := c\<rparr>)" if o: "\<not> hc_closed c"
  proof (cases "se_phase se = Ended")
    case False
    have l: "live_inv h s" using assms(1,2) o frame by (simp add: session_inv_def phase_inv_def)
    have p: "se_phase se = Live"
      using assms(2,3) False by (auto simp: writeClient_def write_json_def Let_def split: list.splits sum.splits if_splits)
    have "written se x \<or> x \<in> set (ch_buf (hc_send c))" if "x \<in> set (ch_buf (hc_send ?c))" for x
      using assms(3) False that
      by (fastforce simp: writeClient_def write_json_def Let_def written_def split: list.splits sum.splits if_splits)
    with l show ?thesis
      using continues_written [OF frame(7)] continues_owed [OF frame(7), of h] frame
      by (fastforce simp: phase_inv_def p live_inv_def)
  qed (simp add: phase_inv_def)
  ultimately show ?thesis using assms(1) frame by (auto simp: session_inv_def)
qed

lemma leave_step_inv:
  assumes "session_inv h s" and "close_client (sv_client s) = Some c"
  shows "session_inv h (s\<lparr>sv_client := c, sv_session := (sv_session s)\<lparr>se_phase := Ended\<rparr>\<rparr>)"
proof -
  have "client_inv (c, out)" if "client_inv (sv_client s, out)" for out
    using client_step_inv [OF client_step.disconnect [OF assms(2)] that] .
  moreover have "hc_filter c = hc_filter (sv_client s)" using assms(2) by (auto simp: close_client_def shut_def chan_close_def split: if_splits)
  ultimately show ?thesis using assms(1) by (auto simp: session_inv_def phase_inv_def)
qed

lemma session_step_inv: "session_step accepts s s' \<Longrightarrow> session_inv h s \<Longrightarrow> session_inv h s'"
  by (induction rule: session_step.induct)
    (blast intro: store_step_inv outbox_step_inv provisional_step_inv greet_step_inv page_step_inv activation_step_inv
       live_step_inv leave_step_inv)+

text \<open>The service as it is when a client has subscribed.\<close>

definition session_start :: "acceptor \<Rightarrow> int \<Rightarrow> service \<Rightarrow> bool" where
  "session_start accepts handed s \<longleftrightarrow> mem_step\<^sup>*\<^sup>* NewMemory (sv_store s) \<and> 0 \<le> handed \<and> handed \<le> mem_next (sv_store s) \<and>
     (\<exists>request sid now. subscribed_service (sv_store s) handed (ws_open accepts request sid now) = Some s)"

lemma session_start_inv:
  assumes "session_start accepts h s"
  shows "session_inv h s"
proof -
  obtain decoded request sid now where o: "subscribed_service (sv_store s) h (ws_open accepts (decoded, request) sid now) = Some s"
    and m: "mem_step\<^sup>*\<^sup>* NewMemory (sv_store s)" and h: "0 \<le> h" "h \<le> mem_next (sv_store s)"
    using assms by (auto simp: session_start_def)
  obtain se c where w: "ws_open accepts (decoded, request) sid now = (se, Some c)"
      and r: "s = \<lparr>sv_store = sv_store s, sv_handed = h, sv_client = c, sv_session = se\<rparr>"
    using o by (auto simp: subscribed_service_def split: prod.splits option.splits intro: sym)
  have s: "sv_client s = c" "sv_session s = se" and hd: "sv_handed s = h" by (subst r, simp)+
  obtain filt afterCursor limit where sub: "makeSubscription (wr_Data request) = Inr (filt, afterCursor, limit)"
      and c': "c = new_client filt 2048" and f': "se_filter se = filt" "se_after se = afterCursor" "se_phase se = Greeting \<or> se_phase se = Ended"
    using w by (auto simp: ws_open_def Let_def write_json_def split: if_splits sum.splits option.splits prod.splits)
  have c: "sv_client s = new_client filt 2048" and f: "se_filter (sv_session s) = filt" "se_after (sv_session s) = afterCursor"
      and p: "se_phase (sv_session s) = Greeting \<or> se_phase (sv_session s) = Ended"
    using c' f' unfolding s by simp_all
  have "waiting_inv h s" by (simp add: waiting_inv_def c new_client_def hd)
  moreover have "hc_filter (new_client filt 2048) = filt" by (simp add: new_client_def)
  ultimately show ?thesis
    using memory.reachable_inv [OF refl m] h hd p f c new_client_inv [of filt 2048] makeSubscription_ok(1) [OF sub]
    by (auto simp: session_inv_def phase_inv_def)
qed

interpretation session: transition_system "session_start accepts handed" "session_step accepts" "session_inv handed" for accepts handed
  by unfold_locales (use session_start_inv session_step_inv in blast)+

subsection \<open>Properties\<close>

text \<open>
  C4. No gap between replay and live: while a session is live and its client was not cut off, every stored event that
  matches the subscription and lies beyond the resume cursor (or, without one, was handed to the hub after the
  subscription) has been written to the connection with its cursor, waits in the client's channel, or has not been handed
  over by the outbox dispatcher yet; whatever is committed, published and written in between.
\<close>

theorem session_gap_free:
  assumes "session_start accepts handed s0" and "(session_step accepts)\<^sup>*\<^sup>* s0 s"
    and "se_phase (sv_session s) = Live" and "\<not> hc_closed (sv_client s)"
    and "e \<in> set (mem_events (sv_store s))" and "matches (se_filter (sv_session s)) e"
    and "se_after (sv_session s) < ev_Cursor e" and "0 < se_after (sv_session s) \<or> handed < ev_Cursor e"
  shows "(\<exists>now converted. toAnalysisEvent e now = Inr converted \<and>
      event_envelope (se_ID (sv_session s)) e converted \<in> set (se_conn (sv_session s))) \<or>
    e \<in> set (ch_buf (hc_send (sv_client s))) \<or> sv_handed s < ev_Cursor e"
proof -
  have "session_inv handed s" by (rule session.reachable_inv [OF assms(1,2)])
  with assms(3,4) have "live_inv handed s" by (simp add: session_inv_def phase_inv_def)
  moreover have "owed handed (sv_session s) e" using assms(6-8) by (simp add: owed_def)
  ultimately show ?thesis using assms(5) by (auto simp: live_inv_def written_def not_less)
qed

text \<open>A client that subscribes to one series before its first event is committed and handed over.\<close>

definition sample_request :: wsRequest where
  "sample_request = \<lparr>wr_Protocol = protocolVersion, wr_Type = ''subscribe'', wr_RequestID = ''r'',
     wr_Data = \<lparr>wd_Series = [\<lparr>sel_Dataset = [], sel_Symbol = ''BTC'', sel_Timeframe = ''1m''\<rparr>], wd_Analyses = [],
       wd_EventTypes = [], wd_Statuses = [], wd_ResumeAfter = [], wd_HistoryLimit = 0\<rparr>\<rparr>"

definition sample_filter :: Subscription where
  "sample_filter = \<lparr>sub_Series = [\<lparr>sel_Dataset = [], sel_Symbol = ''BTC'', sel_Timeframe = ''1m''\<rparr>], sub_Analyses = [],
     sub_EventTypes = [analysisEventType], sub_Confirmed = True, sub_Provisional = False\<rparr>"

definition sample_opened :: service where
  "sample_opened = \<lparr>sv_store = NewMemory, sv_handed = 0, sv_client = new_client sample_filter 2048,
     sv_session = \<lparr>se_RequestID = ''r'', se_ID = ''s'', se_filter = sample_filter, se_after = 0, se_limit = defaultHistoryLimit,
       se_phase = Greeting, se_conn = [(envelope ''subscribed'' (Subscribed 0))\<lparr>env_RequestID := ''r'', env_SubscriptionID := ''s''\<rparr>]\<rparr>\<rparr>"

definition sample_stored :: SignalEvent where
  "sample_stored = (sample_event 1)\<lparr>ev_Symbol := ''BTC'', ev_Timeframe := ''1m''\<rparr>"

definition sample_log :: Memory where
  "sample_log = snd (Memory_CommitClosed NewMemory sample_key (sample_bar 1 3) [sample_stored\<lparr>ev_Cursor := 0\<rparr>] [])"

lemma sample_log_events: "mem_events sample_log = [sample_stored]"
  by (simp add: sample_log_def Memory_CommitClosed_def cursor_of_def NewMemory_def commit_event_def eventByID_def
      sample_stored_def sample_event_def Let_def)

lemma sample_subscription_made: "makeSubscription (wr_Data sample_request) = Inr (sample_filter, 0, defaultHistoryLimit)"
proof -
  have "trim_space ''BTC'' \<noteq> []" "trim_space ''1m'' \<noteq> []" "trim_space analysisEventType \<noteq> []" "stringSet [] = []" "analysisEventType \<noteq> ''*''"
    by code_simp+
  then show ?thesis
    by (simp add: makeSubscription_def sample_request_def sample_filter_def sample_timeframe subscription_types_def
        subscription_statuses_def history_limit_def resume_cursor_def defaultHistoryLimit_def maxHistoryLimit_def Let_def)
qed

lemma sample_start: "session_start (\<lambda>_ _. True) 0 sample_opened"
proof -
  have "trim_space ''r'' \<noteq> []" by code_simp
  then have "subscribed_service NewMemory 0 (ws_open (\<lambda>_ _. True) (True, sample_request) (Some ''s'') 0) = Some sample_opened"
    using sample_subscription_made
    by (simp add: ws_open_def write_json_def subscribed_service_def sample_opened_def) (simp add: sample_request_def write_json_def)
  then show ?thesis by (auto simp: session_start_def sample_opened_def NewMemory_def)
qed

lemma sample_matches: "matches sample_filter sample_stored"
  by (simp add: matches_def sample_filter_def sample_stored_def sample_event_def matchesSeries_def)

theorem session_gap_free_witness:
  "\<exists>s. (session_step (\<lambda>_ _. True))\<^sup>*\<^sup>* sample_opened s \<and> se_phase (sv_session s) = Live \<and> sv_handed s = 1 \<and>
     sample_stored \<in> set (mem_events (sv_store s)) \<and>
     ((\<exists>now converted. toAnalysisEvent sample_stored now = Inr converted \<and>
        event_envelope ''s'' sample_stored converted \<in> set (se_conn (sv_session s))) \<or>
      sample_stored \<in> set (ch_buf (hc_send (sv_client s))))"
proof -
  let ?step = "session_step (\<lambda>_ _. True)" and ?c = "new_client sample_filter 2048"
  let ?c1 = "?c\<lparr>hc_pending := [sample_stored]\<rparr>"
  let ?s1 = "sample_opened\<lparr>sv_store := sample_log\<rparr>"
  let ?s2 = "?s1\<lparr>sv_handed := 1, sv_client := ?c1\<rparr>"
  have cur: "ev_Cursor sample_stored = 1" by (simp add: sample_stored_def sample_event_def)
  have 1: "?step sample_opened ?s1"
    by (rule session_step.store, simp add: sample_opened_def sample_log_def, rule mem_step.commit [OF surjective_pairing])
  have "enqueue ?c sample_stored = Some ?c1"
    using sample_matches by (simp add: enqueue_def new_client_def cur)
  then have 2: "?step ?s1 ?s2"
    using session_step.outbox [of sample_stored ?s1 ?c1 "\<lambda>_ _. True"] by (simp add: sample_log_events cur sample_opened_def)
  let ?se = "ws_greet (\<lambda>_ _. True) [] (\<lambda>_. Inr []) 0 (sv_session sample_opened)"
  let ?s3 = "?s2\<lparr>sv_session := ?se\<rparr>"
  have 3: "?step ?s2 ?s3"
    using session_step.greet [of ?s2 "\<lambda>_ _. True" "[]" "\<lambda>_. Inr []" 0] by (simp add: sample_opened_def)
  have p: "se_phase ?se = Replayed 0" "se_after ?se = 0" "se_filter ?se = sample_filter" "se_ID ?se = ''s''"
    by (simp_all add: ws_greet_def filteredSnapshots_def recentPoints_def write_json_def sample_opened_def)
  have i: "session_inv 0 ?s3" by (rule session.reachable_inv [OF sample_start]) (use 1 2 3 in \<open>simp add: rtranclp.rtrancl_into_rtrancl\<close>)
  then obtain out where ci: "client_inv (?c1, out)" by (auto simp: session_inv_def)
  obtain c where c: "activate ?c1 0 = Some c" "\<not> hc_closed c"
    using activate_inactive [OF ci, of 0] by (auto simp: new_client_def)
  let ?s = "?s3\<lparr>sv_client := c, sv_session := ?se\<lparr>se_phase := Live\<rparr>\<rparr>"
  have 4: "?step ?s3 ?s" using session_step.activation [of ?s3 0 c] p(1) c(1) by simp
  have run: "?step\<^sup>*\<^sup>* sample_opened ?s" using 1 2 3 4 by (meson rtranclp.rtrancl_into_rtrancl rtranclp.rtrancl_refl)
  have "(\<exists>now converted. toAnalysisEvent sample_stored now = Inr converted \<and>
      event_envelope (se_ID (sv_session ?s)) sample_stored converted \<in> set (se_conn (sv_session ?s))) \<or>
    sample_stored \<in> set (ch_buf (hc_send (sv_client ?s))) \<or> sv_handed ?s < ev_Cursor sample_stored"
    by (rule session_gap_free [OF sample_start run]) (simp_all add: c(2) sample_log_events p sample_matches cur)
  then show ?thesis using run by (intro exI [of _ ?s]) (simp add: p cur sample_log_events)
qed

end
