(* ===== verification/Outbox.thy ===== *)
theory Outbox
  imports Store
begin

text \<open>
  \<^verbatim>\<open>internal/outbox/dispatcher.go\<close>: the delivery of committed events to the broker. The store
  is the interface \<^verbatim>\<open>outbox.Store\<close>; the publisher is a parameter, a function that may fail
  and changes the broker's state. The loop of \<^verbatim>\<open>Flush\<close> is a partial function whose value
  \<open>None\<close> is not returning.
\<close>

record 's outbox_ops =
  ob_PendingEvents :: "'s \<Rightarrow> int \<Rightarrow> (store_error, SignalEvent list) result"
  ob_MarkPublished :: "'s \<Rightarrow> int list \<Rightarrow> (store_error, unit) result \<times> 's"

datatype 'e flush_error = StoreFailed store_error | PublishFailed 'e

type_synonym ('e, 'p) publisher = "'p \<Rightarrow> SignalEvent \<Rightarrow> 'e option \<times> 'p"

text \<open>The loop over a batch: the cursors collected, or the first error.\<close>

fun publish_batch :: "('e, 'p) publisher \<Rightarrow> 'p \<Rightarrow> SignalEvent list \<Rightarrow> ('e, int list) result \<times> 'p" where
  "publish_batch publish p [] = (Inr [], p)"
| "publish_batch publish p (event # events) =
     (case publish p event of
        (Some e, p') \<Rightarrow> (Inl e, p')
      | (None, p') \<Rightarrow>
          (case publish_batch publish p' events of
             (Inl e, p'') \<Rightarrow> (Inl e, p'')
           | (Inr cursors, p'') \<Rightarrow> (Inr (ev_Cursor event # cursors), p'')))"

partial_function (option) Flush ::
    "'s outbox_ops \<Rightarrow> ('e, 'p) publisher \<Rightarrow> 's \<Rightarrow> 'p \<Rightarrow> (('e flush_error, unit) result \<times> 's \<times> 'p) option" where
  "Flush ops publish s p =
     (case ob_PendingEvents ops s 250 of
        Inl e \<Rightarrow> Some (Inl (StoreFailed e), s, p)
      | Inr events \<Rightarrow>
          if events = [] then Some (Inr (), s, p)
          else (case publish_batch publish p events of
              (Inl e, p') \<Rightarrow> Some (Inl (PublishFailed e), s, p')
            | (Inr cursors, p') \<Rightarrow>
                (case ob_MarkPublished ops s cursors of
                   (Inl e, s') \<Rightarrow> Some (Inl (StoreFailed e), s', p')
                 | (Inr _, s') \<Rightarrow>
                     if length events < 250 then Some (Inr (), s', p')
                     else Flush ops publish s' p')))"

text \<open>The health that \<^verbatim>\<open>Run\<close> records after each flush (\<^verbatim>\<open>recordSuccess\<close>, \<^verbatim>\<open>recordFailure\<close>).\<close>

record outbox_health =
  oh_healthy :: bool
  oh_errors :: uint64

definition record_flush :: "('e flush_error, unit) result \<Rightarrow> outbox_health \<Rightarrow> outbox_health" where
  "record_flush r m = (case r of
      Inr _ \<Rightarrow> m\<lparr>oh_healthy := True\<rparr>
    | Inl _ \<Rightarrow> m\<lparr>oh_healthy := False, oh_errors := oh_errors m + 1\<rparr>)"

text \<open>One pass of \<^verbatim>\<open>Run\<close>: the initial recovery or a tick.\<close>

definition run_tick :: "'s outbox_ops \<Rightarrow> ('e, 'p) publisher \<Rightarrow> 's \<times> 'p \<times> outbox_health \<Rightarrow> ('s \<times> 'p \<times> outbox_health) option" where
  "run_tick ops publish = (\<lambda>(s, p, m).
     map_option (\<lambda>(r, s', p'). (s', p', record_flush r m)) (Flush ops publish s p))"

definition default_interval :: "int \<Rightarrow> int" where
  "default_interval interval = (if interval \<le> 0 then 250 * (nanos div 1000) else interval)"

subsection \<open>Batches\<close>

definition publish_all :: "('e, 'p) publisher \<Rightarrow> 'p \<Rightarrow> SignalEvent list \<Rightarrow> 'p" where
  "publish_all publish p events = foldl (\<lambda>p e. snd (publish p e)) p events"

lemma publish_all_append: "publish_all publish p (xs @ ys) = publish_all publish (publish_all publish p xs) ys"
  by (simp add: publish_all_def)

text \<open>Every event of the list is accepted, one after the other.\<close>

fun all_accepted :: "('e, 'p) publisher \<Rightarrow> 'p \<Rightarrow> SignalEvent list \<Rightarrow> bool" where
  "all_accepted publish p [] \<longleftrightarrow> True"
| "all_accepted publish p (event # events) \<longleftrightarrow> fst (publish p event) = None \<and> all_accepted publish (snd (publish p event)) events"

lemma all_accepted_append:
  "all_accepted publish p (xs @ ys) \<longleftrightarrow> all_accepted publish p xs \<and> all_accepted publish (publish_all publish p xs) ys"
  by (induction xs arbitrary: p) (auto simp: publish_all_def)

lemma all_accepted_total: "(\<And>p e. fst (publish p e) = None) \<Longrightarrow> all_accepted publish p events"
  by (induction events arbitrary: p) simp_all

text \<open>
  How far a publication of \<open>events\<close> came: the first \<open>n\<close> were accepted, and either nothing else was offered or the next one was
  refused with the error \<open>e\<close>.
\<close>

definition published_to :: "('e, 'p) publisher \<Rightarrow> 'p \<Rightarrow> SignalEvent list \<Rightarrow> nat \<Rightarrow> 'e option \<Rightarrow> 'p \<Rightarrow> bool" where
  "published_to publish p events n refusal p' \<longleftrightarrow> n \<le> length events \<and> all_accepted publish p (take n events) \<and>
     (case refusal of
        None \<Rightarrow> p' = publish_all publish p (take n events)
      | Some e \<Rightarrow> n < length events \<and> publish (publish_all publish p (take n events)) (events ! n) = (Some e, p'))"

lemma published_to_later:
  assumes "all_accepted publish p (take m events)" and "m \<le> length events"
    and "published_to publish (publish_all publish p (take m events)) (drop m events) n refusal p'"
  shows "published_to publish p events (m + n) refusal p'"
proof -
  have "take (m + n) events = take m events @ take n (drop m events)" by (simp add: take_add)
  with assms show ?thesis
    by (auto simp: published_to_def all_accepted_append publish_all_append split: option.splits)
qed

lemma publish_batch_ok:
  "publish_batch publish p events = (Inr cursors, p') \<Longrightarrow>
     cursors = map ev_Cursor events \<and> p' = publish_all publish p events \<and> all_accepted publish p events"
  by (induction events arbitrary: p cursors) (auto simp: publish_all_def split: prod.splits option.splits sum.splits)

lemma publish_batch_error:
  "publish_batch publish p events = (Inl e, p') \<Longrightarrow> \<exists>n < length events. published_to publish p events n (Some e) p'"
proof (induction events arbitrary: p)
  case (Cons event events)
  obtain o1 p1 where 1: "publish p event = (o1, p1)" by fastforce
  show ?case
  proof (cases o1)
    case None
    then have "publish_batch publish p1 events = (Inl e, p')"
      using Cons.prems 1 by (auto split: prod.splits sum.splits)
    then obtain n where "n < length events" "published_to publish p1 events n (Some e) p'"
      using Cons.IH by blast
    then show ?thesis
      using 1 None by (intro exI [of _ "Suc n"]) (simp add: published_to_def publish_all_def)
  next
    case (Some e')
    with Cons.prems 1 show ?thesis by (intro exI [of _ 0]) (simp add: published_to_def publish_all_def)
  qed
qed simp

lemma published_to_take: "published_to publish p (take m events) n refusal p' \<Longrightarrow> published_to publish p events n refusal p'"
  by (auto simp: published_to_def split: option.splits)

lemma publish_batch_total:
  assumes "\<And>p e. fst (publish p e) = None"
  shows "is_ok (fst (publish_batch publish p events))"
proof (induction events arbitrary: p)
  case (Cons event events)
  obtain p' where "publish p event = (None, p')" using assms by (metis prod.collapse)
  with Cons [of p'] show ?case by (auto split: prod.splits sum.splits)
qed simp

text \<open>When nothing fails, the result of a flush that returns is a success.\<close>

lemma flush_ok:
  assumes "Flush ops publish s p = Some y"
    and "\<And>s n. is_ok (ob_PendingEvents ops s n)" and "\<And>s cs. is_ok (fst (ob_MarkPublished ops s cs))"
    and "\<And>p e. fst (publish p e) = None"
  shows "is_ok (fst y)"
proof -
  have "(\<forall>s n. is_ok (ob_PendingEvents ops s n)) \<and> (\<forall>s cs. is_ok (fst (ob_MarkPublished ops s cs))) \<and>
      (\<forall>p e. fst (publish p e) = None) \<longrightarrow> is_ok (fst y)"
  proof (rule Flush.raw_induct [OF _ assms(1), where P = "\<lambda>ops publish s p y.
      (\<forall>s n. is_ok (ob_PendingEvents ops s n)) \<and> (\<forall>s cs. is_ok (fst (ob_MarkPublished ops s cs))) \<and>
      (\<forall>p e. fst (publish p e) = None) \<longrightarrow> is_ok (fst y)"], intro impI, elim conjE)
    fix flush ops s p y and publish :: "('e, 'p) publisher"
    assume *: "\<And>ops publish s p y. flush ops publish s p = Some y \<Longrightarrow>
        (\<forall>s n. is_ok (ob_PendingEvents ops s n)) \<and> (\<forall>s cs. is_ok (fst (ob_MarkPublished ops s cs))) \<and>
        (\<forall>p e. fst (publish p e) = None) \<longrightarrow> is_ok (fst y)"
      and ok: "\<forall>s n. is_ok (ob_PendingEvents ops s n)" "\<forall>s cs. is_ok (fst (ob_MarkPublished ops s cs))"
        "\<forall>p e. fst (publish p e) = None"
      and step: "(case ob_PendingEvents ops s 250 of
        Inl e \<Rightarrow> Some (Inl (StoreFailed e), s, p)
      | Inr events \<Rightarrow>
          if events = [] then Some (Inr (), s, p)
          else (case publish_batch publish p events of
              (Inl e, p') \<Rightarrow> Some (Inl (PublishFailed e), s, p')
            | (Inr cursors, p') \<Rightarrow>
                (case ob_MarkPublished ops s cursors of
                   (Inl e, s') \<Rightarrow> Some (Inl (StoreFailed e), s', p')
                 | (Inr _, s') \<Rightarrow>
                     if length events < 250 then Some (Inr (), s', p')
                     else flush ops publish s' p'))) = Some y"
    have "is_ok (fst (publish_batch publish p evs))" for evs using ok(3) by (intro publish_batch_total) simp
    with step ok * [of ops publish] show "is_ok (fst y)"
      by (auto split: sum.splits prod.splits if_splits)
        (metis fst_conv is_ok_simps(2))+
  qed
  then show ?thesis using assms(2-4) by blast
qed

text \<open>The error of a publication, if that is why a flush stopped.\<close>

definition refusal :: "('e flush_error, unit) result \<Rightarrow> 'e option" where
  "refusal r = (case r of Inl (PublishFailed e) \<Rightarrow> Some e | _ \<Rightarrow> None)"

lemma refusal_simps [simp]: "refusal (Inr u) = None" "refusal (Inl (PublishFailed e)) = Some e" "refusal (Inl (StoreFailed x)) = None"
  by (simp_all add: refusal_def)

subsection \<open>The contract of an outbox store\<close>

text \<open>
  \<open>backlog\<close> is what is committed and not marked: a query returns its head, marking removes
  exactly the cursors marked, and a marking that reports an error has removed them all or none, since its acknowledgement
  may have been lost. Cursors identify events.
\<close>

locale outbox_store =
  fixes ops :: "'s outbox_ops"
    and backlog :: "'s \<Rightarrow> SignalEvent list"
    and good :: "'s \<Rightarrow> bool"
  assumes pending: "good s \<Longrightarrow> 0 < n \<Longrightarrow> n \<le> 1000 \<Longrightarrow> ob_PendingEvents ops s n = Inr events \<Longrightarrow> events = take (nat n) (backlog s)"
    and mark_ok: "good s \<Longrightarrow> set cursors \<subseteq> ev_Cursor ` set (backlog s) \<Longrightarrow> ob_MarkPublished ops s cursors = (Inr u, s') \<Longrightarrow>
      good s' \<and> backlog s' = filter (\<lambda>e. ev_Cursor e \<notin> set cursors) (backlog s)"
    and mark_error: "good s \<Longrightarrow> set cursors \<subseteq> ev_Cursor ` set (backlog s) \<Longrightarrow> ob_MarkPublished ops s cursors = (Inl e, s') \<Longrightarrow>
      good s' \<and> (backlog s' = backlog s \<or> backlog s' = filter (\<lambda>e. ev_Cursor e \<notin> set cursors) (backlog s))"
    and cursors_distinct: "good s \<Longrightarrow> distinct (map ev_Cursor (backlog s))"
begin

lemma filter_marked:
  assumes "distinct (map ev_Cursor xs)"
  shows "filter (\<lambda>e. ev_Cursor e \<notin> set (map ev_Cursor (take n xs))) xs = drop n xs"
proof -
  have d: "distinct (map ev_Cursor (take n xs @ drop n xs))" using assms by simp
  then have "filter (\<lambda>e. ev_Cursor e \<notin> set (map ev_Cursor (take n xs))) (drop n xs) = drop n xs"
    by (intro filter_True ballI) (fastforce simp only: map_append distinct_append set_map image_iff Int_iff)
  moreover have "filter (\<lambda>e. ev_Cursor e \<notin> set (map ev_Cursor (take n xs))) (take n xs) = []"
    by (rule filter_False) auto
  ultimately show ?thesis by (metis append_Nil append_take_drop_id filter_append)
qed

lemma mark_batch:
  assumes "good s" and "ob_MarkPublished ops s (map ev_Cursor (take n (backlog s))) = (r, s')"
  shows "good s' \<and> (backlog s' = drop n (backlog s) \<or> \<not> is_ok r \<and> backlog s' = backlog s)"
proof -
  have c: "set (map ev_Cursor (take n (backlog s))) \<subseteq> ev_Cursor ` set (backlog s)"
    by (auto dest: in_set_takeD)
  note f = filter_marked [OF cursors_distinct [OF assms(1)], of n]
  show ?thesis
  proof (cases r)
    case (Inl e)
    with mark_error [OF assms(1) c, of e s'] assms(2) f show ?thesis by (simp add: disj_commute)
  next
    case (Inr u)
    with mark_ok [OF assms(1) c, of u s'] assms(2) f show ?thesis by simp
  qed
qed

text \<open>One batch: the flush stops here, with all or nothing of what was accepted marked, or it goes on with the first 250
  events accepted and marked.\<close>

definition batch_stops :: "('e, 'p) publisher \<Rightarrow> 's \<Rightarrow> 'p \<Rightarrow> bool" where
  "batch_stops publish s p \<longleftrightarrow> (\<exists>r s' n p'. Flush ops publish s p = Some (r, s', p') \<and> good s' \<and>
     published_to publish p (backlog s) n (refusal r) p' \<and>
     (if is_ok r then backlog s' = [] \<and> n = length (backlog s) else \<exists>k \<le> n. backlog s' = drop k (backlog s)))"

definition batch_goes_on :: "('e, 'p) publisher \<Rightarrow> 's \<Rightarrow> 'p \<Rightarrow> bool" where
  "batch_goes_on publish s p \<longleftrightarrow> (\<exists>s'. Flush ops publish s p = Flush ops publish s' (publish_all publish p (take 250 (backlog s))) \<and>
     good s' \<and> backlog s' = drop 250 (backlog s) \<and> 250 \<le> length (backlog s) \<and> all_accepted publish p (take 250 (backlog s)))"

lemma batch_stopsI:
  assumes "Flush ops publish s p = Some (r, s', p')" and "good s'" and "published_to publish p (backlog s) n (refusal r) p'"
    and "if is_ok r then backlog s' = [] \<and> n = length (backlog s) else \<exists>k \<le> n. backlog s' = drop k (backlog s)"
  shows "batch_stops publish s p"
  using assms unfolding batch_stops_def by (intro exI conjI)

lemma flush_accepted_batch:
  assumes "good s" and "ob_PendingEvents ops s 250 = Inr events" and "events \<noteq> []" and "publish_batch publish p events = (Inr cursors, p1)"
  shows "batch_stops publish s p \<or> batch_goes_on publish s p"
proof -
  have ev: "events = take 250 (backlog s)" using pending [OF assms(1), of 250] assms(2) by simp
  have c: "cursors = map ev_Cursor events" "p1 = publish_all publish p events" "all_accepted publish p events"
    using publish_batch_ok [OF assms(4)] by auto
  then have pub: "published_to publish p (backlog s) (length events) None p1" unfolding ev by (auto simp: published_to_def min_def)
  obtain m s1 where m: "ob_MarkPublished ops s cursors = (m, s1)" by fastforce
  note s1 = mark_batch [OF assms(1), of 250 m s1, folded ev, folded c(1), OF m]
  show ?thesis
  proof (cases m)
    case (Inl e)
    have "\<exists>k \<le> length events. backlog s1 = drop k (backlog s)"
      using s1 unfolding ev by (elim conjE disjE) (auto simp: min_def intro: exI [of _ 0])
    moreover have "Flush ops publish s p = Some (Inl (StoreFailed e), s1, p1)"
      using assms(2-4) m Inl by (subst Flush.simps) simp
    ultimately show ?thesis using pub s1 batch_stopsI [of publish s p "Inl (StoreFailed e)" s1 p1 "length events"] by simp
  next
    case (Inr u)
    have f: "Flush ops publish s p = (if length events < 250 then Some (Inr (), s1, p1) else Flush ops publish s1 p1)"
      using assms(2-4) m Inr by (subst Flush.simps) simp
    show ?thesis
    proof (cases "length events < 250")
      case True
      then have "Flush ops publish s p = Some (Inr (), s1, p1)" "good s1" "backlog s1 = [] \<and> length events = length (backlog s)"
        using f s1 Inr ev by auto
      then show ?thesis using pub batch_stopsI [of publish s p "Inr ()" s1 p1 "length events"] by simp
    next
      case False
      with f s1 Inr c ev show ?thesis by (auto simp: batch_goes_on_def)
    qed
  qed
qed

lemma flush_batch:
  assumes "good s"
  shows "batch_stops publish s p \<or> batch_goes_on publish s p"
proof (cases "ob_PendingEvents ops s 250")
  case (Inl e)
  then have "Flush ops publish s p = Some (Inl (StoreFailed e), s, p)" by (subst Flush.simps) simp
  then show ?thesis
    using assms batch_stopsI [of publish s p "Inl (StoreFailed e)" s p 0] by (auto simp: published_to_def publish_all_def)
next
  case pend: (Inr events)
  then have ev: "events = take 250 (backlog s)" using pending [OF assms, of 250] by simp
  obtain b p1 where b: "publish_batch publish p events = (b, p1)" by fastforce
  consider (empty) "events = []" | (refused) e where "b = Inl e" | (accepted) cursors where "events \<noteq> []" "b = Inr cursors"
    by (cases b) auto
  then show ?thesis
  proof cases
    case empty
    then have "Flush ops publish s p = Some (Inr (), s, p)" using pend by (subst Flush.simps) simp
    then show ?thesis
      using assms empty ev batch_stopsI [of publish s p "Inr ()" s p 0] by (auto simp: published_to_def publish_all_def)
  next
    case (refused e)
    then obtain n where n: "n < length events" "published_to publish p (backlog s) n (Some e) p1"
      using publish_batch_error [of publish p events e p1] b published_to_take [of publish p 250] unfolding ev by auto
    have "Flush ops publish s p = Some (Inl (PublishFailed e), s, p1)"
      using pend b refused n(1) by (subst Flush.simps) auto
    then show ?thesis
      using assms n(2) batch_stopsI [of publish s p "Inl (PublishFailed e)" s p1 n] exI [of "\<lambda>k. k \<le> n \<and> backlog s = drop k (backlog s)" 0] by simp
  next
    case (accepted cursors)
    with flush_accepted_batch [OF assms pend] b show ?thesis by simp
  qed
qed

text \<open>Whatever fails and wherever, the flush returns; it has published a prefix of the backlog and
  marked no more than was accepted.\<close>

lemma flush_total:
  assumes "good s"
  shows "\<exists>r s' n k p'. Flush ops publish s p = Some (r, s', p') \<and> good s' \<and>
    published_to publish p (backlog s) n (refusal r) p' \<and> backlog s' = drop k (backlog s) \<and> k \<le> n \<and>
    (is_ok r \<longrightarrow> backlog s' = [] \<and> n = length (backlog s))"
  using assms
proof (induction "length (backlog s)" arbitrary: s p rule: less_induct)
  case less
  from flush_batch [OF less.prems, of publish p] show ?case
  proof
    assume "batch_stops publish s p"
    then obtain r s' n p' where stop: "Flush ops publish s p = Some (r, s', p')" "good s'"
        "published_to publish p (backlog s) n (refusal r) p'"
        "if is_ok r then backlog s' = [] \<and> n = length (backlog s) else \<exists>k \<le> n. backlog s' = drop k (backlog s)"
      unfolding batch_stops_def by (elim exE conjE)
    then have "\<exists>k \<le> n. backlog s' = drop k (backlog s)" by (auto split: if_splits)
    with stop show ?thesis by (auto split: if_splits)
  next
    assume "batch_goes_on publish s p"
    then obtain s1 where more: "Flush ops publish s p = Flush ops publish s1 (publish_all publish p (take 250 (backlog s)))"
        "good s1" "backlog s1 = drop 250 (backlog s)" "250 \<le> length (backlog s)" "all_accepted publish p (take 250 (backlog s))"
      unfolding batch_goes_on_def by (elim exE conjE)
    then have "length (backlog s1) < length (backlog s)" by simp
    from less.hyps [OF this more(2), of "publish_all publish p (take 250 (backlog s))"] obtain r s' n k p' where
      f: "Flush ops publish s1 (publish_all publish p (take 250 (backlog s))) = Some (r, s', p')"
      "published_to publish (publish_all publish p (take 250 (backlog s))) (drop 250 (backlog s)) n (refusal r) p'"
      "good s'" "backlog s' = drop k (backlog s1)" "k \<le> n" "is_ok r \<longrightarrow> backlog s' = [] \<and> n = length (backlog s1)"
      unfolding more(3) by blast
    from published_to_later [OF more(5,4) f(2)] have "published_to publish p (backlog s) (250 + n) (refusal r) p'" .
    moreover have "backlog s' = drop (250 + k) (backlog s)" using f(4) more(3) by (simp add: add.commute)
    ultimately show ?thesis using more f
      by (intro exI [of _ r] exI [of _ s'] exI [of _ "250 + n"] exI [of _ "250 + k"] exI [of _ p']) auto
  qed
qed

end

subsection \<open>The memory store\<close>

definition memory_backlog :: "Memory \<Rightarrow> SignalEvent list" where
  "memory_backlog s = filter (\<lambda>e. \<not> mem_published s (ev_Cursor e)) (mem_events s)"

definition memory_outbox :: "Memory outbox_ops" where
  "memory_outbox = \<lparr>ob_PendingEvents = (\<lambda>s n. Inr (Memory_PendingEvents s n)), ob_MarkPublished = Memory_MarkPublished\<rparr>"

lemma memory_outbox_simps [simp]:
  "ob_PendingEvents memory_outbox s n = Inr (Memory_PendingEvents s n)"
  "ob_MarkPublished memory_outbox = Memory_MarkPublished"
  by (simp_all add: memory_outbox_def)

lemma wf_distinct_cursors: "wf_memory s \<Longrightarrow> distinct (map ev_Cursor (memory_backlog s))"
  unfolding wf_memory_def memory_backlog_def
  by (metis (no_types, lifting) distinct_map_filter strict_sorted_iff)

lemma memory_mark_wf:
  assumes "wf_memory s" and "set cs \<subseteq> ev_Cursor ` set (memory_backlog s)"
  shows "wf_memory (snd (Memory_MarkPublished s cs))"
proof -
  have "\<forall>c \<in> set cs. c \<le> mem_next s" using assms by (auto simp: memory_backlog_def wf_memory_def)
  then have "mem_step s (snd (Memory_MarkPublished s cs))" by (rule mem_step.mark) (simp add: Memory_MarkPublished_def)
  then show ?thesis using assms(1) by (rule mem_step_wf)
qed

interpretation memory_outbox: outbox_store memory_outbox memory_backlog wf_memory
proof unfold_locales
  fix s cursors u s'
  assume "wf_memory s" "set cursors \<subseteq> ev_Cursor ` set (memory_backlog s)"
    "ob_MarkPublished memory_outbox s cursors = (Inr u, s')"
  then show "wf_memory s' \<and> memory_backlog s' = filter (\<lambda>e. ev_Cursor e \<notin> set cursors) (memory_backlog s)"
    using memory_mark_wf [of s cursors] by (auto simp: Memory_MarkPublished_alt memory_backlog_def intro: filter_cong)
qed (auto simp: Memory_PendingEvents_def memory_backlog_def Memory_MarkPublished_alt wf_distinct_cursors [unfolded memory_backlog_def])

subsection \<open>Properties\<close>

text \<open>
  Flushing the memory store always returns, whichever publications fail. The publisher has then accepted, in
  order, a prefix of the events that were pending; at most the one after it was offered as well, and refused, and that
  is then the error returned. Every event that is no longer pending was accepted: delivery is at least once.
\<close>

theorem flush_at_least_once:
  assumes "wf_memory s"
  shows "\<exists>r s' n k p'. Flush memory_outbox publish s p = Some (r, s', p') \<and>
    published_to publish p (memory_backlog s) n (refusal r) p' \<and> memory_backlog s' = drop k (memory_backlog s) \<and> k \<le> n"
  using memory_outbox.flush_total [OF assms, of publish p] by blast

theorem flush_at_least_once_witness:
  "\<exists>r s' n k p'. Flush memory_outbox (\<lambda>p e. (Some (), e # p)) sample_memory [] = Some (r :: (unit flush_error, unit) result, s', p') \<and>
    published_to (\<lambda>p e. (Some (), e # p)) [] (memory_backlog sample_memory) n (refusal r) p' \<and>
    memory_backlog s' = drop k (memory_backlog sample_memory) \<and> k \<le> n"
  by (rule flush_at_least_once [OF sample_memory_wf])

text \<open>
  When the broker accepts every event, a flush ends with success, the broker has received
  every pending event exactly once and in cursor order, and nothing is pending any more.
\<close>

theorem flush_delivers_all:
  assumes "wf_memory s" and "\<And>p e. fst (publish p e) = None"
  shows "\<exists>s'. Flush memory_outbox publish s p = Some (Inr (), s', publish_all publish p (memory_backlog s)) \<and>
    memory_backlog s' = [] \<and> sorted_wrt (<) (map ev_Cursor (memory_backlog s))"
proof -
  obtain r s' n p' where f: "Flush memory_outbox publish s p = Some (r, s', p')"
      "published_to publish p (memory_backlog s) n (refusal r) p'" "is_ok r \<longrightarrow> memory_backlog s' = [] \<and> n = length (memory_backlog s)"
    using memory_outbox.flush_total [OF assms(1), of publish p] by blast
  have "is_ok r" using flush_ok [OF f(1)] assms(2) by (simp add: Memory_MarkPublished_alt)
  then have "r = Inr ()" by (cases r) simp_all
  moreover have "sorted_wrt (<) (map ev_Cursor (memory_backlog s))"
    using assms(1) by (simp add: wf_memory_def memory_backlog_def sorted_wrt_map sorted_wrt_filter)
  ultimately show ?thesis using f by (simp add: published_to_def)
qed

theorem flush_delivers_all_witness:
  "\<exists>s'. Flush memory_outbox (\<lambda>p e. (None :: unit option, p @ [ev_Cursor e])) sample_memory [] = Some (Inr (), s', [1]) \<and>
    memory_backlog s' = []"
proof -
  have "memory_backlog sample_memory = [sample_event 1]"
    using sample_memory_events by (simp add: memory_backlog_def sample_memory_def Memory_CommitClosed_def cursor_of_def
        NewMemory_def commit_event_def eventByID_def sample_event_def Let_def)
  with flush_delivers_all [OF sample_memory_wf, of "\<lambda>p e. (None :: unit option, p @ [ev_Cursor e])" "[]"]
  show ?thesis by (auto simp: publish_all_def sample_event_def)
qed

end
