(* ===== verification/Postgres.thy ===== *)
theory Postgres
  imports Outbox GoStrings
begin

text \<open>
  \<^verbatim>\<open>internal/store/postgres.go\<close>: the durable store. The tables that the migrations create are lists of rows, and each SQL
  statement is the function on them that it describes. A transaction runs under the advisory locks that order it with the
  others, so it is one step; how it ends is a \<open>fate\<close>: it completes, it is aborted, or it is committed and the acknowledgement is
  lost. The sequence behind the cursors is not transactional: what an aborted transaction drew from it stays drawn, and an
  insertion that meets an existing row has drawn a value too. What the driver and the database do to a value that is written and
  read back (time resolution, JSON documents, which texts are storable) is a parameter, the record \<open>codec\<close>.
\<close>

record 'j codec =
  cd_time :: "time \<Rightarrow> time"
  cd_text :: "string \<Rightarrow> bool"
  cd_event :: "SignalEvent \<Rightarrow> 'j option"
  cd_decode :: "'j \<Rightarrow> SignalEvent option"
  cd_algorithm :: "'j \<Rightarrow> string"
  cd_market :: "MarketState \<Rightarrow> 'j option"
  cd_state :: "state_bytes \<Rightarrow> state_bytes option"

subsection \<open>Tables\<close>

record 'j outbox_row =
  or_cursor :: int
  or_event_id :: string
  or_dataset :: string
  or_symbol :: string
  or_timeframe :: string
  or_period :: int
  or_event_type :: string
  or_payload :: 'j
  or_published :: bool

record point_row =
  pt_event_id :: string
  pt_dataset :: string
  pt_symbol :: string
  pt_timeframe :: string
  pt_bar_open_time :: time
  pt_bar_revision :: int
  pt_indicator :: string
  pt_period :: int
  pt_value :: f64
  pt_samples :: int
  pt_algorithm_version :: string
  pt_config_hash :: string

record 'j market_row =
  mr_event_id :: string
  mr_dataset :: string
  mr_symbol :: string
  mr_timeframe :: string
  mr_bar_open_time :: time
  mr_bar_revision :: int
  mr_algorithm :: string
  mr_algorithm_version :: string
  mr_config_hash :: string
  mr_state :: 'j

record snapshot_row =
  sr_series :: SeriesKey
  sr_indicator :: string
  sr_period :: int
  sr_algorithm_version :: string
  sr_config_hash :: string
  sr_last_open_time :: time
  sr_state :: state_bytes

text \<open>
  \<open>pg_next\<close> is the last value drawn from the sequence of the outbox; the cursors map a series to time and hash. The sequence is a
  \<^verbatim>\<open>bigserial\<close>, which refuses to draw beyond \<open>2 ^ 63 - 1\<close>: the tables here are those of a database that has not come that far.
\<close>

record 'j tables =
  pg_next :: int
  pg_outbox :: "'j outbox_row list"
  pg_points :: "point_row list"
  pg_markets :: "'j market_row list"
  pg_snapshots :: "snapshot_row list"
  pg_cursors :: "(SeriesKey \<times> time \<times> string) list"

definition empty_tables :: "'j tables" where
  "empty_tables = \<lparr>pg_next = 0, pg_outbox = [], pg_points = [], pg_markets = [], pg_snapshots = [], pg_cursors = []\<rparr>"

subsection \<open>Transactions\<close>

text \<open>An aborted transaction has drawn up to \<open>n\<close> values from the sequence before it failed.\<close>

datatype fate = Completed | Aborted nat | Unacknowledged

text \<open>The fates of the next requests; when none is left, requests complete.\<close>

record 'j Postgres =
  db_tables :: "'j tables"
  db_fates :: "fate list"

definition lost :: store_error where "lost = Unavailable ''connection lost''"

definition rolled_back :: "'j tables \<Rightarrow> 'j tables \<Rightarrow> 'j tables" where
  "rolled_back before t = before\<lparr>pg_next := pg_next t\<rparr>"

definition transact :: "('j tables \<Rightarrow> (store_error, 'a) result \<times> 'j tables) \<Rightarrow> 'j Postgres \<Rightarrow> (store_error, 'a) result \<times> 'j Postgres" where
  "transact body db =
     (let fate = (case db_fates db of [] \<Rightarrow> Completed | f # _ \<Rightarrow> f); db' = db\<lparr>db_fates := tl (db_fates db)\<rparr>;
          before = db_tables db; (r, t) = body before
      in case fate of
           Aborted n \<Rightarrow> (Inl lost, db'\<lparr>db_tables := before\<lparr>pg_next := min (pg_next before + int n) (pg_next t)\<rparr>\<rparr>)
         | Completed \<Rightarrow> (case r of Inl e \<Rightarrow> (Inl e, db'\<lparr>db_tables := rolled_back before t\<rparr>) | Inr x \<Rightarrow> (Inr x, db'\<lparr>db_tables := t\<rparr>))
         | Unacknowledged \<Rightarrow> (Inl lost, db'\<lparr>db_tables := (case r of Inl _ \<Rightarrow> rolled_back before t | Inr _ \<Rightarrow> t)\<rparr>))"

text \<open>A query reads the committed tables, if the database can be reached.\<close>

definition db_query :: "'j Postgres \<Rightarrow> ('j tables \<Rightarrow> (store_error, 'a) result) \<Rightarrow> (store_error, 'a) result" where
  "db_query db body = (case db_fates db of [] \<Rightarrow> body (db_tables db) | Completed # _ \<Rightarrow> body (db_tables db) | _ \<Rightarrow> Inl lost)"

text \<open>The ranges of \<^verbatim>\<open>integer\<close> and \<^verbatim>\<open>bigint\<close> columns.\<close>

definition fits_integer :: "int \<Rightarrow> bool" where "fits_integer n \<longleftrightarrow> - (2 ^ 31) \<le> n \<and> n < 2 ^ 31"
definition fits_bigint :: "uint64 \<Rightarrow> bool" where "fits_bigint n \<longleftrightarrow> unat n < 2 ^ 63"

definition key_text :: "'j codec \<Rightarrow> SeriesKey \<Rightarrow> bool" where
  "key_text c key \<longleftrightarrow> cd_text c (key_Dataset key) \<and> cd_text c (key_Symbol key) \<and> cd_text c (key_Timeframe key)"

definition event_text :: "'j codec \<Rightarrow> SignalEvent \<Rightarrow> bool" where
  "event_text c event \<longleftrightarrow> list_all (cd_text c) [ev_EventID event, ev_Dataset event, ev_Symbol event, ev_Timeframe event]"

definition algorithm_text :: "'j codec \<Rightarrow> AlgorithmRef \<Rightarrow> bool" where
  "algorithm_text c a \<longleftrightarrow> list_all (cd_text c) [alg_Name a, alg_Version a, alg_ConfigHash a]"

subsection \<open>The current state of a series\<close>

definition same_point_row :: "point_row \<Rightarrow> point_row \<Rightarrow> bool" where
  "same_point_row a b \<longleftrightarrow> pt_dataset a = pt_dataset b \<and> pt_symbol a = pt_symbol b \<and> pt_timeframe a = pt_timeframe b \<and>
     pt_bar_open_time a = pt_bar_open_time b \<and> pt_bar_revision a = pt_bar_revision b \<and> pt_indicator a = pt_indicator b \<and>
     pt_period a = pt_period b \<and> pt_algorithm_version a = pt_algorithm_version b \<and> pt_config_hash a = pt_config_hash b"

text \<open>
  An insertion with a conflict clause: the row replaces the one it conflicts with or is appended; the event identity of any other
  row must differ.
\<close>

definition upsert :: "('r \<Rightarrow> 'r \<Rightarrow> bool) \<Rightarrow> ('r \<Rightarrow> string) \<Rightarrow> 'r \<Rightarrow> 'r list \<Rightarrow> 'r list option" where
  "upsert same row_id row rows =
     (if \<exists>r \<in> set rows. \<not> same r row \<and> row_id r = row_id row then None
      else if \<exists>r \<in> set rows. same r row then Some (map (\<lambda>r. if same r row then row else r) rows)
      else Some (rows @ [row]))"

definition insertPoint :: "'j codec \<Rightarrow> SignalEvent \<Rightarrow> 'j tables \<Rightarrow> (store_error, 'j tables) result" where
  "insertPoint c event t =
     (case ev_Indicator event of
        None \<Rightarrow> Inl (Unavailable ''indicator point has no indicator payload'')
      | Some p \<Rightarrow>
          (let row = \<lparr>pt_event_id = ev_EventID event, pt_dataset = ev_Dataset event, pt_symbol = ev_Symbol event,
                 pt_timeframe = ev_Timeframe event, pt_bar_open_time = cd_time c (ev_BarOpenTime event),
                 pt_bar_revision = uint (ev_BarRevision event), pt_indicator = alg_Name (ev_Algorithm event),
                 pt_period = ip_Period p, pt_value = ip_Value p, pt_samples = uint (ip_Samples p),
                 pt_algorithm_version = alg_Version (ev_Algorithm event), pt_config_hash = alg_ConfigHash (ev_Algorithm event)\<rparr>
           in if event_text c event \<and> algorithm_text c (ev_Algorithm event) \<and> fits_bigint (ev_BarRevision event) \<and>
                 fits_bigint (ip_Samples p) \<and> fits_integer (ip_Period p)
              then (case upsert same_point_row pt_event_id row (pg_points t) of
                  None \<Rightarrow> Inl (Unavailable ''insert indicator point'')
                | Some rows \<Rightarrow> Inr (t\<lparr>pg_points := rows\<rparr>))
              else Inl (Unavailable ''insert indicator point'')))"

definition same_market_row :: "'j market_row \<Rightarrow> 'j market_row \<Rightarrow> bool" where
  "same_market_row a b \<longleftrightarrow> mr_dataset a = mr_dataset b \<and> mr_symbol a = mr_symbol b \<and> mr_timeframe a = mr_timeframe b \<and>
     mr_algorithm a = mr_algorithm b \<and> mr_algorithm_version a = mr_algorithm_version b \<and> mr_config_hash a = mr_config_hash b"

text \<open>A state for an earlier bar than the stored one is ignored.\<close>

definition upsertMarketState :: "'j codec \<Rightarrow> SignalEvent \<Rightarrow> 'j tables \<Rightarrow> (store_error, 'j tables) result" where
  "upsertMarketState c event t =
     (case ev_Market event of
        None \<Rightarrow> Inl (Unavailable ''market state has no market payload'')
      | Some m \<Rightarrow>
          (case cd_market c m of
             None \<Rightarrow> Inl (Unavailable ''encode market state'')
           | Some j \<Rightarrow>
               (let row = \<lparr>mr_event_id = ev_EventID event, mr_dataset = ev_Dataset event, mr_symbol = ev_Symbol event,
                      mr_timeframe = ev_Timeframe event, mr_bar_open_time = cd_time c (ev_BarOpenTime event),
                      mr_bar_revision = uint (ev_BarRevision event), mr_algorithm = alg_Name (ev_Algorithm event),
                      mr_algorithm_version = alg_Version (ev_Algorithm event), mr_config_hash = alg_ConfigHash (ev_Algorithm event),
                      mr_state = j\<rparr>
                in if \<not> (event_text c event \<and> algorithm_text c (ev_Algorithm event) \<and> fits_bigint (ev_BarRevision event))
                   then Inl (Unavailable ''upsert market state'')
                   else if \<exists>r \<in> set (pg_markets t). same_market_row r row \<and> mr_bar_open_time row < mr_bar_open_time r then Inr t
                   else (case upsert same_market_row mr_event_id row (pg_markets t) of
                       None \<Rightarrow> Inl (Unavailable ''upsert market state'')
                     | Some rows \<Rightarrow> Inr (t\<lparr>pg_markets := rows\<rparr>)))))"

definition Postgres_persistEventState :: "'j codec \<Rightarrow> SignalEvent \<Rightarrow> 'j tables \<Rightarrow> (store_error, 'j tables) result" where
  "Postgres_persistEventState c event t =
     (if ev_EventType event = ''indicator.point'' \<or> ev_EventType event = [] then
        (if ev_Indicator event = None then Inl (Unavailable ''signal event has no typed payload'') else insertPoint c event t)
      else if ev_EventType event = ''market.state'' then upsertMarketState c event t
      else Inl (Unavailable ''unsupported signal event type''))"

definition same_snapshot_row :: "snapshot_row \<Rightarrow> snapshot_row \<Rightarrow> bool" where
  "same_snapshot_row a b \<longleftrightarrow> sr_series a = sr_series b \<and> sr_indicator a = sr_indicator b \<and> sr_period a = sr_period b \<and>
     sr_algorithm_version a = sr_algorithm_version b \<and> sr_config_hash a = sr_config_hash b"

definition upsertSnapshot :: "'j codec \<Rightarrow> SeriesKey \<Rightarrow> ReducerSnapshot \<Rightarrow> 'j tables \<Rightarrow> (store_error, 'j tables) result" where
  "upsertSnapshot c key snapshot t =
     (case cd_state c (rs_State snapshot) of
        None \<Rightarrow> Inl (Unavailable ''upsert reducer snapshot'')
      | Some state \<Rightarrow>
          (let row = \<lparr>sr_series = key, sr_indicator = alg_Name (rs_Algorithm snapshot), sr_period = rs_Period snapshot,
                 sr_algorithm_version = alg_Version (rs_Algorithm snapshot), sr_config_hash = alg_ConfigHash (rs_Algorithm snapshot),
                 sr_last_open_time = cd_time c (rs_LastOpenTime snapshot), sr_state = state\<rparr>
           in if \<not> (algorithm_text c (rs_Algorithm snapshot) \<and> fits_integer (rs_Period snapshot))
              then Inl (Unavailable ''upsert reducer snapshot'')
              else Inr (t\<lparr>pg_snapshots := (if \<exists>r \<in> set (pg_snapshots t). same_snapshot_row r row
                then map (\<lambda>r. if same_snapshot_row r row then row else r) (pg_snapshots t)
                else pg_snapshots t @ [row])\<rparr>)))"

fun upsert_snapshots :: "'j codec \<Rightarrow> SeriesKey \<Rightarrow> ReducerSnapshot list \<Rightarrow> 'j tables \<Rightarrow> (store_error, 'j tables) result" where
  "upsert_snapshots c key [] t = Inr t"
| "upsert_snapshots c key (r # rs) t =
     (case upsertSnapshot c key r t of Inl e \<Rightarrow> Inl e | Inr t' \<Rightarrow> upsert_snapshots c key rs t')"

text \<open>The cursor row is replaced unless it is ahead, in which case no row is affected.\<close>

definition upsertCursor :: "'j codec \<Rightarrow> SeriesKey \<Rightarrow> Bar \<Rightarrow> 'j tables \<Rightarrow> (store_error, 'j tables) result" where
  "upsertCursor c key bar t =
     (let t' = t\<lparr>pg_cursors := AList.update key (cd_time c (bar_OpenTime bar), barHash bar) (pg_cursors t)\<rparr>
      in case map_of (pg_cursors t) key of
           None \<Rightarrow> Inr t'
         | Some (last_open_time, _) \<Rightarrow> if last_open_time \<le> cd_time c (bar_OpenTime bar) then Inr t' else Inl CursorBackwards)"

subsection \<open>The outbox\<close>

text \<open>An insertion draws from the sequence first; a row with the event's identity stays as it is and its cursor is returned.\<close>

definition insert_outbox :: "'j codec \<Rightarrow> SignalEvent \<Rightarrow> int \<Rightarrow> 'j tables \<Rightarrow> (store_error, int) result \<times> 'j tables" where
  "insert_outbox c event period t =
     (case cd_event c event of
        None \<Rightarrow> (Inl (Unavailable ''encode signal event''), t)
      | Some payload \<Rightarrow>
          if \<not> (event_text c event \<and> cd_text c (ev_EventType event) \<and> fits_integer period)
          then (Inl (Unavailable ''insert signal outbox''), t)
          else let cursor = pg_next t + 1; t' = t\<lparr>pg_next := cursor\<rparr>
            in case find (\<lambda>r. or_event_id r = ev_EventID event) (pg_outbox t) of
                 Some r \<Rightarrow> (Inr (or_cursor r), t')
               | None \<Rightarrow> (Inr cursor, t'\<lparr>pg_outbox := pg_outbox t @
                   [\<lparr>or_cursor = cursor, or_event_id = ev_EventID event, or_dataset = ev_Dataset event, or_symbol = ev_Symbol event,
                     or_timeframe = ev_Timeframe event, or_period = period, or_event_type = ev_EventType event, or_payload = payload,
                     or_published = False\<rparr>]\<rparr>))"

text \<open>The loop over the events: each one's state is stored, and those that \<open>period_of\<close> selects go to the outbox.\<close>

fun event_loop :: "'j codec \<Rightarrow> (SignalEvent \<Rightarrow> int option) \<Rightarrow> SignalEvent list \<Rightarrow> 'j tables \<Rightarrow>
    (store_error, SignalEvent list) result \<times> 'j tables" where
  "event_loop c period_of [] t = (Inr [], t)"
| "event_loop c period_of (event # events) t =
     (case Postgres_persistEventState c event t of
        Inl e \<Rightarrow> (Inl e, t)
      | Inr t1 \<Rightarrow>
          (case period_of event of
             None \<Rightarrow> event_loop c period_of events t1
           | Some period \<Rightarrow>
               (case insert_outbox c event period t1 of
                  (Inl e, t2) \<Rightarrow> (Inl e, t2)
                | (Inr cursor, t2) \<Rightarrow>
                    (case event_loop c period_of events t2 of
                       (Inl e, t3) \<Rightarrow> (Inl e, t3)
                     | (Inr committed, t3) \<Rightarrow> (Inr (event\<lparr>ev_Cursor := cursor\<rparr> # committed), t3)))))"

definition commit_period :: "SignalEvent \<Rightarrow> int option" where "commit_period event = Some (eventPeriod event)"
definition reset_period :: "SignalEvent \<Rightarrow> int option" where "reset_period event = (if ev_Reset event then Some 0 else None)"

text \<open>What follows the loop in both transactions.\<close>

definition finish_series :: "'j codec \<Rightarrow> SeriesKey \<Rightarrow> ReducerSnapshot list \<Rightarrow> Bar option \<Rightarrow>
    (store_error, SignalEvent list) result \<times> 'j tables \<Rightarrow> (store_error, SignalEvent list) result \<times> 'j tables" where
  "finish_series c key snapshots lastBar = (\<lambda>(r, t).
     case r of
       Inl e \<Rightarrow> (Inl e, t)
     | Inr committed \<Rightarrow>
         (case upsert_snapshots c key snapshots t of
            Inl e \<Rightarrow> (Inl e, t)
          | Inr t1 \<Rightarrow>
              (case lastBar of
                 None \<Rightarrow> (Inr committed, t1)
               | Some bar \<Rightarrow> (case upsertCursor c key bar t1 of Inl e \<Rightarrow> (Inl e, t1) | Inr t2 \<Rightarrow> (Inr committed, t2)))))"

definition commit_closed :: "'j codec \<Rightarrow> SeriesKey \<Rightarrow> Bar \<Rightarrow> SignalEvent list \<Rightarrow> ReducerSnapshot list \<Rightarrow> 'j tables \<Rightarrow>
    (store_error, SignalEvent list) result \<times> 'j tables" where
  "commit_closed c key bar events snapshots t =
     (if \<not> key_text c key then (Inl (Unavailable ''read series cursor''), t)
      else let proceed = finish_series c key snapshots (Some bar) (event_loop c commit_period events t)
        in case map_of (pg_cursors t) key of
             Some (lastOpenTime, lastHash) \<Rightarrow>
               if \<not> lastOpenTime < bar_OpenTime bar then
                 (if bar_OpenTime bar = lastOpenTime \<and> barHash bar = lastHash then (Inr [], t) else (Inl CursorConflict, t))
               else proceed
           | None \<Rightarrow> proceed)"

definition delete_series :: "SeriesKey \<Rightarrow> 'j tables \<Rightarrow> 'j tables" where
  "delete_series key t =
     t\<lparr>pg_snapshots := filter (\<lambda>r. sr_series r \<noteq> key) (pg_snapshots t),
       pg_points := filter (\<lambda>r. \<not> (pt_dataset r = key_Dataset key \<and> pt_symbol r = key_Symbol key \<and> pt_timeframe r = key_Timeframe key))
         (pg_points t)\<rparr>"

definition rebuild_series :: "'j codec \<Rightarrow> SeriesKey \<Rightarrow> SignalEvent list \<Rightarrow> ReducerSnapshot list \<Rightarrow> Bar option \<Rightarrow> 'j tables \<Rightarrow>
    (store_error, SignalEvent list) result \<times> 'j tables" where
  "rebuild_series c key events snapshots lastBar t =
     (if \<not> key_text c key then (Inl (Unavailable ''clear stale reducer snapshots''), t)
      else finish_series c key snapshots lastBar (event_loop c reset_period events (delete_series key t)))"

subsection \<open>The operations of the store\<close>

definition Postgres_CommitClosed :: "'j codec \<Rightarrow> 'j Postgres \<Rightarrow> SeriesKey \<Rightarrow> Bar \<Rightarrow> SignalEvent list \<Rightarrow> ReducerSnapshot list \<Rightarrow>
    (store_error, SignalEvent list) result \<times> 'j Postgres" where
  "Postgres_CommitClosed c db key bar events snapshots = transact (commit_closed c key bar events snapshots) db"

definition Postgres_RebuildSeries :: "'j codec \<Rightarrow> 'j Postgres \<Rightarrow> SeriesKey \<Rightarrow> SignalEvent list \<Rightarrow> ReducerSnapshot list \<Rightarrow> Bar option \<Rightarrow>
    (store_error, SignalEvent list) result \<times> 'j Postgres" where
  "Postgres_RebuildSeries c db key events snapshots lastBar = transact (rebuild_series c key events snapshots lastBar) db"

definition recovered_snapshot :: "snapshot_row \<Rightarrow> ReducerSnapshot" where
  "recovered_snapshot r = \<lparr>rs_Algorithm = \<lparr>alg_Name = sr_indicator r, alg_Version = sr_algorithm_version r, alg_ConfigHash = sr_config_hash r\<rparr>,
     rs_Period = sr_period r, rs_LastOpenTime = sr_last_open_time r, rs_State = sr_state r\<rparr>"

text \<open>Without a cursor the snapshots are not read.\<close>

definition Postgres_LoadRecovery :: "'j codec \<Rightarrow> 'j Postgres \<Rightarrow> SeriesKey \<Rightarrow> (store_error, SeriesRecovery) result" where
  "Postgres_LoadRecovery c db key = db_query db (\<lambda>t.
     if \<not> key_text c key then Inl (Unavailable ''load series cursor'')
     else case map_of (pg_cursors t) key of
         None \<Rightarrow> Inr \<lparr>rec_Snapshots = [], rec_CursorOpenTime = zero_time, rec_CursorHash = [], rec_HasCursor = False\<rparr>
       | Some (last_open_time, hash) \<Rightarrow> Inr \<lparr>rec_Snapshots = map recovered_snapshot
           (sort_key sr_period (filter (\<lambda>r. sr_series r = key) (pg_snapshots t))),
           rec_CursorOpenTime = last_open_time, rec_CursorHash = hash, rec_HasCursor = True\<rparr>)"

fun scanEvents :: "'j codec \<Rightarrow> 'j outbox_row list \<Rightarrow> (store_error, SignalEvent list) result" where
  "scanEvents c [] = Inr []"
| "scanEvents c (r # rs) =
     (case cd_decode c (or_payload r) of
        None \<Rightarrow> Inl (Unavailable ''decode outbox event'')
      | Some event \<Rightarrow> (case scanEvents c rs of Inl e \<Rightarrow> Inl e | Inr events \<Rightarrow> Inr (event\<lparr>ev_Cursor := or_cursor r\<rparr> # events)))"

definition row_matches :: "'j codec \<Rightarrow> EventFilter \<Rightarrow> 'j outbox_row \<Rightarrow> bool" where
  "row_matches c f r \<longleftrightarrow> ef_AfterCursor f < or_cursor r \<and> (ef_Dataset f = [] \<or> or_dataset r = ef_Dataset f) \<and>
     (ef_Symbol f = [] \<or> or_symbol r = ef_Symbol f) \<and> (ef_Timeframe f = [] \<or> or_timeframe r = ef_Timeframe f) \<and>
     (ef_Period f = 0 \<or> or_period r = ef_Period f) \<and> (ef_EventType f = [] \<or> or_event_type r = ef_EventType f) \<and>
     (ef_Analysis f = [] \<or> cd_algorithm c (or_payload r) = ef_Analysis f)"

definition Postgres_QueryEvents :: "'j codec \<Rightarrow> 'j Postgres \<Rightarrow> EventFilter \<Rightarrow> (store_error, SignalEvent list) result" where
  "Postgres_QueryEvents c db f = db_query db (\<lambda>t.
     scanEvents c (take (nat (normalize_limit (ef_Limit f))) (sort_key or_cursor (filter (row_matches c f) (pg_outbox t)))))"

definition point_row_matches :: "PointFilter \<Rightarrow> point_row \<Rightarrow> bool" where
  "point_row_matches f r \<longleftrightarrow> (pf_Dataset f = [] \<or> pt_dataset r = pf_Dataset f) \<and> (pf_Symbol f = [] \<or> pt_symbol r = pf_Symbol f) \<and>
     (pf_Timeframe f = [] \<or> pt_timeframe r = pf_Timeframe f) \<and> (pf_Period f = 0 \<or> pt_period r = pf_Period f) \<and>
     (alg_Name (pf_Algorithm f) = [] \<or> pt_indicator r = alg_Name (pf_Algorithm f)) \<and>
     (alg_Version (pf_Algorithm f) = [] \<or> pt_algorithm_version r = alg_Version (pf_Algorithm f)) \<and>
     (alg_ConfigHash (pf_Algorithm f) = [] \<or> pt_config_hash r = alg_ConfigHash (pf_Algorithm f))"

text \<open>The descending order of the query; event identities are hexadecimal, so their collation is that of bytes.\<close>

definition newer_point :: "point_row \<Rightarrow> point_row \<Rightarrow> bool" where
  "newer_point a b \<longleftrightarrow> (if pt_bar_open_time a = pt_bar_open_time b then str_lt (pt_event_id b) (pt_event_id a)
     else pt_bar_open_time b < pt_bar_open_time a)"

definition point_event :: "point_row \<Rightarrow> SignalEvent" where
  "point_event r = \<lparr>ev_Schema = ''signal.event.v1'', ev_Cursor = 0, ev_EventID = pt_event_id r, ev_EventType = ''indicator.point'',
     ev_Dataset = pt_dataset r, ev_Symbol = pt_symbol r, ev_Timeframe = pt_timeframe r, ev_BarOpenTime = pt_bar_open_time r,
     ev_SourceBar = None, ev_BarRevision = of_int (pt_bar_revision r), ev_AnalysisRevision = of_int (pt_bar_revision r),
     ev_Provisional = False, ev_Reset = False, ev_ResetHistory = [],
     ev_Algorithm = \<lparr>alg_Name = pt_indicator r, alg_Version = pt_algorithm_version r, alg_ConfigHash = pt_config_hash r\<rparr>,
     ev_Indicator = Some \<lparr>ip_Period = pt_period r, ip_Value = pt_value r, ip_Samples = of_int (pt_samples r), ip_Ready = True\<rparr>,
     ev_Market = None, ev_Indicators = []\<rparr>"

definition Postgres_QueryRecentPoints :: "'j Postgres \<Rightarrow> PointFilter \<Rightarrow> (store_error, SignalEvent list) result" where
  "Postgres_QueryRecentPoints db f = db_query db (\<lambda>t.
     Inr (rev (map point_event (take (nat (normalize_limit (pf_Limit f)))
       (slice_sort newer_point (filter (point_row_matches f) (pg_points t)))))))"

definition Postgres_PendingEvents :: "'j codec \<Rightarrow> 'j Postgres \<Rightarrow> int \<Rightarrow> (store_error, SignalEvent list) result" where
  "Postgres_PendingEvents c db limit = db_query db (\<lambda>t.
     scanEvents c (take (nat (if limit \<le> 0 \<or> 1000 < limit then 100 else limit))
       (sort_key or_cursor (filter (\<lambda>r. \<not> or_published r) (pg_outbox t)))))"

definition mark_rows :: "int list \<Rightarrow> 'j tables \<Rightarrow> 'j tables" where
  "mark_rows cursors t =
     t\<lparr>pg_outbox := map (\<lambda>r. if or_cursor r \<in> set cursors then r\<lparr>or_published := True\<rparr> else r) (pg_outbox t)\<rparr>"

definition Postgres_MarkPublished :: "'j Postgres \<Rightarrow> int list \<Rightarrow> (store_error, unit) result \<times> 'j Postgres" where
  "Postgres_MarkPublished db cursors =
     (if cursors = [] then (Inr (), db) else transact (\<lambda>t. (Inr (), mark_rows cursors t)) db)"

definition postgres_ops :: "'j codec \<Rightarrow> 'j Postgres store_ops" where
  "postgres_ops c = \<lparr>LoadRecovery = Postgres_LoadRecovery c, RebuildSeries = Postgres_RebuildSeries c,
     CommitClosed = Postgres_CommitClosed c, MarkPublished = Postgres_MarkPublished\<rparr>"

definition SortEvents :: "SignalEvent list \<Rightarrow> SignalEvent list" where
  "SortEvents events = slice_sort (\<lambda>a b. ev_Cursor a < ev_Cursor b) events"

subsection \<open>What the statements change\<close>

text \<open>The outbox is in the order of its cursors, all drawn from the sequence, and event identities are unique.\<close>

definition pg_wf :: "'j tables \<Rightarrow> bool" where
  "pg_wf t \<longleftrightarrow> 0 \<le> pg_next t \<and> sorted_wrt (<) (map or_cursor (pg_outbox t)) \<and>
     (\<forall>r \<in> set (pg_outbox t). 0 < or_cursor r \<and> or_cursor r \<le> pg_next t) \<and> distinct (map or_event_id (pg_outbox t))"

lemma persist_frame:
  assumes "Postgres_persistEventState c e t = Inr t'"
  shows "pg_next t' = pg_next t" "pg_outbox t' = pg_outbox t" "pg_cursors t' = pg_cursors t" "pg_snapshots t' = pg_snapshots t"
    "algorithm_text c (ev_Algorithm e)"
  using assms
  by (auto simp: Postgres_persistEventState_def insertPoint_def upsertMarketState_def Let_def split: if_splits option.splits)

lemma upsert_snapshots_frame:
  "upsert_snapshots c key snaps t = Inr t' \<Longrightarrow> pg_next t' = pg_next t \<and> pg_outbox t' = pg_outbox t \<and> pg_cursors t' = pg_cursors t \<and>
     pg_points t' = pg_points t \<and> pg_markets t' = pg_markets t"
  by (induction snaps arbitrary: t) (auto simp: upsertSnapshot_def Let_def split: sum.splits option.splits if_splits)

lemma upsertCursor_frame:
  "upsertCursor c key bar t = Inr t' \<Longrightarrow> t' = t\<lparr>pg_cursors := AList.update key (cd_time c (bar_OpenTime bar), barHash bar) (pg_cursors t)\<rparr>"
  by (auto simp: upsertCursor_def Let_def split: option.splits if_splits)

text \<open>A row that stands for an event.\<close>

definition row_of :: "'j codec \<Rightarrow> SignalEvent \<Rightarrow> int \<Rightarrow> 'j outbox_row \<Rightarrow> bool" where
  "row_of c event period r \<longleftrightarrow> or_event_id r = ev_EventID event \<and> or_dataset r = ev_Dataset event \<and> or_symbol r = ev_Symbol event \<and>
     or_timeframe r = ev_Timeframe event \<and> or_period r = period \<and> or_event_type r = ev_EventType event \<and>
     cd_event c event = Some (or_payload r) \<and> event_text c event \<and> cd_text c (ev_EventType event) \<and> \<not> or_published r"

lemma insert_outbox_cases:
  assumes "insert_outbox c event period t = (r, t')"
  obtains (refused) e where "r = Inl e" "t' = t"
    | (existing) row where "r = Inr (or_cursor row)" "row \<in> set (pg_outbox t)" "or_event_id row = ev_EventID event"
        "t' = t\<lparr>pg_next := pg_next t + 1\<rparr>"
    | (appended) row where "r = Inr (or_cursor row)" "row_of c event period row" "or_cursor row = pg_next t + 1"
        "ev_EventID event \<notin> set (map or_event_id (pg_outbox t))" "t' = t\<lparr>pg_next := pg_next t + 1, pg_outbox := pg_outbox t @ [row]\<rparr>"
proof (cases "\<exists>payload. cd_event c event = Some payload \<and> event_text c event \<and> cd_text c (ev_EventType event) \<and> fits_integer period")
  case False
  with assms refused show thesis by (auto simp: insert_outbox_def split: option.splits if_splits)
next
  case True
  then obtain payload where j: "cd_event c event = Some payload" "event_text c event" "cd_text c (ev_EventType event)" "fits_integer period"
    by blast
  show thesis
  proof (cases "find (\<lambda>r. or_event_id r = ev_EventID event) (pg_outbox t)")
    case (Some row)
    then have "row \<in> set (pg_outbox t)" "or_event_id row = ev_EventID event" by (auto simp: find_Some_iff in_set_conv_nth)
    then show thesis using assms Some j by (intro existing [of row]) (simp_all add: insert_outbox_def Let_def)
  next
    case None
    then have "ev_EventID event \<notin> set (map or_event_id (pg_outbox t))" by (auto simp: find_None_iff)
    then show thesis using assms None j
      by (intro appended [of "last (pg_outbox t')"]) (auto simp: insert_outbox_def Let_def row_of_def)
  qed
qed

text \<open>
  How the tables grow: the cursors and checkpoints stay, and the outbox gains pending rows with fresh cursors, each for an
  event that was selected.
\<close>

definition grown :: "'j codec \<Rightarrow> (SignalEvent \<Rightarrow> int option) \<Rightarrow> SignalEvent list \<Rightarrow> 'j tables \<Rightarrow> 'j tables \<Rightarrow> bool" where
  "grown c sel events t t' \<longleftrightarrow> pg_cursors t' = pg_cursors t \<and> pg_snapshots t' = pg_snapshots t \<and> pg_next t \<le> pg_next t' \<and>
     (pg_wf t \<longrightarrow> pg_wf t') \<and> (\<exists>new. pg_outbox t' = pg_outbox t @ new \<and> (\<forall>row \<in> set new. pg_next t < or_cursor row \<and>
       (\<exists>e \<in> set events. \<exists>p. sel e = Some p \<and> algorithm_text c (ev_Algorithm e) \<and> row_of c e p row)))"

lemma grown_refl [simp]: "grown c sel events t t"
  by (auto simp: grown_def intro: exI [of _ "[]"])

lemma grown_trans:
  assumes "grown c sel xs t1 t2" and "grown c sel ys t2 t3" and "set xs \<subseteq> set zs" and "set ys \<subseteq> set zs"
  shows "grown c sel zs t1 t3"
proof -
  obtain n1 where 1: "pg_outbox t2 = pg_outbox t1 @ n1" "\<forall>row \<in> set n1. pg_next t1 < or_cursor row \<and>
      (\<exists>e \<in> set xs. \<exists>p. sel e = Some p \<and> algorithm_text c (ev_Algorithm e) \<and> row_of c e p row)"
    using assms(1) by (auto simp: grown_def)
  obtain n2 where 2: "pg_outbox t3 = pg_outbox t2 @ n2" "\<forall>row \<in> set n2. pg_next t2 < or_cursor row \<and>
      (\<exists>e \<in> set ys. \<exists>p. sel e = Some p \<and> algorithm_text c (ev_Algorithm e) \<and> row_of c e p row)"
    using assms(2) by (auto simp: grown_def)
  have le: "pg_next t1 \<le> pg_next t2" using assms(1) by (simp add: grown_def)
  have "\<forall>row \<in> set (n1 @ n2). pg_next t1 < or_cursor row \<and>
      (\<exists>e \<in> set zs. \<exists>p. sel e = Some p \<and> algorithm_text c (ev_Algorithm e) \<and> row_of c e p row)"
  proof
    fix row
    assume "row \<in> set (n1 @ n2)"
    then consider "row \<in> set n1" | "row \<in> set n2" by auto
    then show "pg_next t1 < or_cursor row \<and> (\<exists>e \<in> set zs. \<exists>p. sel e = Some p \<and> algorithm_text c (ev_Algorithm e) \<and> row_of c e p row)"
    proof cases
      case 1
      with \<open>\<forall>row \<in> set n1. _\<close> assms(3) show ?thesis by blast
    next
      case 2
      with \<open>\<forall>row \<in> set n2. _\<close> have "pg_next t2 < or_cursor row" by blast
      with 2 \<open>\<forall>row \<in> set n2. _\<close> assms(4) le show ?thesis by (meson le_less_trans subsetD)
    qed
  qed
  moreover have "pg_outbox t3 = pg_outbox t1 @ n1 @ n2" using 1(1) 2(1) by simp
  ultimately have "\<exists>new. pg_outbox t3 = pg_outbox t1 @ new \<and> (\<forall>row \<in> set new. pg_next t1 < or_cursor row \<and>
      (\<exists>e \<in> set zs. \<exists>p. sel e = Some p \<and> algorithm_text c (ev_Algorithm e) \<and> row_of c e p row))"
    by (intro exI [of _ "n1 @ n2"] conjI)
  moreover have "pg_cursors t3 = pg_cursors t1 \<and> pg_snapshots t3 = pg_snapshots t1 \<and> pg_next t1 \<le> pg_next t3 \<and> (pg_wf t1 \<longrightarrow> pg_wf t3)"
    using assms(1,2) by (simp add: grown_def)
  ultimately show ?thesis unfolding grown_def by simp
qed

lemma persist_grown: "Postgres_persistEventState c e t = Inr t' \<Longrightarrow> grown c sel events t t'"
  using persist_frame [of c e t t'] by (auto simp: grown_def pg_wf_def intro: exI [of _ "[]"])

lemma insert_outbox_grown:
  assumes "insert_outbox c event p t = (r, t')" and "sel event = Some p" and "algorithm_text c (ev_Algorithm event)"
  shows "grown c sel [event] t t'"
  using assms(1)
proof (cases rule: insert_outbox_cases)
  case (existing row)
  then show ?thesis by (auto simp: grown_def pg_wf_def intro!: exI [of _ "[]"])
next
  case (appended row)
  then have "pg_wf t \<Longrightarrow> pg_wf t'" by (fastforce simp: pg_wf_def sorted_wrt_append row_of_def)
  with appended assms(2,3) show ?thesis by (auto simp: grown_def intro!: exI [of _ "[row]"])
qed simp

text \<open>One round of the loop.\<close>

lemma event_loop_cases:
  assumes "event_loop c sel (event # events) t = (r, t')"
  obtains (unstored) e where "r = Inl e" "t' = t"
    | (skipped) t1 where "Postgres_persistEventState c event t = Inr t1" "sel event = None" "event_loop c sel events t1 = (r, t')"
    | (refused) t1 p e where "Postgres_persistEventState c event t = Inr t1" "sel event = Some p"
        "insert_outbox c event p t1 = (Inl e, t')" "r = Inl e"
    | (inserted) t1 p cursor t2 r3 where "Postgres_persistEventState c event t = Inr t1" "sel event = Some p"
        "insert_outbox c event p t1 = (Inr cursor, t2)" "event_loop c sel events t2 = (r3, t')"
        "r = (case r3 of Inl e \<Rightarrow> Inl e | Inr committed \<Rightarrow> Inr (event\<lparr>ev_Cursor := cursor\<rparr> # committed))"
proof (cases "Postgres_persistEventState c event t")
  case (Inl e)
  with assms show thesis by (intro unstored [of e]) simp_all
next
  case t1: (Inr t1)
  show thesis
  proof (cases "sel event")
    case None
    with assms t1 skipped show thesis by simp
  next
    case (Some p)
    obtain q t2 where 2: "insert_outbox c event p t1 = (q, t2)" by fastforce
    obtain r3 t3 where 3: "event_loop c sel events t2 = (r3, t3)" by fastforce
    show thesis
    proof (cases q)
      case (Inl e)
      with assms t1 Some 2 show thesis by (intro refused [of t1 p e]) simp_all
    next
      case (Inr cursor)
      with assms t1 Some 2 3 show thesis by (intro inserted [of t1 p cursor t2 r3]) (auto split: sum.splits)
    qed
  qed
qed

lemma event_loop_grown: "event_loop c sel events t = (r, t') \<Longrightarrow> grown c sel events t t'"
proof (induction events arbitrary: t r)
  case (Cons event events)
  from Cons.prems show ?case
  proof (cases rule: event_loop_cases)
    case (skipped t1)
    show ?thesis by (rule grown_trans [OF persist_grown [OF skipped(1), of sel "[]"] Cons.IH [OF skipped(3)]]) auto
  next
    case (refused t1 p e)
    show ?thesis
      by (rule grown_trans [OF persist_grown [OF refused(1), of sel "[]"] insert_outbox_grown [where sel = sel, OF refused(3,2) persist_frame(5) [OF refused(1)]]]) auto
  next
    case (inserted t1 p cursor t2 r3)
    have "grown c sel [event] t t2"
      by (rule grown_trans [OF persist_grown [OF inserted(1), of sel "[]"] insert_outbox_grown [where sel = sel, OF inserted(3,2) persist_frame(5) [OF inserted(1)]]]) auto
    from grown_trans [OF this Cons.IH [OF inserted(4)], of "event # events"] show ?thesis by auto
  qed simp
qed simp

lemma event_loop_committed:
  "event_loop c sel events t = (Inr committed, t') \<Longrightarrow>
     map (\<lambda>e. e\<lparr>ev_Cursor := 0\<rparr>) committed = map (\<lambda>e. e\<lparr>ev_Cursor := 0\<rparr>) (filter (\<lambda>e. sel e \<noteq> None) events) \<and>
     (\<forall>e \<in> set committed. \<exists>row \<in> set (pg_outbox t'). or_event_id row = ev_EventID e \<and> or_cursor row = ev_Cursor e)"
proof (induction events arbitrary: t committed)
  case (Cons event events)
  from Cons.prems show ?case
  proof (cases rule: event_loop_cases)
    case (skipped t1)
    with Cons.IH [OF skipped(3)] show ?thesis by simp
  next
    case (inserted t1 p cursor t2 r3)
    then obtain cs where cs: "r3 = Inr cs" "committed = event\<lparr>ev_Cursor := cursor\<rparr> # cs" by (auto split: sum.splits)
    obtain new where "pg_outbox t' = pg_outbox t2 @ new" using event_loop_grown [OF inserted(4)] by (auto simp: grown_def)
    moreover have "\<exists>row \<in> set (pg_outbox t2). or_event_id row = ev_EventID event \<and> or_cursor row = cursor"
      using inserted(3) by (cases rule: insert_outbox_cases) (auto simp: row_of_def)
    ultimately have "\<exists>row \<in> set (pg_outbox t'). or_event_id row = ev_EventID event \<and> or_cursor row = cursor" by auto
    with Cons.IH [OF inserted(4) [unfolded cs(1)]] inserted(2) show ?thesis by (simp add: cs(2))
  qed simp_all
qed simp

end
