(* ===== verification/Postgres_Properties.thy ===== *)
theory Postgres_Properties
  imports Postgres
begin

text \<open>
  What the PostgreSQL store guarantees: the invariant of its tables under every ending of a transaction, the outcomes of a commit,
  retries after a lost acknowledgement, delivery from its outbox, pages of its log, and the order of its advisory locks.
\<close>

subsection \<open>Endings of a transaction\<close>

lemma transact_fates [simp]: "db_fates (snd (transact body db)) = tl (db_fates db)"
  by (simp add: transact_def Let_def split: fate.splits prod.splits sum.splits)

lemma transact_cases:
  assumes "transact body db = (r, db')" and "body (db_tables db) = (r0, t0)" and "pg_next (db_tables db) \<le> pg_next t0"
  obtains (committed) x where "r0 = Inr x" "r = Inr x" "db_tables db' = t0"
    | (unacknowledged) x where "r0 = Inr x" "r = Inl lost" "db_tables db' = t0"
    | (undone) e n where "r = Inl e" "db_tables db' = (db_tables db)\<lparr>pg_next := n\<rparr>" "pg_next (db_tables db) \<le> n"
proof -
  define fate where "fate = (case db_fates db of [] \<Rightarrow> Completed | f # _ \<Rightarrow> f)"
  note d = assms(1) [unfolded transact_def Let_def fate_def [symmetric] assms(2) prod.case]
  show thesis
  proof (cases fate)
    case Completed
    then show thesis using d assms(3) committed undone by (cases r0) (auto simp: rolled_back_def)
  next
    case (Aborted n)
    have "min (pg_next (db_tables db) + int n) (pg_next t0) \<ge> pg_next (db_tables db)" using assms(3) by simp
    with Aborted d show thesis by (intro undone [of lost "min (pg_next (db_tables db) + int n) (pg_next t0)"]) auto
  next
    case Unacknowledged
    then show thesis using d assms(3) unacknowledged undone by (cases r0) (auto simp: rolled_back_def)
  qed
qed

subsection \<open>The bodies of the transactions\<close>

lemma finish_series_cases:
  assumes "finish_series c key snaps lastBar (event_loop c sel events t) = (r, t')"
  obtains (refused) e where "r = Inl e" "pg_next t \<le> pg_next t'"
    | (finished) cs t1 t2 where "event_loop c sel events t = (Inr cs, t1)" "upsert_snapshots c key snaps t1 = Inr t2" "r = Inr cs"
        "case lastBar of None \<Rightarrow> t' = t2 | Some bar \<Rightarrow> upsertCursor c key bar t2 = Inr t'"
proof -
  obtain q t1 where 1: "event_loop c sel events t = (q, t1)" by fastforce
  have n: "pg_next t \<le> pg_next t1" using event_loop_grown [OF 1] by (simp add: grown_def)
  show thesis
  proof (cases q)
    case (Inl e)
    with assms 1 n show thesis by (intro refused [of e]) (auto simp: finish_series_def)
  next
    case cs: (Inr cs)
    show thesis
    proof (cases "upsert_snapshots c key snaps t1")
      case (Inl e)
      with assms 1 cs n show thesis by (intro refused [of e]) (auto simp: finish_series_def)
    next
      case t2: (Inr t2)
      have n2: "pg_next t2 = pg_next t1" using upsert_snapshots_frame [OF t2] by simp
      show thesis
      proof (cases lastBar)
        case None
        with assms 1 cs t2 show thesis by (intro finished [of cs t1 t2]) (auto simp: finish_series_def)
      next
        case (Some bar)
        show thesis
        proof (cases "upsertCursor c key bar t2")
          case (Inl e)
          with assms 1 cs t2 Some n n2 show thesis by (intro refused [of e]) (auto simp: finish_series_def)
        next
          case (Inr t3)
          with assms 1 cs t2 Some show thesis by (intro finished [of cs t1 t2]) (auto simp: finish_series_def)
        qed
      qed
    qed
  qed
qed

text \<open>A transaction that succeeds, whichever it is.\<close>

definition progressed :: "'j codec \<Rightarrow> (SignalEvent \<Rightarrow> int option) \<Rightarrow> SignalEvent list \<Rightarrow> SeriesKey \<Rightarrow> Bar option \<Rightarrow> 'j tables \<Rightarrow>
    SignalEvent list \<Rightarrow> 'j tables \<Rightarrow> bool" where
  "progressed c sel events key lastBar t cs t' \<longleftrightarrow>
     pg_next t \<le> pg_next t' \<and> (pg_wf t \<longrightarrow> pg_wf t') \<and>
     (\<exists>new. pg_outbox t' = pg_outbox t @ new \<and> (\<forall>row \<in> set new. pg_next t < or_cursor row \<and>
       (\<exists>e \<in> set events. \<exists>p. sel e = Some p \<and> algorithm_text c (ev_Algorithm e) \<and> row_of c e p row))) \<and>
     map (\<lambda>e. e\<lparr>ev_Cursor := 0\<rparr>) cs = map (\<lambda>e. e\<lparr>ev_Cursor := 0\<rparr>) (filter (\<lambda>e. sel e \<noteq> None) events) \<and>
     (\<forall>e \<in> set cs. \<exists>row \<in> set (pg_outbox t'). or_event_id row = ev_EventID e \<and> or_cursor row = ev_Cursor e) \<and>
     (case lastBar of
        None \<Rightarrow> pg_cursors t' = pg_cursors t
      | Some bar \<Rightarrow> pg_cursors t' = AList.update key (cd_time c (bar_OpenTime bar), barHash bar) (pg_cursors t) \<and>
          (\<forall>old h. map_of (pg_cursors t) key = Some (old, h) \<longrightarrow> old \<le> cd_time c (bar_OpenTime bar)))"

lemma progressed_rows:
  assumes "progressed c sel events key lastBar t cs t'"
  obtains new where "pg_outbox t' = pg_outbox t @ new" "\<forall>row \<in> set new. pg_next t < or_cursor row \<and>
      (\<exists>e \<in> set events. \<exists>p. sel e = Some p \<and> algorithm_text c (ev_Algorithm e) \<and> row_of c e p row)"
  using assms unfolding progressed_def by (elim conjE exE) (rule that)

lemma finish_series_progressed:
  assumes "finish_series c key snaps lastBar (event_loop c sel events t) = (Inr cs, t')"
  shows "progressed c sel events key lastBar t cs t'"
  using assms
proof (cases rule: finish_series_cases)
  case (finished cs' t1 t2)
  have cs: "cs' = cs" using finished(3) by simp
  have g: "grown c sel events t t1" by (rule event_loop_grown [OF finished(1)])
  note f = upsert_snapshots_frame [OF finished(2)]
  have k: "pg_next t' = pg_next t1 \<and> pg_outbox t' = pg_outbox t1 \<and> (case lastBar of
        None \<Rightarrow> pg_cursors t' = pg_cursors t1
      | Some bar \<Rightarrow> pg_cursors t' = AList.update key (cd_time c (bar_OpenTime bar), barHash bar) (pg_cursors t1) \<and>
          (\<forall>old h. map_of (pg_cursors t1) key = Some (old, h) \<longrightarrow> old \<le> cd_time c (bar_OpenTime bar)))"
    using finished(4) f by (auto simp: upsertCursor_def Let_def split: option.splits if_splits)
  then have "pg_wf t' \<longleftrightarrow> pg_wf t1" by (simp add: pg_wf_def)
  with g k event_loop_committed [OF finished(1) [unfolded cs]] show ?thesis
    unfolding progressed_def grown_def by (simp split: option.splits)
qed simp

lemma commit_closed_cases:
  assumes "commit_closed c key bar events snaps t = (r, t')"
  obtains (refused) e where "r = Inl e" "pg_next t \<le> pg_next t'"
    | (duplicate) "r = Inr []" "t' = t" "map_of (pg_cursors t) key = Some (bar_OpenTime bar, barHash bar)"
    | (progress) cs where "r = Inr cs" "progressed c commit_period events key (Some bar) t cs t'" "key_text c key"
        "\<forall>old h. map_of (pg_cursors t) key = Some (old, h) \<longrightarrow> old < bar_OpenTime bar"
        "finish_series c key snaps (Some bar) (event_loop c commit_period events t) = (r, t')"
proof -
  have go: thesis if "finish_series c key snaps (Some bar) (event_loop c commit_period events t) = (r, t')" "key_text c key"
      "\<forall>old h. map_of (pg_cursors t) key = Some (old, h) \<longrightarrow> old < bar_OpenTime bar"
  proof (cases r)
    case (Inl e)
    with that(1) have "pg_next t \<le> pg_next t'" by (auto elim: finish_series_cases)
    with Inl show thesis by (rule refused)
  next
    case (Inr cs)
    with that finish_series_progressed show thesis by (intro progress [of cs]) auto
  qed
  show thesis
  proof (cases "map_of (pg_cursors t) key")
    case None
    with assms go refused show thesis by (auto simp: commit_closed_def Let_def split: if_splits)
  next
    case (Some p)
    then obtain old h where p: "map_of (pg_cursors t) key = Some (old, h)" by (cases p) auto
    show thesis
    proof (cases "key_text c key \<and> old < bar_OpenTime bar")
      case True
      with assms go p show thesis by (simp add: commit_closed_def Let_def)
    next
      case False
      with assms p have "(\<exists>e. r = Inl e \<and> t' = t) \<or> (r = Inr [] \<and> t' = t \<and> old = bar_OpenTime bar \<and> h = barHash bar)"
        by (auto simp: commit_closed_def Let_def split: if_splits)
      then show thesis using refused duplicate p by auto
    qed
  qed
qed

lemma rebuild_series_cases:
  assumes "rebuild_series c key events snaps lastBar t = (r, t')"
  obtains (refused) e where "r = Inl e" "pg_next t \<le> pg_next t'"
    | (progress) cs where "r = Inr cs" "progressed c reset_period events key lastBar t cs t'"
proof (cases "key_text c key")
  case False
  with assms refused show thesis by (auto simp: rebuild_series_def)
next
  case True
  then have f: "finish_series c key snaps lastBar (event_loop c reset_period events (delete_series key t)) = (r, t')"
    using assms by (simp add: rebuild_series_def)
  have d: "pg_next (delete_series key t) = pg_next t" "pg_outbox (delete_series key t) = pg_outbox t"
      "pg_cursors (delete_series key t) = pg_cursors t" by (simp_all add: delete_series_def)
  then have wf: "pg_wf (delete_series key t) \<longleftrightarrow> pg_wf t" by (simp add: pg_wf_def)
  show thesis
  proof (cases r)
    case (Inl e)
    with f d(1) have "pg_next t \<le> pg_next t'" by (auto elim: finish_series_cases)
    with Inl show thesis by (rule refused)
  next
    case (Inr cs)
    with f have "progressed c reset_period events key lastBar (delete_series key t) cs t'" using finish_series_progressed by blast
    then have "progressed c reset_period events key lastBar t cs t'" unfolding progressed_def d wf .
    with Inr show thesis by (rule progress)
  qed
qed

subsection \<open>Reachable tables\<close>

text \<open>
  What is relied on of the driver and the database: a stored event reads back with the fields it is filed under.
\<close>

definition faithful :: "'j codec \<Rightarrow> bool" where
  "faithful c \<longleftrightarrow> (\<forall>e j. cd_event c e = Some j \<and> event_text c e \<and> cd_text c (ev_EventType e) \<and> algorithm_text c (ev_Algorithm e) \<longrightarrow>
     (\<exists>e'. cd_decode c j = Some e' \<and> ev_EventID e' = ev_EventID e \<and> ev_Dataset e' = ev_Dataset e \<and> ev_Symbol e' = ev_Symbol e \<and>
        ev_Timeframe e' = ev_Timeframe e \<and> ev_EventType e' = ev_EventType e \<and> eventPeriod e' = eventPeriod e \<and>
        alg_Name (ev_Algorithm e') = alg_Name (ev_Algorithm e) \<and> cd_algorithm c j = alg_Name (ev_Algorithm e)))"

text \<open>The columns of a row are those of the event its payload holds.\<close>

definition row_event :: "'j codec \<Rightarrow> 'j outbox_row \<Rightarrow> SignalEvent" where
  "row_event c r = (the (cd_decode c (or_payload r)))\<lparr>ev_Cursor := or_cursor r\<rparr>"

definition row_inv :: "'j codec \<Rightarrow> 'j outbox_row \<Rightarrow> bool" where
  "row_inv c r \<longleftrightarrow> cd_decode c (or_payload r) \<noteq> None \<and> or_event_id r = ev_EventID (row_event c r) \<and>
     or_dataset r = ev_Dataset (row_event c r) \<and> or_symbol r = ev_Symbol (row_event c r) \<and> or_timeframe r = ev_Timeframe (row_event c r) \<and>
     or_period r = eventPeriod (row_event c r) \<and> or_event_type r = ev_EventType (row_event c r) \<and>
     cd_algorithm c (or_payload r) = alg_Name (ev_Algorithm (row_event c r))"

lemma row_of_inv:
  assumes "row_of c e (eventPeriod e) r" and "faithful c" and "algorithm_text c (ev_Algorithm e)"
  shows "row_inv c r"
proof -
  have "cd_event c e = Some (or_payload r)" "event_text c e" "cd_text c (ev_EventType e)" using assms(1) by (simp_all add: row_of_def)
  with assms(2,3) obtain e' where "cd_decode c (or_payload r) = Some e'" "ev_EventID e' = ev_EventID e" "ev_Dataset e' = ev_Dataset e"
      "ev_Symbol e' = ev_Symbol e" "ev_Timeframe e' = ev_Timeframe e" "ev_EventType e' = ev_EventType e" "eventPeriod e' = eventPeriod e"
      "alg_Name (ev_Algorithm e') = alg_Name (ev_Algorithm e)" "cd_algorithm c (or_payload r) = alg_Name (ev_Algorithm e)"
    unfolding faithful_def by blast
  with assms(1) show ?thesis by (simp add: row_inv_def row_event_def row_of_def eventPeriod_def)
qed

definition tables_inv :: "'j codec \<Rightarrow> 'j tables \<Rightarrow> bool" where
  "tables_inv c t \<longleftrightarrow> pg_wf t \<and> (faithful c \<longrightarrow> (\<forall>r \<in> set (pg_outbox t). row_inv c r))"

lemma tables_inv_sequence: "tables_inv c t \<Longrightarrow> pg_next t \<le> n \<Longrightarrow> tables_inv c (t\<lparr>pg_next := n\<rparr>)"
  by (fastforce simp: tables_inv_def pg_wf_def)

lemma progressed_inv:
  assumes "progressed c sel events key lastBar t cs t'" and "tables_inv c t" and "\<And>e p. e \<in> set events \<Longrightarrow> sel e = Some p \<Longrightarrow> p = eventPeriod e"
  shows "tables_inv c t'"
proof -
  obtain new where new: "pg_outbox t' = pg_outbox t @ new" "\<forall>row \<in> set new. pg_next t < or_cursor row \<and>
      (\<exists>e \<in> set events. \<exists>p. sel e = Some p \<and> algorithm_text c (ev_Algorithm e) \<and> row_of c e p row)"
    using assms(1) by (rule progressed_rows)
  have "row_inv c row" if "row \<in> set new" "faithful c" for row
  proof -
    obtain e p where "e \<in> set events" "sel e = Some p" "algorithm_text c (ev_Algorithm e)" "row_of c e p row"
      using new(2) \<open>row \<in> set new\<close> by blast
    with assms(3) have "row_of c e (eventPeriod e) row" "algorithm_text c (ev_Algorithm e)" by auto
    with that(2) show ?thesis using row_of_inv by blast
  qed
  moreover have "pg_wf t'" using assms(1,2) by (simp add: progressed_def tables_inv_def)
  ultimately show ?thesis using assms(2) new(1) by (auto simp: tables_inv_def)
qed

text \<open>
  The steps of the store: the three operations that write, under every fate. The events that a lane resets are market events,
  which have no indicator.
\<close>

inductive pg_step :: "'j codec \<Rightarrow> 'j Postgres \<Rightarrow> 'j Postgres \<Rightarrow> bool" for c where
  commit: "Postgres_CommitClosed c db key bar events snaps = (r, db') \<Longrightarrow> pg_step c db db'"
| rebuild: "Postgres_RebuildSeries c db key events snaps lastBar = (r, db') \<Longrightarrow>
    \<forall>e \<in> set events. ev_Reset e \<longrightarrow> ev_Indicator e = None \<Longrightarrow> pg_step c db db'"
| mark: "Postgres_MarkPublished db cursors = (r', db') \<Longrightarrow> pg_step c db db'"
| fates: "pg_step c db (db\<lparr>db_fates := fs\<rparr>)"

lemma Postgres_CommitClosed_cases:
  assumes "Postgres_CommitClosed c db key bar events snaps = (r, db')"
  obtains (effect) x t where "commit_closed c key bar events snaps (db_tables db) = (Inr x, t)" "db_tables db' = t" "r = Inr x \<or> r = Inl lost"
    | (undone) e n where "r = Inl e" "db_tables db' = (db_tables db)\<lparr>pg_next := n\<rparr>" "pg_next (db_tables db) \<le> n"
proof -
  obtain r0 t0 where 0: "commit_closed c key bar events snaps (db_tables db) = (r0, t0)" by fastforce
  then have n: "pg_next (db_tables db) \<le> pg_next t0" by (cases rule: commit_closed_cases) (auto simp: progressed_def)
  from assms [unfolded Postgres_CommitClosed_def] 0 n show thesis
    by (cases rule: transact_cases) (use effect undone 0 in auto)
qed

lemma Postgres_RebuildSeries_cases:
  assumes "Postgres_RebuildSeries c db key events snaps lastBar = (r, db')"
  obtains (effect) x t where "rebuild_series c key events snaps lastBar (db_tables db) = (Inr x, t)" "db_tables db' = t" "r = Inr x \<or> r = Inl lost"
    | (undone) e n where "r = Inl e" "db_tables db' = (db_tables db)\<lparr>pg_next := n\<rparr>" "pg_next (db_tables db) \<le> n"
proof -
  obtain r0 t0 where 0: "rebuild_series c key events snaps lastBar (db_tables db) = (r0, t0)" by fastforce
  then have n: "pg_next (db_tables db) \<le> pg_next t0" by (cases rule: rebuild_series_cases) (auto simp: progressed_def)
  from assms [unfolded Postgres_RebuildSeries_def] 0 n show thesis
    by (cases rule: transact_cases) (use effect undone 0 in auto)
qed

lemma Postgres_MarkPublished_cases:
  assumes "Postgres_MarkPublished db cursors = (r, db')"
  obtains (effect) "db_tables db' = mark_rows cursors (db_tables db)" "r = Inr () \<or> r = Inl lost"
    | (undone) e where "r = Inl e" "db_tables db' = db_tables db"
proof (cases "cursors = []")
  case True
  then have "mark_rows cursors (db_tables db) = db_tables db" by (simp add: mark_rows_def)
  with True assms effect show thesis by (auto simp: Postgres_MarkPublished_def)
next
  case False
  then have t: "transact (\<lambda>t. (Inr (), mark_rows cursors t)) db = (r, db')" using assms by (simp add: Postgres_MarkPublished_def)
  have "pg_next (mark_rows cursors (db_tables db)) = pg_next (db_tables db)" by (simp add: mark_rows_def)
  then show thesis using t effect undone
    by (auto simp: transact_def Let_def split: fate.splits)
qed

lemma mark_rows_columns:
  "map or_cursor (pg_outbox (mark_rows cs t)) = map or_cursor (pg_outbox t)"
  "map or_event_id (pg_outbox (mark_rows cs t)) = map or_event_id (pg_outbox t)" "pg_next (mark_rows cs t) = pg_next t"
  by (simp_all add: mark_rows_def)

lemma row_event_published [simp]: "row_event c (r\<lparr>or_published := b\<rparr>) = row_event c r" "row_inv c (r\<lparr>or_published := b\<rparr>) = row_inv c r"
  by (simp_all add: row_event_def row_inv_def)

text \<open>Tables whose every payload reads back.\<close>

definition readable :: "'j codec \<Rightarrow> 'j tables \<Rightarrow> bool" where
  "readable c t \<longleftrightarrow> pg_wf t \<and> (\<forall>r \<in> set (pg_outbox t). row_inv c r)"

lemma mark_rows_inv: "pg_wf t \<Longrightarrow> pg_wf (mark_rows cs t)" "readable c t \<Longrightarrow> readable c (mark_rows cs t)"
proof -
  have "\<forall>r \<in> set (pg_outbox (mark_rows cs t)). \<exists>r0 \<in> set (pg_outbox t). or_cursor r = or_cursor r0 \<and> row_inv c r = row_inv c r0"
    by (auto simp: mark_rows_def)
  then show "pg_wf t \<Longrightarrow> pg_wf (mark_rows cs t)" "readable c t \<Longrightarrow> readable c (mark_rows cs t)"
    unfolding readable_def pg_wf_def mark_rows_columns by metis+
qed

lemma tables_inv_readable: "tables_inv c t \<longleftrightarrow> pg_wf t \<and> (faithful c \<longrightarrow> readable c t)"
  by (auto simp: tables_inv_def readable_def)

lemma pg_step_inv: "pg_step c db db' \<Longrightarrow> tables_inv c (db_tables db) \<Longrightarrow> tables_inv c (db_tables db')"
proof (induction rule: pg_step.induct)
  case (commit db key bar events snaps r db')
  from commit(1) show ?case
  proof (cases rule: Postgres_CommitClosed_cases)
    case (effect x t)
    from effect(1) show ?thesis
    proof (cases rule: commit_closed_cases)
      case duplicate
      with effect(2) commit(2) show ?thesis by simp
    next
      case (progress cs)
      with effect(2) progressed_inv [OF progress(2) commit(2)] show ?thesis by (auto simp: commit_period_def)
    qed simp
  next
    case (undone e n)
    with commit(2) tables_inv_sequence show ?thesis by simp
  qed
next
  case (rebuild db key events snaps lastBar r db')
  from rebuild(1) show ?case
  proof (cases rule: Postgres_RebuildSeries_cases)
    case (effect x t)
    from effect(1) show ?thesis
    proof (cases rule: rebuild_series_cases)
      case (progress cs)
      have "p = eventPeriod e" if "e \<in> set events" "reset_period e = Some p" for e p
        using that rebuild(2) by (auto simp: reset_period_def eventPeriod_def split: if_splits)
      with effect(2) progressed_inv [OF progress(2) rebuild(3)] show ?thesis by auto
    qed simp
  next
    case (undone e n)
    with rebuild(3) tables_inv_sequence show ?thesis by simp
  qed
next
  case (mark db cursors r' db')
  from mark(1) show ?case
    by (cases rule: Postgres_MarkPublished_cases) (use mark(2) mark_rows_inv in \<open>auto simp: tables_inv_readable\<close>)
qed simp

definition pg_start :: "'j Postgres \<Rightarrow> bool" where
  "pg_start db \<longleftrightarrow> db_tables db = empty_tables"

interpretation postgres: transition_system pg_start "pg_step c" "\<lambda>db. tables_inv c (db_tables db)" for c
  by unfold_locales (simp add: pg_start_def empty_tables_def tables_inv_def pg_wf_def, rule pg_step_inv)

subsection \<open>The log as the memory store would hold it\<close>

definition log_of :: "'j codec \<Rightarrow> 'j tables \<Rightarrow> Memory" where
  "log_of c t = NewMemory\<lparr>mem_next := pg_next t, mem_events := map (row_event c) (pg_outbox t),
     mem_published := (\<lambda>cursor. \<exists>r \<in> set (pg_outbox t). or_cursor r = cursor \<and> or_published r)\<rparr>"

lemma row_event_cursor [simp]: "ev_Cursor (row_event c r) = or_cursor r"
  by (simp add: row_event_def)

lemma scanEvents_rows: "\<forall>r \<in> set rows. cd_decode c (or_payload r) \<noteq> None \<Longrightarrow> scanEvents c rows = Inr (map (row_event c) rows)"
  by (induction rows) (auto simp: row_event_def)

lemma sorted_rows: "sorted_wrt (<) (map or_cursor rows) \<Longrightarrow> sort_key or_cursor (filter P rows) = filter P rows"
  by (intro sort_key_id_if_sorted) (auto simp: sorted_wrt_map sorted_wrt_filter intro: sorted_wrt_mono_rel [of _ "\<lambda>a b. or_cursor a < or_cursor b"])

lemma published_row:
  assumes "pg_wf t" and "r \<in> set (pg_outbox t)"
  shows "mem_published (log_of c t) (or_cursor r) \<longleftrightarrow> or_published r"
proof -
  have "distinct (map or_cursor (pg_outbox t))" using assms(1) by (simp add: pg_wf_def strict_sorted_iff)
  then have "r' = r" if "r' \<in> set (pg_outbox t)" "or_cursor r' = or_cursor r" for r'
    using that assms(2) by (meson distinct_map inj_onD)
  with assms(2) show ?thesis by (auto simp: log_of_def)
qed

lemma wf_log_of: "pg_wf t \<Longrightarrow> wf_memory (log_of c t)"
  by (fastforce simp: pg_wf_def wf_memory_def log_of_def NewMemory_def comp_def)

lemma row_matches_event: "row_inv c r \<Longrightarrow> row_matches c f r \<longleftrightarrow> event_matches f (row_event c r)"
  by (auto simp: row_matches_def event_matches_def row_inv_def)

lemma Postgres_QueryEvents_log:
  assumes "readable c (db_tables db)" and "db_fates db = []"
  shows "Postgres_QueryEvents c db f = Inr (Memory_QueryEvents (log_of c (db_tables db)) f)"
proof -
  let ?rows = "pg_outbox (db_tables db)" and ?n = "nat (normalize_limit (ef_Limit f))"
  have i: "sorted_wrt (<) (map or_cursor ?rows)" "\<forall>r \<in> set ?rows. row_inv c r" using assms(1) by (simp_all add: readable_def pg_wf_def)
  have "filter (row_matches c f) ?rows = filter (event_matches f \<circ> row_event c) ?rows"
    using i(2) row_matches_event by (intro filter_cong) auto
  then have "map (row_event c) (filter (row_matches c f) ?rows) = filter (event_matches f) (mem_events (log_of c (db_tables db)))"
    by (simp add: log_of_def filter_map)
  then have m: "map (row_event c) (take ?n (filter (row_matches c f) ?rows)) = Memory_QueryEvents (log_of c (db_tables db)) f"
    by (simp add: Memory_QueryEvents_def take_map [symmetric])
  have "scanEvents c (take ?n (filter (row_matches c f) ?rows)) = Inr (map (row_event c) (take ?n (filter (row_matches c f) ?rows)))"
    using i(2) by (intro scanEvents_rows) (auto simp: row_inv_def dest: in_set_takeD)
  with m show ?thesis by (simp add: Postgres_QueryEvents_def db_query_def assms(2) sorted_rows [OF i(1)])
qed

definition pg_backlog :: "'j codec \<Rightarrow> 'j Postgres \<Rightarrow> SignalEvent list" where
  "pg_backlog c db = map (row_event c) (filter (\<lambda>r. \<not> or_published r) (pg_outbox (db_tables db)))"

lemma pg_backlog_log: "pg_wf (db_tables db) \<Longrightarrow> pg_backlog c db = memory_backlog (log_of c (db_tables db))"
  using published_row [of "db_tables db" _ c]
  by (auto simp: pg_backlog_def memory_backlog_def log_of_def filter_map comp_def intro!: arg_cong [of _ _ "map _"] filter_cong)

lemma Postgres_PendingEvents_backlog:
  assumes "readable c (db_tables db)" and "0 < n" and "n \<le> 1000" and "Postgres_PendingEvents c db n = Inr events"
  shows "events = take (nat n) (pg_backlog c db)"
proof -
  let ?rows = "filter (\<lambda>r. \<not> or_published r) (pg_outbox (db_tables db))"
  have i: "sorted_wrt (<) (map or_cursor (pg_outbox (db_tables db)))" "\<forall>r \<in> set (pg_outbox (db_tables db)). row_inv c r"
    using assms(1) by (simp_all add: readable_def pg_wf_def)
  have "scanEvents c (take (nat n) ?rows) = Inr (map (row_event c) (take (nat n) ?rows))"
    using i(2) by (intro scanEvents_rows) (auto simp: row_inv_def dest: in_set_takeD)
  with assms(2-4) show ?thesis
    by (auto simp: Postgres_PendingEvents_def db_query_def sorted_rows [OF i(1)] pg_backlog_def take_map split: list.splits fate.splits)
qed

lemma mark_rows_backlog:
  assumes "db_tables db' = mark_rows cs (db_tables db)"
  shows "pg_backlog c db' = filter (\<lambda>e. ev_Cursor e \<notin> set cs) (pg_backlog c db)"
proof -
  have "map (row_event c) (filter (\<lambda>r. \<not> or_published r) (map (\<lambda>r. if or_cursor r \<in> set cs then r\<lparr>or_published := True\<rparr> else r) rows)) =
      filter (\<lambda>e. ev_Cursor e \<notin> set cs) (map (row_event c) (filter (\<lambda>r. \<not> or_published r) rows))" for rows :: "'a outbox_row list"
    by (induction rows) auto
  then show ?thesis by (simp add: pg_backlog_def assms mark_rows_def)
qed

lemma backlog_distinct: "pg_wf (db_tables db) \<Longrightarrow> distinct (map ev_Cursor (pg_backlog c db))"
  by (auto simp: pg_backlog_def comp_def pg_wf_def strict_sorted_iff intro: distinct_map_filter)

definition postgres_outbox :: "'j codec \<Rightarrow> 'j Postgres outbox_ops" where
  "postgres_outbox c = \<lparr>ob_PendingEvents = Postgres_PendingEvents c, ob_MarkPublished = Postgres_MarkPublished\<rparr>"

lemma postgres_outbox_simps [simp]:
  "ob_PendingEvents (postgres_outbox c) = Postgres_PendingEvents c" "ob_MarkPublished (postgres_outbox c) = Postgres_MarkPublished"
  by (simp_all add: postgres_outbox_def)

interpretation postgres_outbox: outbox_store "postgres_outbox c" "pg_backlog c" "\<lambda>db. readable c (db_tables db)" for c :: "'j codec"
proof unfold_locales
  fix s :: "'j Postgres" and cursors u s'
  assume good: "readable c (db_tables s)" and m: "ob_MarkPublished (postgres_outbox c) s cursors = (Inr u, s')"
  from m [unfolded postgres_outbox_simps] show "readable c (db_tables s') \<and> pg_backlog c s' = filter (\<lambda>e. ev_Cursor e \<notin> set cursors) (pg_backlog c s)"
    by (cases rule: Postgres_MarkPublished_cases) (auto simp: mark_rows_backlog mark_rows_inv good)
next
  fix s :: "'j Postgres" and cursors e s'
  assume good: "readable c (db_tables s)" and m: "ob_MarkPublished (postgres_outbox c) s cursors = (Inl e, s')"
  from m [unfolded postgres_outbox_simps] show "readable c (db_tables s') \<and>
      (pg_backlog c s' = pg_backlog c s \<or> pg_backlog c s' = filter (\<lambda>e. ev_Cursor e \<notin> set cursors) (pg_backlog c s))"
  proof (cases rule: Postgres_MarkPublished_cases)
    case effect
    then show ?thesis by (simp add: mark_rows_backlog mark_rows_inv good)
  next
    case (undone e)
    then show ?thesis by (simp add: pg_backlog_def good)
  qed
next
  show "\<And>s n events. readable c (db_tables s) \<Longrightarrow> 0 < n \<Longrightarrow> n \<le> 1000 \<Longrightarrow> ob_PendingEvents (postgres_outbox c) s n = Inr events \<Longrightarrow>
      events = take (nat n) (pg_backlog c s)"
    unfolding postgres_outbox_simps by (rule Postgres_PendingEvents_backlog)
qed (simp add: backlog_distinct readable_def)

lemma reachable_readable: "pg_start db0 \<Longrightarrow> (pg_step c)\<^sup>*\<^sup>* db0 db \<Longrightarrow> faithful c \<Longrightarrow> readable c (db_tables db)"
  using postgres.reachable_inv [of db0 c db] by (simp add: tables_inv_def readable_def)

end
