(* ===== verification/Postgres_Results.thy ===== *)
theory Postgres_Results
  imports Postgres_Properties Lane_Recovery
begin

text \<open>The properties of the PostgreSQL store as statements about its operations.\<close>

subsection \<open>Up to the numbers of the cursors\<close>

text \<open>Tables that differ only in how far the sequence is and in the cursors that were drawn from it.\<close>

definition alike :: "'j tables \<Rightarrow> 'j tables \<Rightarrow> bool" where
  "alike t u \<longleftrightarrow> pg_points t = pg_points u \<and> pg_markets t = pg_markets u \<and> pg_snapshots t = pg_snapshots u \<and> pg_cursors t = pg_cursors u \<and>
     map (\<lambda>r. r\<lparr>or_cursor := 0\<rparr>) (pg_outbox t) = map (\<lambda>r. r\<lparr>or_cursor := 0\<rparr>) (pg_outbox u)"

lemma alike_refl [simp]: "alike t t" "alike t (t\<lparr>pg_next := n\<rparr>)"
  by (simp_all add: alike_def)

lemma alike_ids:
  assumes "alike t u"
  shows "find (\<lambda>r. or_event_id r = i) (pg_outbox t) = None \<longleftrightarrow> find (\<lambda>r. or_event_id r = i) (pg_outbox u) = None"
proof -
  have "map or_event_id (map (\<lambda>r. r\<lparr>or_cursor := 0\<rparr>) rows) = map or_event_id rows" for rows :: "'a outbox_row list" by simp
  with assms have "map or_event_id (pg_outbox t) = map or_event_id (pg_outbox u)" unfolding alike_def by metis
  then have "or_event_id ` set (pg_outbox t) = or_event_id ` set (pg_outbox u)" by (metis set_map)
  then show ?thesis unfolding find_None_iff by (metis imageE imageI)
qed

lemma persist_alike:
  assumes "alike t u" and "Postgres_persistEventState c e t = Inr t'"
  shows "\<exists>u'. Postgres_persistEventState c e u = Inr u' \<and> alike t' u'"
  using assms
  by (auto simp: Postgres_persistEventState_def insertPoint_def upsertMarketState_def alike_def Let_def split: if_splits option.splits)

lemma insert_outbox_alike:
  assumes "alike t u" and "insert_outbox c e p t = (Inr x, t')"
  shows "\<exists>y u'. insert_outbox c e p u = (Inr y, u') \<and> alike t' u'"
  using assms alike_ids [OF assms(1), of "ev_EventID e"]
  by (cases "find (\<lambda>r. or_event_id r = ev_EventID e) (pg_outbox t)"; cases "find (\<lambda>r. or_event_id r = ev_EventID e) (pg_outbox u)")
    (auto simp: insert_outbox_def alike_def Let_def split: if_splits option.splits)

lemma event_loop_alike:
  "alike t u \<Longrightarrow> event_loop c sel events t = (Inr cs, t') \<Longrightarrow> \<exists>cs' u'. event_loop c sel events u = (Inr cs', u') \<and> alike t' u'"
proof (induction events arbitrary: t u cs)
  case (Cons event events)
  from Cons.prems(2) show ?case
  proof (cases rule: event_loop_cases)
    case (skipped t1)
    obtain u1 where "Postgres_persistEventState c event u = Inr u1" "alike t1 u1" using persist_alike [OF Cons.prems(1) skipped(1)] by blast
    with Cons.IH [OF _ skipped(3)] skipped(2) show ?thesis by auto
  next
    case (inserted t1 p cursor t2 r3)
    obtain u1 where u1: "Postgres_persistEventState c event u = Inr u1" "alike t1 u1" using persist_alike [OF Cons.prems(1) inserted(1)] by blast
    obtain y u2 where u2: "insert_outbox c event p u1 = (Inr y, u2)" "alike t2 u2" using insert_outbox_alike [OF u1(2) inserted(3)] by blast
    obtain cs3 where r3: "r3 = Inr cs3" using inserted(5) by (cases r3) auto
    obtain cs' u' where "event_loop c sel events u2 = (Inr cs', u')" "alike t' u'" using Cons.IH [OF u2(2) inserted(4) [unfolded r3]] by blast
    with u1 u2 inserted(2) show ?thesis by auto
  qed simp_all
qed auto

lemma upsert_snapshots_alike:
  "alike t u \<Longrightarrow> upsert_snapshots c key snaps t = Inr t' \<Longrightarrow> \<exists>u'. upsert_snapshots c key snaps u = Inr u' \<and> alike t' u'"
proof (induction snaps arbitrary: t u)
  case (Cons s snaps)
  obtain t1 where t1: "upsertSnapshot c key s t = Inr t1" "upsert_snapshots c key snaps t1 = Inr t'"
    using Cons.prems(2) by (auto split: sum.splits)
  then obtain u1 where "upsertSnapshot c key s u = Inr u1" "alike t1 u1"
    using Cons.prems(1) by (auto simp: upsertSnapshot_def alike_def Let_def split: option.splits if_splits)
  with Cons.IH [OF _ t1(2)] show ?case by auto
qed simp

lemma commit_closed_alike:
  assumes "alike t u" and "commit_closed c key bar events snaps t = (Inr cs, t')"
  shows "\<exists>cs' u'. commit_closed c key bar events snaps u = (Inr cs', u') \<and> alike t' u'"
proof -
  have cur: "pg_cursors u = pg_cursors t" using assms(1) by (simp add: alike_def)
  from assms(2) show ?thesis
  proof (cases rule: commit_closed_cases)
    case duplicate
    with assms cur show ?thesis by (auto simp: commit_closed_def Let_def split: if_splits)
  next
    case (progress cs0)
    from progress(5,1) obtain t1 t2 where f: "event_loop c commit_period events t = (Inr cs, t1)" "upsert_snapshots c key snaps t1 = Inr t2"
        "upsertCursor c key bar t2 = Inr t'" by (auto elim: finish_series_cases)
    obtain cs' u1 where u1: "event_loop c commit_period events u = (Inr cs', u1)" "alike t1 u1" using event_loop_alike [OF assms(1) f(1)] by blast
    obtain u2 where u2: "upsert_snapshots c key snaps u1 = Inr u2" "alike t2 u2" using upsert_snapshots_alike [OF u1(2) f(2)] by blast
    obtain u3 where u3: "upsertCursor c key bar u2 = Inr u3" "alike t' u3"
      using f(3) u2(2) by (auto simp: upsertCursor_def alike_def Let_def split: option.splits if_splits)
    then have "finish_series c key snaps (Some bar) (event_loop c commit_period events u) = (Inr cs', u3)"
      using u1 u2 by (simp add: finish_series_def)
    moreover have "commit_closed c key bar events snaps u = finish_series c key snaps (Some bar) (event_loop c commit_period events u)"
      using progress(3,4) cur by (auto simp: commit_closed_def Let_def split: option.splits)
    ultimately show ?thesis using u3(2) by auto
  qed simp
qed

subsection \<open>Properties\<close>

text \<open>
  C11. In every state the store can reach, whichever transactions fail, are aborted or lose their acknowledgement, the outbox is
  strictly ordered by positive cursors that were drawn from the sequence, and no event is in it twice.
\<close>

theorem postgres_log_ordered:
  assumes "pg_start db0" and "(pg_step c)\<^sup>*\<^sup>* db0 db"
  shows "sorted_wrt (<) (map or_cursor (pg_outbox (db_tables db))) \<and> distinct (map or_event_id (pg_outbox (db_tables db))) \<and>
    (\<forall>r \<in> set (pg_outbox (db_tables db)). 0 < or_cursor r \<and> or_cursor r \<le> pg_next (db_tables db))"
  using postgres.reachable_inv [OF assms] by (simp add: tables_inv_def pg_wf_def)

text \<open>A codec that keeps values as they are.\<close>

definition plain_codec :: "SignalEvent codec" where
  "plain_codec = \<lparr>cd_time = (\<lambda>t. t), cd_text = (\<lambda>_. True), cd_event = Some, cd_decode = Some, cd_algorithm = (\<lambda>e. alg_Name (ev_Algorithm e)),
     cd_market = (\<lambda>m. Some (sample_event 0)), cd_state = Some\<rparr>"

lemma faithful_plain: "faithful plain_codec"
  by (simp add: faithful_def plain_codec_def)

definition fresh_db :: "fate list \<Rightarrow> 'j Postgres" where
  "fresh_db fs = \<lparr>db_tables = empty_tables, db_fates = fs\<rparr>"

lemma pg_start_fresh: "pg_start (fresh_db fs)"
  by (simp add: pg_start_def fresh_db_def)

definition sample_point :: SignalEvent where
  "sample_point = (sample_event 0)\<lparr>ev_Indicator := Some \<lparr>ip_Period = 9, ip_Value = lit 1, ip_Samples = 9, ip_Ready = True\<rparr>\<rparr>"

definition sample_commit :: "fate list \<Rightarrow> (store_error, SignalEvent list) result \<times> SignalEvent Postgres" where
  "sample_commit fs = Postgres_CommitClosed plain_codec (fresh_db fs) sample_key (sample_bar 1 3) [sample_point] []"

lemma sample_commit_step: "pg_step plain_codec (fresh_db fs) (snd (sample_commit fs))"
  by (rule pg_step.commit [of _ _ sample_key "sample_bar 1 3" "[sample_point]" "[]" "fst (sample_commit fs)"]) (simp add: sample_commit_def)

lemmas sample_commit_defs = commit_closed_def key_text_def plain_codec_def empty_tables_def finish_series_def commit_period_def
  Postgres_persistEventState_def insertPoint_def sample_point_def sample_event_def event_text_def algorithm_text_def fits_bigint_def
  fits_integer_def upsert_def insert_outbox_def eventPeriod_def upsertCursor_def Let_def

lemma sample_commit_lost:
  "fst (sample_commit [Unacknowledged]) = Inl lost \<and> map or_cursor (pg_outbox (db_tables (snd (sample_commit [Unacknowledged])))) = [1]"
  by (simp add: sample_commit_def Postgres_CommitClosed_def transact_def fresh_db_def sample_commit_defs)

theorem postgres_log_ordered_witness:
  "\<exists>row. pg_start (fresh_db [Unacknowledged] :: SignalEvent Postgres) \<and>
     row \<in> set (pg_outbox (db_tables (snd (sample_commit [Unacknowledged])))) \<and> 0 < or_cursor row \<and>
     or_cursor row \<le> pg_next (db_tables (snd (sample_commit [Unacknowledged])))"
proof -
  obtain row where "row \<in> set (pg_outbox (db_tables (snd (sample_commit [Unacknowledged]))))"
    using sample_commit_lost by (metis list.set_intros(1) list.simps(9) map_is_Nil_conv neq_Nil_conv not_Cons_self2)
  then show ?thesis
    using postgres_log_ordered [OF pg_start_fresh r_into_rtranclp [where r = "pg_step plain_codec", OF sample_commit_step]] pg_start_fresh by blast
qed

subsection \<open>What a commit stores\<close>

text \<open>
  The rows that stand for an event and for a snapshot, and the tables as sets of rows: a row takes the place of the one with the
  same key, a market state only if that is not for a later bar.
\<close>

definition point_row_of :: "'j codec \<Rightarrow> SignalEvent \<Rightarrow> point_row option" where
  "point_row_of c e =
     (if ev_EventType e = ''market.state'' then None
      else map_option (\<lambda>p. \<lparr>pt_event_id = ev_EventID e, pt_dataset = ev_Dataset e, pt_symbol = ev_Symbol e,
        pt_timeframe = ev_Timeframe e, pt_bar_open_time = cd_time c (ev_BarOpenTime e), pt_bar_revision = uint (ev_BarRevision e),
        pt_indicator = alg_Name (ev_Algorithm e), pt_period = ip_Period p, pt_value = ip_Value p, pt_samples = uint (ip_Samples p),
        pt_algorithm_version = alg_Version (ev_Algorithm e), pt_config_hash = alg_ConfigHash (ev_Algorithm e)\<rparr>) (ev_Indicator e))"

definition market_row_of :: "'j codec \<Rightarrow> SignalEvent \<Rightarrow> 'j market_row option" where
  "market_row_of c e =
     (if ev_EventType e \<noteq> ''market.state'' then None
      else map_option (\<lambda>j. \<lparr>mr_event_id = ev_EventID e, mr_dataset = ev_Dataset e, mr_symbol = ev_Symbol e,
        mr_timeframe = ev_Timeframe e, mr_bar_open_time = cd_time c (ev_BarOpenTime e), mr_bar_revision = uint (ev_BarRevision e),
        mr_algorithm = alg_Name (ev_Algorithm e), mr_algorithm_version = alg_Version (ev_Algorithm e),
        mr_config_hash = alg_ConfigHash (ev_Algorithm e), mr_state = j\<rparr>) (Option.bind (ev_Market e) (cd_market c)))"

definition snapshot_row_of :: "'j codec \<Rightarrow> SeriesKey \<Rightarrow> ReducerSnapshot \<Rightarrow> snapshot_row option" where
  "snapshot_row_of c key r =
     map_option (\<lambda>state. \<lparr>sr_series = key, sr_indicator = alg_Name (rs_Algorithm r), sr_period = rs_Period r,
       sr_algorithm_version = alg_Version (rs_Algorithm r), sr_config_hash = alg_ConfigHash (rs_Algorithm r),
       sr_last_open_time = cd_time c (rs_LastOpenTime r), sr_state = state\<rparr>) (cd_state c (rs_State r))"

definition put_row :: "('r \<Rightarrow> 'r \<Rightarrow> bool) \<Rightarrow> 'r option \<Rightarrow> 'r set \<Rightarrow> 'r set" where
  "put_row same new rows = (case new of None \<Rightarrow> rows | Some row \<Rightarrow> insert row {r \<in> rows. \<not> same r row})"

definition put_market :: "'j market_row option \<Rightarrow> 'j market_row set \<Rightarrow> 'j market_row set" where
  "put_market new rows =
     (if \<exists>row r. new = Some row \<and> r \<in> rows \<and> same_market_row r row \<and> mr_bar_open_time row < mr_bar_open_time r then rows
      else put_row same_market_row new rows)"

definition points_after :: "'j codec \<Rightarrow> SignalEvent list \<Rightarrow> point_row set \<Rightarrow> point_row set" where
  "points_after c events rows = foldl (\<lambda>rows e. put_row same_point_row (point_row_of c e) rows) rows events"

definition markets_after :: "'j codec \<Rightarrow> SignalEvent list \<Rightarrow> 'j market_row set \<Rightarrow> 'j market_row set" where
  "markets_after c events rows = foldl (\<lambda>rows e. put_market (market_row_of c e) rows) rows events"

definition snapshots_after :: "'j codec \<Rightarrow> SeriesKey \<Rightarrow> ReducerSnapshot list \<Rightarrow> snapshot_row set \<Rightarrow> snapshot_row set" where
  "snapshots_after c key snaps rows = foldl (\<lambda>rows r. put_row same_snapshot_row (snapshot_row_of c key r) rows) rows snaps"

definition has_row :: "'j codec \<Rightarrow> SignalEvent \<Rightarrow> bool" where
  "has_row c e \<longleftrightarrow> point_row_of c e \<noteq> None \<or> market_row_of c e \<noteq> None"

lemma set_upsert: "upsert same row_id row rows = Some rows' \<Longrightarrow> set rows' = put_row same (Some row) (set rows)"
  by (auto simp: upsert_def put_row_def split: if_splits)

lemma persist_rows:
  assumes "Postgres_persistEventState c e t = Inr t'"
  shows "set (pg_points t') = put_row same_point_row (point_row_of c e) (set (pg_points t))"
    "set (pg_markets t') = put_market (market_row_of c e) (set (pg_markets t))" "pg_snapshots t' = pg_snapshots t" "has_row c e"
proof -
  have "set (pg_points t') = put_row same_point_row (point_row_of c e) (set (pg_points t)) \<and>
    set (pg_markets t') = put_market (market_row_of c e) (set (pg_markets t)) \<and> pg_snapshots t' = pg_snapshots t \<and> has_row c e"
  proof (cases "ev_EventType e = ''market.state''")
    case True
    then have u: "upsertMarketState c e t = Inr t'" using assms by (simp add: Postgres_persistEventState_def split: if_splits)
    then obtain m j where mj: "ev_Market e = Some m" "cd_market c m = Some j"
      by (auto simp: upsertMarketState_def split: option.splits)
    then obtain row where row: "market_row_of c e = Some row" by (simp add: market_row_of_def True)
    then have "t' = t \<and> (\<exists>r \<in> set (pg_markets t). same_market_row r row \<and> mr_bar_open_time row < mr_bar_open_time r) \<or>
        (\<not> (\<exists>r \<in> set (pg_markets t). same_market_row r row \<and> mr_bar_open_time row < mr_bar_open_time r) \<and>
         (\<exists>rows. upsert same_market_row mr_event_id row (pg_markets t) = Some rows \<and> t' = t\<lparr>pg_markets := rows\<rparr>))"
      using u mj True by (auto simp: upsertMarketState_def market_row_of_def Let_def split: if_splits option.splits)
    then show ?thesis using row True set_upsert [of same_market_row mr_event_id row "pg_markets t"]
      by (auto simp: put_market_def put_row_def point_row_of_def has_row_def)
  next
    case False
    then have u: "insertPoint c e t = Inr t'" using assms by (auto simp: Postgres_persistEventState_def split: if_splits)
    then obtain p where p: "ev_Indicator e = Some p" by (auto simp: insertPoint_def split: option.splits)
    then obtain row where row: "point_row_of c e = Some row" using False by (simp add: point_row_of_def)
    then have "\<exists>rows. upsert same_point_row pt_event_id row (pg_points t) = Some rows \<and> t' = t\<lparr>pg_points := rows\<rparr>"
      using u p False by (auto simp: insertPoint_def point_row_of_def Let_def split: if_splits option.splits)
    then show ?thesis using row False set_upsert [of same_point_row pt_event_id row "pg_points t"]
      by (auto simp: put_market_def put_row_def market_row_of_def has_row_def)
  qed
  then show "set (pg_points t') = put_row same_point_row (point_row_of c e) (set (pg_points t))"
    "set (pg_markets t') = put_market (market_row_of c e) (set (pg_markets t))" "pg_snapshots t' = pg_snapshots t" "has_row c e"
    by blast+
qed

lemma insert_outbox_rows:
  "insert_outbox c e p t = (r, t') \<Longrightarrow> pg_points t' = pg_points t \<and> pg_markets t' = pg_markets t \<and> pg_snapshots t' = pg_snapshots t"
  by (auto simp: insert_outbox_def Let_def split: option.splits if_splits)

lemma event_loop_rows:
  "event_loop c sel events t = (Inr cs, t') \<Longrightarrow>
     set (pg_points t') = points_after c events (set (pg_points t)) \<and> set (pg_markets t') = markets_after c events (set (pg_markets t)) \<and>
     pg_snapshots t' = pg_snapshots t \<and> list_all (has_row c) events"
proof (induction events arbitrary: t cs)
  case Nil
  then show ?case by (simp add: points_after_def markets_after_def)
next
  case (Cons e events)
  from Cons.prems show ?case
  proof (cases rule: event_loop_cases)
    case (skipped t1)
    from Cons.IH [OF skipped(3)] persist_rows [OF skipped(1)] show ?thesis by (simp add: points_after_def markets_after_def)
  next
    case (inserted t1 p cursor t2 r3)
    obtain cs3 where "r3 = Inr cs3" using inserted(5) by (cases r3) auto
    from Cons.IH [OF inserted(4) [unfolded this]] persist_rows [OF inserted(1)] insert_outbox_rows [OF inserted(3)]
    show ?thesis by (simp add: points_after_def markets_after_def)
  qed simp_all
qed

lemma upsertSnapshot_rows:
  assumes "upsertSnapshot c key r t = Inr t'"
  shows "set (pg_snapshots t') = put_row same_snapshot_row (snapshot_row_of c key r) (set (pg_snapshots t))"
    "pg_points t' = pg_points t" "pg_markets t' = pg_markets t" "snapshot_row_of c key r \<noteq> None"
  using assms
  by (auto simp: upsertSnapshot_def snapshot_row_of_def put_row_def Let_def split: option.splits if_splits)

lemma upsert_snapshots_rows:
  "upsert_snapshots c key snaps t = Inr t' \<Longrightarrow>
     set (pg_snapshots t') = snapshots_after c key snaps (set (pg_snapshots t)) \<and> pg_points t' = pg_points t \<and> pg_markets t' = pg_markets t \<and>
     list_all (\<lambda>r. snapshot_row_of c key r \<noteq> None) snaps"
proof (induction snaps arbitrary: t)
  case (Cons r snaps)
  then obtain t1 where 1: "upsertSnapshot c key r t = Inr t1" "upsert_snapshots c key snaps t1 = Inr t'"
    by (auto split: sum.splits)
  from Cons.IH [OF 1(2)] upsertSnapshot_rows [OF 1(1)] show ?case by (simp add: snapshots_after_def)
qed (simp add: snapshots_after_def)

lemma finish_series_rows:
  assumes "finish_series c key snaps (Some bar) (event_loop c sel events t) = (Inr cs, t')"
  shows "set (pg_points t') = points_after c events (set (pg_points t))" "set (pg_markets t') = markets_after c events (set (pg_markets t))"
    "set (pg_snapshots t') = snapshots_after c key snaps (set (pg_snapshots t))" "list_all (has_row c) events"
    "list_all (\<lambda>r. snapshot_row_of c key r \<noteq> None) snaps"
proof -
  from assms obtain cs t1 t2 where l: "event_loop c sel events t = (Inr cs, t1)" "upsert_snapshots c key snaps t1 = Inr t2"
    "upsertCursor c key bar t2 = Inr t'" by (cases rule: finish_series_cases) auto
  have "pg_points t' = pg_points t2" "pg_markets t' = pg_markets t2" "pg_snapshots t' = pg_snapshots t2"
    using l(3) by (auto simp: upsertCursor_def Let_def split: option.splits if_splits)
  with event_loop_rows [OF l(1)] upsert_snapshots_rows [OF l(2)]
  show "set (pg_points t') = points_after c events (set (pg_points t))" "set (pg_markets t') = markets_after c events (set (pg_markets t))"
    "set (pg_snapshots t') = snapshots_after c key snaps (set (pg_snapshots t))" "list_all (has_row c) events"
    "list_all (\<lambda>r. snapshot_row_of c key r \<noteq> None) snaps" by simp_all
qed

text \<open>
  C6. Every outcome of a commit. Either nothing changed but the sequence, and an error was returned; or the bar is the durable cursor
  already, and nothing was done; or the whole transaction took effect, all of it together: the cursor moved forward to the bar, the
  point or market state of every event and every reducer snapshot are stored, each in place of the row with its key and nothing else
  of these tables changed (a market state for an earlier bar than the stored one is passed over), each event is in the
  outbox under the cursor it was given, and every row added to the outbox is pending, beyond all earlier cursors and holds one of the
  events. An error that hides a transaction that took effect is the loss of the acknowledgement.
\<close>

theorem postgres_commit_closed:
  assumes "Postgres_CommitClosed c db key bar events snaps = (r, db')"
  defines "t \<equiv> db_tables db" and "t' \<equiv> db_tables db'"
  shows "(\<exists>n \<ge> pg_next t. t' = t\<lparr>pg_next := n\<rparr> \<and> \<not> is_ok r) \<or>
    (t' = t \<and> map_of (pg_cursors t) key = Some (bar_OpenTime bar, barHash bar) \<and> (r = Inr [] \<or> r = Inl lost)) \<or>
    (\<exists>cs new. (r = Inr cs \<or> r = Inl lost) \<and>
       (\<forall>old h. map_of (pg_cursors t) key = Some (old, h) \<longrightarrow> old < bar_OpenTime bar) \<and>
       pg_cursors t' = AList.update key (cd_time c (bar_OpenTime bar), barHash bar) (pg_cursors t) \<and>
       list_all (has_row c) events \<and> list_all (\<lambda>s. snapshot_row_of c key s \<noteq> None) snaps \<and>
       set (pg_points t') = points_after c events (set (pg_points t)) \<and>
       set (pg_markets t') = markets_after c events (set (pg_markets t)) \<and>
       set (pg_snapshots t') = snapshots_after c key snaps (set (pg_snapshots t)) \<and>
       map (\<lambda>e. e\<lparr>ev_Cursor := 0\<rparr>) cs = map (\<lambda>e. e\<lparr>ev_Cursor := 0\<rparr>) events \<and>
       (\<forall>e \<in> set cs. \<exists>row \<in> set (pg_outbox t'). or_event_id row = ev_EventID e \<and> or_cursor row = ev_Cursor e) \<and>
       pg_outbox t' = pg_outbox t @ new \<and>
       (\<forall>row \<in> set new. pg_next t < or_cursor row \<and> \<not> or_published row \<and> (\<exists>e \<in> set events. cd_event c e = Some (or_payload row))))"
  using assms(1)
proof (cases rule: Postgres_CommitClosed_cases)
  case (effect x u)
  from effect(1) show ?thesis
  proof (cases rule: commit_closed_cases)
    case duplicate
    with effect show ?thesis by (auto simp: t_def t'_def)
  next
    case (progress cs)
    have x: "cs = x" using progress(1) by simp
    obtain new where new: "pg_outbox u = pg_outbox t @ new" "\<forall>row \<in> set new. pg_next t < or_cursor row \<and>
        (\<exists>e \<in> set events. \<exists>p. commit_period e = Some p \<and> algorithm_text c (ev_Algorithm e) \<and> row_of c e p row)"
      using progress(2) [folded t_def] by (rule progressed_rows)
    then have n: "\<forall>row \<in> set new. pg_next t < or_cursor row \<and> \<not> or_published row \<and> (\<exists>e \<in> set events. cd_event c e = Some (or_payload row))"
      by (fastforce simp: row_of_def)
    have p: "pg_cursors u = AList.update key (cd_time c (bar_OpenTime bar), barHash bar) (pg_cursors t)"
        "map (\<lambda>e. e\<lparr>ev_Cursor := 0\<rparr>) x = map (\<lambda>e. e\<lparr>ev_Cursor := 0\<rparr>) events"
        "\<forall>e \<in> set x. \<exists>row \<in> set (pg_outbox u). or_event_id row = ev_EventID e \<and> or_cursor row = ev_Cursor e"
      using progress(2) unfolding progressed_def t_def x by (simp_all add: commit_period_def)
    have t': "t' = u" using effect(2) by (simp add: t'_def)
    note rows = finish_series_rows [OF progress(5) [unfolded progress(1)], folded t_def]
    show ?thesis unfolding t'
      using effect(3) progress(4) p n new(1) rows by (intro disjI2 exI [of _ x] exI [of _ new]) (simp add: t_def)
  qed simp
next
  case (undone e n)
  then show ?thesis by (auto simp: t_def t'_def)
qed

lemma sample_commit_body:
  "\<exists>t. commit_closed plain_codec sample_key (sample_bar 1 3) [sample_point] [] empty_tables = (Inr [sample_point\<lparr>ev_Cursor := 1\<rparr>], t)"
  by (simp add: sample_commit_defs)

theorem postgres_commit_closed_witness:
  "\<exists>db' row. sample_commit [Unacknowledged] = (Inl lost, db') \<and> point_row_of plain_codec sample_point = Some row \<and>
     row \<in> set (pg_points (db_tables db')) \<and> map_of (pg_cursors (db_tables db')) sample_key = Some (bar_OpenTime (sample_bar 1 3), barHash (sample_bar 1 3))"
proof -
  obtain r db' where 1: "sample_commit [Unacknowledged] = (r, db')" by fastforce
  have r: "r = Inl lost" "pg_outbox (db_tables db') \<noteq> []"
    using 1 sample_commit_lost by auto
  have e: "db_tables (fresh_db [Unacknowledged] :: SignalEvent Postgres) = empty_tables" by (simp add: fresh_db_def)
  have "pg_cursors (db_tables db') = AList.update sample_key (cd_time plain_codec (bar_OpenTime (sample_bar 1 3)), barHash (sample_bar 1 3)) [] \<and>
      list_all (has_row plain_codec) [sample_point] \<and> set (pg_points (db_tables db')) = points_after plain_codec [sample_point] {}"
    using postgres_commit_closed [OF 1 [unfolded sample_commit_def], unfolded e] r(2) by (auto simp: empty_tables_def)
  then show ?thesis using 1 r(1)
    by (auto simp: points_after_def put_row_def has_row_def market_row_of_def plain_codec_def sample_point_def sample_event_def)
qed

text \<open>
  C12. A commit that is retried is done exactly once: when an acceptable commit of a bar at a storable time returned an error, because
  it was aborted or its acknowledgement was lost, the same call again succeeds and leaves the tables of the commit done once, up
  to the numbers of the cursors.
\<close>

theorem postgres_retry_once:
  assumes "commit_closed c key bar events snaps (db_tables db) = (Inr cs, t)"
    and "Postgres_CommitClosed c db key bar events snaps = (Inl e, db1)" and "db_fates db1 = []"
    and "cd_time c (bar_OpenTime bar) = bar_OpenTime bar"
  shows "\<exists>cs' db2. Postgres_CommitClosed c db1 key bar events snaps = (Inr cs', db2) \<and> alike t (db_tables db2)"
proof -
  have again: "Postgres_CommitClosed c db1 key bar events snaps = (Inr x, db1\<lparr>db_tables := u\<rparr>)"
    if "commit_closed c key bar events snaps (db_tables db1) = (Inr x, u)" for x u
    using that assms(3) by (simp add: Postgres_CommitClosed_def transact_def)
  have key: "key_text c key" using assms(1) by (auto simp: commit_closed_def split: if_splits)
  from assms(2) show ?thesis
  proof (cases rule: Postgres_CommitClosed_cases)
    case (effect x u)
    then have u: "u = t" "db_tables db1 = t" using assms(1) by auto
    from assms(1) have "map_of (pg_cursors t) key = Some (bar_OpenTime bar, barHash bar)"
      by (cases rule: commit_closed_cases) (auto simp: progressed_def assms(4) update_conv')
    then have "commit_closed c key bar events snaps (db_tables db1) = (Inr [], t)"
      using key by (simp add: commit_closed_def u(2))
    from again [OF this] show ?thesis by simp
  next
    case (undone e n)
    then have "alike (db_tables db) (db_tables db1)" by simp
    from commit_closed_alike [OF this assms(1)] obtain cs' u where "commit_closed c key bar events snaps (db_tables db1) = (Inr cs', u)" "alike t u"
      by blast
    with again show ?thesis by fastforce
  qed
qed

theorem postgres_retry_once_witness:
  "\<exists>db1 cs' db2. sample_commit [Unacknowledged] = (Inl lost, db1) \<and>
     Postgres_CommitClosed plain_codec db1 sample_key (sample_bar 1 3) [sample_point] [] = (Inr cs', db2)"
proof -
  obtain t where t: "commit_closed plain_codec sample_key (sample_bar 1 3) [sample_point] [] (db_tables (fresh_db [Unacknowledged])) =
      (Inr [sample_point\<lparr>ev_Cursor := 1\<rparr>], t)" using sample_commit_body by (auto simp: fresh_db_def)
  obtain db1 where 1: "sample_commit [Unacknowledged] = (Inl lost, db1)" "db_fates db1 = []"
    using t by (auto simp: sample_commit_def Postgres_CommitClosed_def transact_def fresh_db_def Let_def)
  from postgres_retry_once [OF t 1(1) [unfolded sample_commit_def] 1(2)] 1(1) show ?thesis by (auto simp: plain_codec_def)
qed

text \<open>
  Flushing the PostgreSQL outbox always returns, whichever publications and requests fail. The publisher has then accepted a
  prefix of the pending events in order, at most the next one was offered and refused, and every event that is no longer
  pending was accepted, also when the acknowledgement of a marking was lost.
\<close>

theorem postgres_flush_at_least_once:
  assumes "pg_start db0" and "(pg_step c)\<^sup>*\<^sup>* db0 db" and "faithful c"
  shows "\<exists>r db' n k p'. Flush (postgres_outbox c) publish db p = Some (r, db', p') \<and>
    published_to publish p (pg_backlog c db) n (refusal r) p' \<and> pg_backlog c db' = drop k (pg_backlog c db) \<and> k \<le> n \<and>
    (is_ok r \<longrightarrow> pg_backlog c db' = [] \<and> n = length (pg_backlog c db))"
  using postgres_outbox.flush_total [OF reachable_readable [OF assms], of publish p] by blast

theorem postgres_flush_at_least_once_witness:
  "\<exists>r db' n k p'. Flush (postgres_outbox plain_codec) (\<lambda>p e. (None :: unit option, p @ [e])) (snd (sample_commit [])) [] = Some (r, db', p') \<and>
     published_to (\<lambda>p e. (None, p @ [e])) [] (pg_backlog plain_codec (snd (sample_commit []))) n (refusal r) p' \<and> k \<le> n \<and>
     pg_backlog plain_codec db' = drop k (pg_backlog plain_codec (snd (sample_commit [])))"
proof -
  have r: "(pg_step plain_codec)\<^sup>*\<^sup>* (fresh_db []) (snd (sample_commit []))" using sample_commit_step by (rule r_into_rtranclp)
  show ?thesis
    using postgres_flush_at_least_once [OF pg_start_fresh r faithful_plain, of "\<lambda>p e. (None, p @ [e])" "[]"] by (elim exE conjE) (intro exI conjI)
qed

lemma mark_rows_published:
  assumes "set cursors \<subseteq> set (map or_cursor (pg_outbox t))"
  shows "(\<exists>r \<in> set (pg_outbox (mark_rows cursors t)). or_cursor r = x \<and> or_published r) \<longleftrightarrow>
    x \<in> set cursors \<or> (\<exists>r \<in> set (pg_outbox t). or_cursor r = x \<and> or_published r)"
proof (cases "x \<in> set cursors")
  case True
  then obtain r where "r \<in> set (pg_outbox t)" "or_cursor r = x" using assms by auto
  then have "r\<lparr>or_published := True\<rparr> \<in> set (pg_outbox (mark_rows cursors t))" using True by (auto simp: mark_rows_def)
  moreover have "or_cursor (r\<lparr>or_published := True\<rparr>) = x" using \<open>or_cursor r = x\<close> by simp
  moreover have "or_published (r\<lparr>or_published := True\<rparr>)" by simp
  ultimately show ?thesis using True by blast
next
  case False
  then show ?thesis by (auto simp: mark_rows_def)
qed

lemma log_of_mark_rows:
  assumes "set cursors \<subseteq> set (map or_cursor (pg_outbox t))"
  shows "log_of c (mark_rows cursors t) = (log_of c t)\<lparr>mem_published := (\<lambda>x. x \<in> set cursors \<or> mem_published (log_of c t) x)\<rparr>"
proof -
  have "map (row_event c) (pg_outbox (mark_rows cursors t)) = map (row_event c) (pg_outbox t)" by (simp add: mark_rows_def)
  moreover have "pg_next (mark_rows cursors t) = pg_next t" by (simp add: mark_rows_def)
  ultimately show ?thesis by (simp add: log_of_def mark_rows_published [OF assms] NewMemory_def)
qed

text \<open>
  C36. The two stores agree on the log: a page of the PostgreSQL store is the page that the memory store gives for the same
  log, which is well formed, and marking cursors of the log does the same to both.
\<close>

theorem postgres_pages_refine_memory:
  assumes "pg_start db0" and "(pg_step c)\<^sup>*\<^sup>* db0 db" and "faithful c" and "db_fates db = []"
    and "set cursors \<subseteq> set (map or_cursor (pg_outbox (db_tables db)))" and "Postgres_MarkPublished db cursors = (r, db')"
  shows "Postgres_QueryEvents c db f = Inr (Memory_QueryEvents (log_of c (db_tables db)) f) \<and> wf_memory (log_of c (db_tables db)) \<and>
    Memory_MarkPublished (log_of c (db_tables db)) cursors = (r, log_of c (db_tables db'))"
proof -
  let ?t = "db_tables db"
  have i: "readable c ?t" by (rule reachable_readable [OF assms(1-3)])
  have "r = Inr () \<and> db_tables db' = mark_rows cursors ?t"
    using assms(4,6) by (cases "cursors = []") (auto simp: Postgres_MarkPublished_def transact_def Let_def mark_rows_def)
  moreover have "log_of c (mark_rows cursors ?t) = (log_of c ?t)\<lparr>mem_published := (\<lambda>x. x \<in> set cursors \<or> mem_published (log_of c ?t) x)\<rparr>"
    by (rule log_of_mark_rows [OF assms(5)])
  ultimately show ?thesis
    using Postgres_QueryEvents_log [OF i assms(4)] i wf_log_of by (auto simp: Memory_MarkPublished_alt readable_def)
qed

theorem postgres_pages_refine_memory_witness:
  "\<exists>db. sample_commit [] = (Inr [sample_point\<lparr>ev_Cursor := 1\<rparr>], db) \<and>
     (\<forall>f. Postgres_QueryEvents plain_codec db f = Inr (Memory_QueryEvents (log_of plain_codec (db_tables db)) f))"
proof -
  obtain db where db: "sample_commit [] = (Inr [sample_point\<lparr>ev_Cursor := 1\<rparr>], db)" "db_fates db = []"
    using sample_commit_body by (auto simp: sample_commit_def Postgres_CommitClosed_def transact_def fresh_db_def Let_def)
  then have s: "pg_step plain_codec (fresh_db []) db" using sample_commit_step [of "[]"] by simp
  have m: "Postgres_MarkPublished db [] = (Inr (), db)" by (simp add: Postgres_MarkPublished_def)
  from postgres_pages_refine_memory [OF pg_start_fresh r_into_rtranclp [where r = "pg_step plain_codec", OF s] faithful_plain db(2) _ m] db(1)
  show ?thesis by auto
qed







end
