(* ===== verification/Postgres_Lane.thy ===== *)
theory Postgres_Lane
  imports Postgres_Results Lane_Properties
begin

text \<open>
  Lanes over the PostgreSQL store. An acknowledgement may be lost, so the durable cursor can be ahead of the lane; what a lane relies on is
  that it is never behind it.
\<close>

definition pg_cursor :: "'j Postgres \<Rightarrow> SeriesKey \<Rightarrow> (time \<times> string) option" where
  "pg_cursor db key = map_of (pg_cursors (db_tables db)) key"

text \<open>A bar is covered when the durable cursor is at or beyond it, or at or beyond the time it is stored with.\<close>

definition covers :: "'j codec \<Rightarrow> SeriesKey \<Rightarrow> Bar option \<Rightarrow> 'j Postgres \<Rightarrow> bool" where
  "covers c key lastBar db \<longleftrightarrow> (\<forall>b. lastBar = Some b \<longrightarrow>
     (\<exists>t h. pg_cursor db key = Some (t, h) \<and> min (bar_OpenTime b) (cd_time c (bar_OpenTime b)) \<le> t))"

lemma postgres_ops_simps [simp]:
  "LoadRecovery (postgres_ops c) = Postgres_LoadRecovery c" "RebuildSeries (postgres_ops c) = Postgres_RebuildSeries c"
  "CommitClosed (postgres_ops c) = Postgres_CommitClosed c" "MarkPublished (postgres_ops c) = Postgres_MarkPublished"
  by (simp_all add: postgres_ops_def)

text \<open>A cursor never disappears and never moves back, whatever becomes of a transaction.\<close>

definition cursor_grows :: "'j tables \<Rightarrow> 'j tables \<Rightarrow> bool" where
  "cursor_grows t t' \<longleftrightarrow> (\<forall>k old h. map_of (pg_cursors t) k = Some (old, h) \<longrightarrow>
     (\<exists>new h'. map_of (pg_cursors t') k = Some (new, h') \<and> old \<le> new))"

lemma cursor_grows_same [simp]: "pg_cursors t' = pg_cursors t \<Longrightarrow> cursor_grows t t'"
  by (auto simp: cursor_grows_def)

lemma progressed_grows: "progressed c sel events key lastBar t cs t' \<Longrightarrow> cursor_grows t t'"
  by (auto simp: progressed_def cursor_grows_def update_conv' split: option.splits)

lemma commit_grows:
  assumes "Postgres_CommitClosed c db key bar events snaps = (r, db')"
  shows "cursor_grows (db_tables db) (db_tables db')"
  using assms
proof (cases rule: Postgres_CommitClosed_cases)
  case (effect x t)
  from effect(1) show ?thesis
    by (cases rule: commit_closed_cases) (use effect(2) progressed_grows cursor_grows_same in auto)
qed (simp add: cursor_grows_same)

lemma rebuild_grows:
  assumes "Postgres_RebuildSeries c db key events snaps lastBar = (r, db')"
  shows "cursor_grows (db_tables db) (db_tables db')"
  using assms
proof (cases rule: Postgres_RebuildSeries_cases)
  case (effect x t)
  from effect(1) show ?thesis
    by (cases rule: rebuild_series_cases) (use effect(2) progressed_grows in auto)
qed (simp add: cursor_grows_same)

lemma mark_grows: "Postgres_MarkPublished db cursors = (r, db') \<Longrightarrow> cursor_grows (db_tables db) (db_tables db')"
  by (elim Postgres_MarkPublished_cases) (simp_all add: cursor_grows_same mark_rows_def)

lemma covers_grows: "cursor_grows (db_tables db) (db_tables db') \<Longrightarrow> covers c key lastBar db \<Longrightarrow> covers c key lastBar db'"
  unfolding covers_def cursor_grows_def pg_cursor_def by (metis order_trans)

lemma commit_covers:
  assumes "Postgres_CommitClosed c db key bar events snaps = (Inr committed, db')"
  shows "covers c key (Some bar) db'"
  using assms
proof (cases rule: Postgres_CommitClosed_cases)
  case (effect x t)
  from effect(1) show ?thesis
    by (cases rule: commit_closed_cases) (use effect(2) in \<open>auto simp: covers_def pg_cursor_def progressed_def update_conv'\<close>)
qed simp

lemma rebuild_covers:
  assumes "Postgres_RebuildSeries c db key events snaps lastBar = (Inr committed, db')"
  shows "covers c key lastBar db'"
  using assms
proof (cases rule: Postgres_RebuildSeries_cases)
  case (effect x t)
  from effect(1) show ?thesis
    by (cases rule: rebuild_series_cases) (use effect(2) in \<open>auto simp: covers_def pg_cursor_def progressed_def update_conv'\<close>)
qed simp

lemma load_covers:
  assumes "Postgres_LoadRecovery c db key = Inr recovery" and "rec_HasCursor recovery" and "bar_OpenTime b = rec_CursorOpenTime recovery"
  shows "covers c key (Some b) db"
  using assms by (auto simp: Postgres_LoadRecovery_def db_query_def covers_def pg_cursor_def split: list.splits fate.splits if_splits option.splits)

interpretation postgres_tracking: tracked_store "postgres_ops c" "covers c" for c :: "'j codec"
  by unfold_locales
    (auto simp: covers_def [of c _ None] intro: commit_covers rebuild_covers load_covers covers_grows [OF commit_grows] covers_grows [OF rebuild_grows]
      covers_grows [OF mark_grows])

subsection \<open>Properties\<close>

text \<open>
  C13. A lane over the PostgreSQL store never runs ahead of what is durable: whatever commands a fresh lane has handled and whichever
  transactions failed or lost their acknowledgement, the durable cursor of its series is at or beyond the last bar the lane holds.
\<close>

theorem postgres_lane_covered:
  assumes "NewLane opts = Inr l" and "\<forall>p \<in> set (lo_Periods opts). p < 2 ^ 63"
    and "(actor_step (postgres_ops c))\<^sup>*\<^sup>* (start_actor l w) a" and "list_all sane_seed (ac_submitted a)"
    and "ln_lastBar (ac_lane a) = Some b" and "cd_time c (bar_OpenTime b) = bar_OpenTime b"
  shows "\<exists>t h. pg_cursor (w_store (ac_world a)) (lo_Key opts) = Some (t, h) \<and> bar_OpenTime b \<le> t"
proof -
  have l: "valid_periods (ln_periods l)" "ln_lastBar l = None" "ln_key l = lo_Key opts"
    using NewLane_periods [OF assms(1,2)] NewLane_inv [OF assms(1,2)] assms(1)
    by (auto simp: NewLane_def Let_def split: if_splits sum.splits)
  obtain n where "process (postgres_ops c) l w (take n (ac_submitted a)) = (ac_replies a, ac_lane a, ac_world a)"
    using actor.reachable_inv [OF refl assms(3)] by (auto simp: actor_inv_def)
  moreover have "postgres_tracking.tracked c l w" using l(2) by (simp add: postgres_tracking.tracked_def covers_def)
  moreover have "list_all sane_seed (take n (ac_submitted a))" using assms(4) by (auto simp: list_all_iff dest: in_set_takeD)
  ultimately have "postgres_tracking.tracked c (ac_lane a) (ac_world a) \<and> ln_key (ac_lane a) = ln_key l"
    using postgres_tracking.process_tracked l(1) by blast
  with assms(5,6) l(3) show ?thesis by (auto simp: postgres_tracking.tracked_def covers_def)
qed

lemma sample_first_commit:
  "\<exists>committed db. Postgres_CommitClosed plain_codec (fresh_db []) sample_key (sample_bar 1 3) [sample_first_event] [] = (Inr committed, db)"
  by (simp add: Postgres_CommitClosed_def transact_def fresh_db_def commit_closed_def key_text_def plain_codec_def empty_tables_def
      finish_series_def commit_period_def Postgres_persistEventState_def upsertMarketState_def sample_first_event_def newMarketEvent_def
      event_text_def algorithm_text_def fits_bigint_def fits_integer_def upsert_def insert_outbox_def eventPeriod_def upsertCursor_def Let_def)

theorem postgres_lane_covered_witness:
  "\<exists>a t h. (actor_step (postgres_ops plain_codec))\<^sup>*\<^sup>* (start_actor sample_lane \<lparr>w_store = fresh_db [], w_hub = [], w_live = []\<rparr>) a \<and>
     ln_lastBar (ac_lane a) = Some (sample_bar 1 3) \<and> pg_cursor (w_store (ac_world a)) sample_key = Some (t, h) \<and> bar_OpenTime (sample_bar 1 3) \<le> t"
proof -
  let ?w = "\<lparr>w_store = fresh_db [], w_hub = [], w_live = []\<rparr>"
  obtain w where "applyClosed (postgres_ops plain_codec) sample_lane ?w (sample_bar 1 3) = (Inr (), canonical sample_lane [sample_bar 1 3], w)"
    using sample_first_commit sample_closed_on [of "postgres_ops plain_codec" ?w] by auto
  then obtain a where a: "(actor_step (postgres_ops plain_codec))\<^sup>*\<^sup>* (start_actor sample_lane ?w) a"
      "ln_lastBar (ac_lane a) = Some (sample_bar 1 3)" "list_all sane_seed (ac_submitted a)"
    using sample_actor_on by blast
  from postgres_lane_covered [OF sample_lane_new _ a(1,3,2)] have
    "\<exists>t h. pg_cursor (w_store (ac_world a)) sample_key = Some (t, h) \<and> bar_OpenTime (sample_bar 1 3) \<le> t"
    by (auto simp: sample_options_def plain_codec_def)
  with a show ?thesis by blast
qed

text \<open>
  C8. In-memory state advances only with the durable transaction. When the handler of a closed bar fails on the memory store, neither the
  lane nor the store nor the subscribers have seen anything of the bar. When it fails on the PostgreSQL store, neither the lane nor the
  subscribers have seen anything of it, and the tables are as they were, up to the values drawn from the sequence, or hold the
  whole commit, whose acknowledgement was lost; the one exception is a failure to mark the events as published, which is reported when the bar
  is durable and the lane has taken it over.
\<close>

theorem lane_closed_failure_atomic:
  "(applyClosed memory_ops l w bar = (Inl e, l', w') \<longrightarrow> l' = l \<and> w' = w) \<and>
   (applyClosed (postgres_ops c) m v bar = (Inl f, m', v') \<longrightarrow>
      m' = m \<and> w_hub v' = w_hub v \<and> w_live v' = w_live v \<and>
        ((\<exists>n. db_tables (w_store v') = (db_tables (w_store v))\<lparr>pg_next := n\<rparr>) \<or>
         f = CommitFailed lost \<and> (\<exists>events snaps stored. commit_closed c (ln_key m) bar events snaps (db_tables (w_store v)) =
           (Inr stored, db_tables (w_store v')))) \<or>
      (\<exists>x. f = MarkFailed x) \<and> ln_lastBar m' = Some bar \<and> covers c (ln_key m) (Some bar) (w_store v'))"
proof (intro conjI impI)
  assume a: "applyClosed memory_ops l w bar = (Inl e, l', w')"
  then have "l' = l \<and> w' = w"
  proof (cases rule: applyClosed_cases)
    case (failed e' s)
    then have "s = w_store w" using memory_store.commit_error by blast
    with failed show ?thesis by simp
  next
    case (committed rs market events snapshots rs' market' closedCount stored s)
    with a show ?thesis
      by (auto simp: applyClosed_def Let_def publish_live_def publish_hub_def Memory_MarkPublished_def split: if_splits)
  qed auto
  then show "l' = l" "w' = w" by blast+
next
  assume "applyClosed (postgres_ops c) m v bar = (Inl f, m', v')"
  then show "m' = m \<and> w_hub v' = w_hub v \<and> w_live v' = w_live v \<and>
        ((\<exists>n. db_tables (w_store v') = (db_tables (w_store v))\<lparr>pg_next := n\<rparr>) \<or>
         f = CommitFailed lost \<and> (\<exists>events snaps stored. commit_closed c (ln_key m) bar events snaps (db_tables (w_store v)) =
           (Inr stored, db_tables (w_store v')))) \<or>
      (\<exists>x. f = MarkFailed x) \<and> ln_lastBar m' = Some bar \<and> covers c (ln_key m) (Some bar) (w_store v')"
  proof (cases rule: applyClosed_cases)
    case (refused x)
    then have "db_tables (w_store v') = (db_tables (w_store v))\<lparr>pg_next := pg_next (db_tables (w_store v))\<rparr>" by simp
    with refused show ?thesis by blast
  next
    case (failed x s)
    then obtain events snaps where "Postgres_CommitClosed c (w_store v) (ln_key m) bar events snaps = (Inl x, s)" by auto
    then show ?thesis using failed(1-3) by (cases rule: Postgres_CommitClosed_cases) auto
  next
    case (committed rs market events snapshots rs' market' closedCount stored s)
    have "covers c (ln_key m) (Some bar) s" using commit_covers committed(7) by simp
    moreover have "covers c (ln_key m) (Some bar) (w_store v')"
      using committed(10) calculation covers_grows [OF mark_grows] by auto
    ultimately show ?thesis using committed(8,9) by (auto simp: install_def)
  qed simp
qed

text \<open>A closed bar that the memory store refuses, because its cursor is beyond it, and one whose commit is not acknowledged.\<close>

definition ahead_world :: "Memory world" where
  "ahead_world = \<lparr>w_store = set_cursor sample_key (sample_bar 2 3) NewMemory, w_hub = [], w_live = []\<rparr>"

theorem lane_closed_failure_atomic_witness:
  "\<exists>l w m v. applyClosed memory_ops sample_lane ahead_world (sample_bar 1 3) = (Inl (CommitFailed CursorConflict), l, w) \<and>
     l = sample_lane \<and> w = ahead_world \<and>
     applyClosed (postgres_ops plain_codec) sample_lane \<lparr>w_store = fresh_db [Unacknowledged], w_hub = [], w_live = []\<rparr> (sample_bar 1 3) =
       (Inl (CommitFailed lost), m, v) \<and> m = sample_lane \<and> w_hub v = [] \<and> w_live v = []"
proof -
  let ?v = "\<lparr>w_store = fresh_db [Unacknowledged], w_hub = [], w_live = []\<rparr>"
  have "bar_OpenTime (sample_bar 1 3) < bar_OpenTime (sample_bar 2 3)" by (simp add: sample_bar_def minute_pos)
  then have "Memory_CommitClosed (w_store ahead_world) sample_key (sample_bar 1 3) [sample_first_event] [] = (Inl CursorConflict, w_store ahead_world)"
    by (simp add: Memory_CommitClosed_def ahead_world_def cursor_of_set_cursor Let_def)
  then obtain l w where a: "applyClosed memory_ops sample_lane ahead_world (sample_bar 1 3) = (Inl (CommitFailed CursorConflict), l, w)"
    by (simp add: sample_closed_eq)
  obtain db where "Postgres_CommitClosed plain_codec (fresh_db [Unacknowledged]) sample_key (sample_bar 1 3) [sample_first_event] [] = (Inl lost, db)"
    using sample_first_commit by (auto simp: Postgres_CommitClosed_def transact_def fresh_db_def Let_def split: prod.splits sum.splits)
  then obtain m v where b: "applyClosed (postgres_ops plain_codec) sample_lane ?v (sample_bar 1 3) = (Inl (CommitFailed lost), m, v)"
    by (simp add: sample_closed_eq)
  show ?thesis
    using a b lane_closed_failure_atomic [of sample_lane ahead_world "sample_bar 1 3" "CommitFailed CursorConflict" l w
        plain_codec sample_lane ?v "CommitFailed lost" m v] by auto
qed

end
