(* ===== verification/Postgres_Locks.thy ===== *)
theory Postgres_Locks
  imports Postgres
begin

text \<open>
  The advisory locks of \<^verbatim>\<open>internal/store/postgres.go\<close> and the migrations. A transaction takes its locks in the order of its statements,
  waits while another transaction holds the next one, and gives all back when it ends.
\<close>

definition outboxAdvisoryLock :: int where "outboxAdvisoryLock = 746264445846543"
definition migrationAdvisoryLock :: int where "migrationAdvisoryLock = 746264445846542"

text \<open>The first eight bytes of the hash as a big-endian number, read as signed.\<close>

definition advisoryKey :: "SeriesKey \<Rightarrow> int" where
  "advisoryKey key = wrap64 (int (foldl (\<lambda>n b. n * 256 + b) 0 (take 8 (sha256_bytes (map of_char (SeriesKey_String key))))))"

datatype writer = CommitWriter SeriesKey | RebuildWriter SeriesKey "SignalEvent list" | MigrationWriter

fun locks :: "writer \<Rightarrow> int list" where
  "locks (CommitWriter key) = [outboxAdvisoryLock, advisoryKey key]"
| "locks (RebuildWriter key events) = (if list_ex ev_Reset events then [outboxAdvisoryLock] else []) @ [advisoryKey key]"
| "locks MigrationWriter = [migrationAdvisoryLock]"

text \<open>A transaction in flight: the locks it holds and those it has still to take. A session may take a lock again that it holds.\<close>

type_synonym flight = "int list \<times> int list"

definition free_for :: "flight list \<Rightarrow> nat \<Rightarrow> int \<Rightarrow> bool" where
  "free_for txs i l \<longleftrightarrow> (\<forall>j < length txs. j \<noteq> i \<longrightarrow> l \<notin> set (fst (txs ! j)))"

inductive lock_progress :: "flight list \<Rightarrow> flight list \<Rightarrow> bool" where
  acquire: "i < length txs \<Longrightarrow> txs ! i = (held, l # wanted) \<Longrightarrow> free_for txs i l \<Longrightarrow> lock_progress txs (txs[i := (l # held, wanted)])"
| finish: "lock_progress (before @ (held, []) # after) (before @ after)"

inductive lock_step :: "flight list \<Rightarrow> flight list \<Rightarrow> bool" where
  start: "lock_step txs (txs @ [([], locks w)])"
| progress: "lock_progress txs txs' \<Longrightarrow> lock_step txs txs'"

definition work :: "flight list \<Rightarrow> nat" where
  "work txs = (\<Sum>tx \<leftarrow> txs. Suc (length (snd tx)))"

text \<open>Every transaction is some way through its list, and no lock is held twice.\<close>

definition lock_inv :: "flight list \<Rightarrow> bool" where
  "lock_inv txs \<longleftrightarrow> (\<forall>tx \<in> set txs. \<exists>w. rev (fst tx) @ snd tx = locks w) \<and>
     (\<forall>i < length txs. \<forall>j < length txs. i \<noteq> j \<longrightarrow> set (fst (txs ! i)) \<inter> set (fst (txs ! j)) = {})"

lemma lock_inv_pairwise:
  "(\<forall>i < length txs. \<forall>j < length txs. i \<noteq> j \<longrightarrow> set (fst (txs ! i)) \<inter> set (fst (txs ! j)) = {}) \<longleftrightarrow>
    sorted_wrt (\<lambda>a b. set (fst a) \<inter> set (fst b) = {}) txs"
  (is "?L \<longleftrightarrow> _")
proof
  assume s: "sorted_wrt (\<lambda>a b. set (fst a) \<inter> set (fst b) = {}) txs"
  have "set (fst (txs ! i)) \<inter> set (fst (txs ! j)) = {}" if "i < length txs" "j < length txs" "i \<noteq> j" for i j
  proof (cases "i < j")
    case True
    with s that show ?thesis by (simp add: sorted_wrt_iff_nth_less)
  next
    case False
    with that have "j < i" by simp
    with s that have "set (fst (txs ! j)) \<inter> set (fst (txs ! i)) = {}" by (simp add: sorted_wrt_iff_nth_less)
    then show ?thesis by (simp only: Int_commute)
  qed
  then show ?L by blast
qed (simp add: sorted_wrt_iff_nth_less)

lemma lock_progress_inv: "lock_progress txs txs' \<Longrightarrow> lock_inv txs \<Longrightarrow> lock_inv txs'"
proof (induction rule: lock_progress.induct)
  case (acquire i txs held l wanted)
  have "\<exists>w. rev (fst (txs ! i)) @ snd (txs ! i) = locks w" using acquire(1,4) by (auto simp: lock_inv_def)
  then have "\<exists>w. rev (l # held) @ wanted = locks w" using acquire(2) by simp
  then have 1: "\<forall>tx \<in> set (txs[i := (l # held, wanted)]). \<exists>w. rev (fst tx) @ snd tx = locks w"
    using acquire(4) set_update_subset_insert [of txs i "(l # held, wanted)"] by (fastforce simp: lock_inv_def)
  have "set (fst (txs[i := (l # held, wanted)] ! a)) \<inter> set (fst (txs[i := (l # held, wanted)] ! b)) = {}"
    if "a < length txs" "b < length txs" "a \<noteq> b" for a b
  proof -
    have "set (fst (txs ! a)) \<inter> set (fst (txs ! b)) = {}" using that acquire(4) by (simp add: lock_inv_def)
    with that acquire(1-3) show ?thesis by (auto simp: nth_list_update free_for_def)
  qed
  with 1 show ?case by (simp add: lock_inv_def)
next
  case (finish before held after)
  then show ?case unfolding lock_inv_def lock_inv_pairwise by (auto simp: sorted_wrt_append)
qed

lemma lock_step_inv: "lock_step txs txs' \<Longrightarrow> lock_inv txs \<Longrightarrow> lock_inv txs'"
proof (induction rule: lock_step.induct)
  case (start txs w)
  then show ?case unfolding lock_inv_def lock_inv_pairwise by (auto simp: sorted_wrt_append)
qed (rule lock_progress_inv)

interpretation lock_order: transition_system "\<lambda>txs. txs = []" lock_step lock_inv
  by unfold_locales (simp add: lock_inv_def, rule lock_step_inv)

text \<open>What is held while something is still wanted can only be the lock of the outbox.\<close>

lemma waiting_holds:
  assumes "rev held @ wanted = locks w" and "wanted \<noteq> []"
  shows "set held \<subseteq> {outboxAdvisoryLock}"
  using assms by (cases held; cases w) (auto simp: append_eq_Cons_conv Cons_eq_append_conv split: if_splits)

lemma lock_progress_possible:
  assumes "lock_inv txs" and "txs \<noteq> []"
  shows "\<exists>txs'. lock_progress txs txs'"
proof (cases "\<exists>tx \<in> set txs. snd tx = []")
  case True
  then obtain before held after where "txs = before @ (held, []) # after" by (metis prod.collapse split_list)
  then show ?thesis using lock_progress.finish by metis
next
  case False
  have held: "set (fst (txs ! j)) \<subseteq> {outboxAdvisoryLock}" if j: "j < length txs" for j
  proof -
    have "txs ! j \<in> set txs" using j by simp
    then have "\<exists>w. rev (fst (txs ! j)) @ snd (txs ! j) = locks w" "snd (txs ! j) \<noteq> []"
      using assms(1) False unfolding lock_inv_def by blast+
    then show ?thesis using waiting_holds by blast
  qed
  have wants: "\<exists>h l ws. txs ! i = (h, l # ws)" if "i < length txs" for i
    using False that by (metis list.exhaust nth_mem prod.collapse)
  have "\<exists>i < length txs. \<forall>j < length txs. j \<noteq> i \<longrightarrow> fst (txs ! j) = []"
  proof (cases "\<exists>i < length txs. fst (txs ! i) \<noteq> []")
    case True
    then obtain i where i: "i < length txs" "fst (txs ! i) \<noteq> []" by blast
    have "fst (txs ! j) = []" if "j < length txs" "j \<noteq> i" for j
    proof (rule ccontr)
      assume "fst (txs ! j) \<noteq> []"
      then have "outboxAdvisoryLock \<in> set (fst (txs ! i))" "outboxAdvisoryLock \<in> set (fst (txs ! j))"
        using held [OF i(1)] held [OF that(1)] i(2) by (metis insert_subset set_empty subset_singletonD order_refl)+
      with assms(1) that i(1) show False by (auto simp: lock_inv_def)
    qed
    with i(1) show ?thesis by blast
  next
    case False
    with assms(2) show ?thesis by (intro exI [of _ 0]) auto
  qed
  then obtain i where i: "i < length txs" "\<forall>j < length txs. j \<noteq> i \<longrightarrow> fst (txs ! j) = []" by blast
  obtain h l ws where t: "txs ! i = (h, l # ws)" using wants [OF i(1)] by blast
  have "free_for txs i l" using i(2) by (simp add: free_for_def)
  from lock_progress.acquire [OF i(1) t this] show ?thesis by blast
qed

lemma lock_progress_work: "lock_progress txs txs' \<Longrightarrow> work txs' < work txs"
proof (induction rule: lock_progress.induct)
  case (acquire i txs held l wanted)
  have t: "work txs = work (take i txs @ txs ! i # drop (Suc i) txs)" using id_take_nth_drop [OF acquire(1)] by (rule arg_cong)
  have "work txs = work (take i txs) + Suc (Suc (length wanted)) + work (drop (Suc i) txs)"
    unfolding t acquire(2) by (simp add: work_def)
  moreover have "work (txs[i := (l # held, wanted)]) = work (take i txs) + Suc (length wanted) + work (drop (Suc i) txs)"
    by (simp add: work_def upd_conv_take_nth_drop [OF acquire(1)])
  ultimately show ?case by simp
qed (simp add: work_def)

subsection \<open>Migrations\<close>

text \<open>
  The embedded files are given by their names and whether they are directories; running the SQL of a file is a parameter that may
  fail and may itself write to the ledger of applied versions.
\<close>

datatype migration_error = NoPrefix string | InvalidVersion string | ApplyFailed int

record 'd schema =
  sc_ledger :: "int list"
  sc_data :: 'd

definition has_suffix :: "string \<Rightarrow> string \<Rightarrow> bool" where
  "has_suffix s suffix \<longleftrightarrow> length suffix \<le> length s \<and> drop (length s - length suffix) s = suffix"

definition migration_version :: "string \<Rightarrow> (migration_error, int) result" where
  "migration_version name =
     (if CHR ''_'' \<notin> set name then Inl (NoPrefix name)
      else case atoi (takeWhile (\<lambda>ch. ch \<noteq> CHR ''_'') name) of
          None \<Rightarrow> Inl (InvalidVersion name)
        | Some v \<Rightarrow> if v \<le> 0 then Inl (InvalidVersion name) else Inr v)"

fun migrate_loop :: "(string \<Rightarrow> 'd schema \<Rightarrow> 'd schema option) \<Rightarrow> (string \<times> bool) list \<Rightarrow> 'd schema \<Rightarrow> (migration_error, 'd schema) result" where
  "migrate_loop run_sql [] sc = Inr sc"
| "migrate_loop run_sql ((name, isDir) # entries) sc =
     (if isDir \<or> \<not> has_suffix name ''.sql'' then migrate_loop run_sql entries sc
      else case migration_version name of
          Inl e \<Rightarrow> Inl e
        | Inr version \<Rightarrow>
            if version \<in> set (sc_ledger sc) then migrate_loop run_sql entries sc
            else case run_sql name sc of
                None \<Rightarrow> Inl (ApplyFailed version)
              | Some sc' \<Rightarrow> migrate_loop run_sql entries (sc'\<lparr>sc_ledger := List.insert version (sc_ledger sc')\<rparr>))"

text \<open>One transaction: on an error nothing is kept.\<close>

definition Migrate :: "(string \<Rightarrow> 'd schema \<Rightarrow> 'd schema option) \<Rightarrow> (string \<times> bool) list \<Rightarrow> 'd schema \<Rightarrow> migration_error option \<times> 'd schema" where
  "Migrate run_sql entries sc = (case migrate_loop run_sql entries sc of Inl e \<Rightarrow> (Some e, sc) | Inr sc' \<Rightarrow> (None, sc'))"

lemma migrate_loop_ledger:
  assumes grows: "\<And>name sc sc'. run_sql name sc = Some sc' \<Longrightarrow> set (sc_ledger sc) \<subseteq> set (sc_ledger sc')"
  shows "migrate_loop run_sql entries sc = Inr sc' \<Longrightarrow> set (sc_ledger sc) \<subseteq> set (sc_ledger sc') \<and>
    (\<forall>(name, isDir) \<in> set entries. isDir \<or> \<not> has_suffix name ''.sql'' \<or> (\<exists>v \<in> set (sc_ledger sc'). migration_version name = Inr v))"
proof (induction entries arbitrary: sc)
  case (Cons entry entries)
  obtain name isDir where e: "entry = (name, isDir)" by fastforce
  show ?case
  proof (cases "isDir \<or> \<not> has_suffix name ''.sql''")
    case True
    with Cons e show ?thesis by auto
  next
    case False
    then obtain v where v: "migration_version name = Inr v" using Cons.prems e by (auto split: sum.splits)
    show ?thesis
    proof (cases "v \<in> set (sc_ledger sc)")
      case True
      then have "migrate_loop run_sql entries sc = Inr sc'" using Cons.prems e False v by simp
      from Cons.IH [OF this] True e v show ?thesis by auto
    next
      case new: False
      then obtain sc1 where s: "run_sql name sc = Some sc1" "migrate_loop run_sql entries (sc1\<lparr>sc_ledger := List.insert v (sc_ledger sc1)\<rparr>) = Inr sc'"
        using Cons.prems e False v by (auto split: option.splits)
      from Cons.IH [OF s(2)] grows [OF s(1)] e v show ?thesis by auto
    qed
  qed
qed simp

text \<open>Starting again on a migrated database runs no migration.\<close>

lemma migrate_again:
  assumes "\<And>name sc sc'. run_sql name sc = Some sc' \<Longrightarrow> set (sc_ledger sc) \<subseteq> set (sc_ledger sc')"
    and "Migrate run_sql entries sc = (None, sc')"
  shows "Migrate other_sql entries sc' = (None, sc')"
proof -
  have "migrate_loop run_sql entries sc = Inr sc'" using assms(2) by (auto simp: Migrate_def split: sum.splits)
  with migrate_loop_ledger [of run_sql entries sc sc'] assms(1) have applied: "\<forall>(name, isDir) \<in> set entries.
      isDir \<or> \<not> has_suffix name ''.sql'' \<or> (\<exists>v \<in> set (sc_ledger sc'). migration_version name = Inr v)" by blast
  have "migrate_loop other_sql es sc' = Inr sc'" if "set es \<subseteq> set entries" for es
    using that
  proof (induction es)
    case (Cons entry es)
    with applied show ?case by (cases entry) fastforce
  qed simp
  from this [of entries] show ?thesis by (simp add: Migrate_def)
qed

subsection \<open>Opening\<close>

text \<open>
  The driver is a parameter: \<open>connect\<close> parses the URL and opens the pool, with the limit on its connections if one is given, and
  \<open>ping\<close> reaches the database.
\<close>

datatype open_postgres_error = PoolFailed | PingFailed | MigrationFailed migration_error

definition OpenPostgres :: "(string \<Rightarrow> int option \<Rightarrow> 'd schema option) \<Rightarrow> ('d schema \<Rightarrow> bool) \<Rightarrow> (string \<Rightarrow> 'd schema \<Rightarrow> 'd schema option) \<Rightarrow>
    (string \<times> bool) list \<Rightarrow> string \<Rightarrow> int \<Rightarrow> (open_postgres_error, 'd schema) result" where
  "OpenPostgres connect ping run_sql entries databaseURL maxConnections =
     (case connect databaseURL (if 0 < maxConnections then Some maxConnections else None) of
        None \<Rightarrow> Inl PoolFailed
      | Some db \<Rightarrow>
          if \<not> ping db then Inl PingFailed
          else (case Migrate run_sql entries db of (Some e, _) \<Rightarrow> Inl (MigrationFailed e) | (None, db') \<Rightarrow> Inr db'))"

text \<open>A database that was opened once is opened again without a migration, whatever the files then do.\<close>

lemma open_postgres_again:
  assumes "\<And>name sc sc'. run_sql name sc = Some sc' \<Longrightarrow> set (sc_ledger sc) \<subseteq> set (sc_ledger sc')"
    and "OpenPostgres connect ping run_sql entries url conns = Inr db" and "connect' url (if 0 < conns then Some conns else None) = Some db"
    and "ping' db"
  shows "OpenPostgres connect' ping' other_sql entries url conns = Inr db"
proof -
  obtain sc where "Migrate run_sql entries sc = (None, db)"
    using assms(2) by (auto simp: OpenPostgres_def split: option.splits if_splits prod.splits)
  from migrate_again [OF assms(1) this] assms(3,4) show ?thesis by (simp add: OpenPostgres_def)
qed

subsection \<open>Properties\<close>

text \<open>
  C14. The order of the locks excludes deadlock: in every state that commits, rebuilds and migrations can reach, as long as one is in
  flight, one can take its next lock or end, and each such step brings all of them closer to their end. No lock is held by two
  of them, and a commit, like a rebuild with a reset, has the lock of the outbox when it has all it needs, so the numbers of the
  cursors are drawn in the order in which the rows become visible.
\<close>

theorem lock_order_deadlock_free:
  assumes "lock_step\<^sup>*\<^sup>* [] txs"
  shows "(txs \<noteq> [] \<longrightarrow> (\<exists>txs'. lock_progress txs txs') \<and> (\<forall>txs'. lock_progress txs txs' \<longrightarrow> work txs' < work txs)) \<and>
    (\<forall>i j. i < length txs \<and> j < length txs \<and> i \<noteq> j \<longrightarrow> set (fst (txs ! i)) \<inter> set (fst (txs ! j)) = {}) \<and>
    (\<forall>key events. outboxAdvisoryLock \<in> set (locks (CommitWriter key)) \<and>
      (list_ex ev_Reset events \<longrightarrow> outboxAdvisoryLock \<in> set (locks (RebuildWriter key events))))"
proof -
  have i: "lock_inv txs" by (rule lock_order.reachable_inv [OF refl assms])
  then have "\<forall>i j. i < length txs \<and> j < length txs \<and> i \<noteq> j \<longrightarrow> set (fst (txs ! i)) \<inter> set (fst (txs ! j)) = {}"
    by (simp add: lock_inv_def)
  moreover have "txs \<noteq> [] \<longrightarrow> (\<exists>txs'. lock_progress txs txs')" using lock_progress_possible [OF i] by blast
  ultimately show ?thesis using lock_progress_work by simp
qed

theorem lock_order_deadlock_free_witness:
  "\<exists>txs'. lock_progress [([], locks (CommitWriter sample_key))] txs'"
proof -
  have "lock_step [] ([] @ [([], locks (CommitWriter sample_key))])" by (rule lock_step.start)
  then have r: "lock_step\<^sup>*\<^sup>* [] [([], locks (CommitWriter sample_key))]" by (simp add: r_into_rtranclp del: locks.simps)
  then show ?thesis using lock_order_deadlock_free [OF r] by blast
qed

end
