(* ===== verification/Delivery.thy ===== *)
theory Delivery
  imports Postgres_Results
begin

text \<open>
  The dispatcher of \<^verbatim>\<open>internal/outbox/dispatcher.go\<close> beside the writers of the store. The loops of \<^verbatim>\<open>Run\<close> and \<^verbatim>\<open>Flush\<close>
  are cut at every call they make, so that commits of lanes, other users of the broker and crashes of the process can come
  between any two of them. What was accepted is recorded beside the state.
\<close>

subsection \<open>The dispatcher, call by call\<close>

text \<open>\<open>Publishing todo cursors\<close>: inside a batch, with the events still to offer and the cursors collected.\<close>

datatype phase = Waiting | Polling | Publishing "SignalEvent list" "int list"

record ('s, 'p) dispatcher =
  dp_store :: 's
  dp_out :: 'p
  dp_phase :: phase
  dp_health :: outbox_health
  dp_accepted :: "SignalEvent list"

abbreviation at_phase :: "'s \<Rightarrow> 'p \<Rightarrow> phase \<Rightarrow> outbox_health \<Rightarrow> SignalEvent list \<Rightarrow> ('s, 'p) dispatcher" where
  "at_phase s p phase h acc \<equiv> \<lparr>dp_store = s, dp_out = p, dp_phase = phase, dp_health = h, dp_accepted = acc\<rparr>"

definition stop_flush :: "('e flush_error, unit) result \<Rightarrow> ('s, 'p) dispatcher \<Rightarrow> ('s, 'p) dispatcher" where
  "stop_flush r d = d\<lparr>dp_phase := Waiting, dp_health := record_flush r (dp_health d)\<rparr>"

definition dispatcher_next :: "'s outbox_ops \<Rightarrow> ('e, 'p) publisher \<Rightarrow> ('s, 'p) dispatcher \<Rightarrow> ('s, 'p) dispatcher" where
  "dispatcher_next ops publish d =
     (case dp_phase d of
        Waiting \<Rightarrow> d\<lparr>dp_phase := Polling\<rparr>
      | Polling \<Rightarrow>
          (case ob_PendingEvents ops (dp_store d) 250 of
             Inl e \<Rightarrow> stop_flush (Inl (StoreFailed e) :: ('e flush_error, unit) result) d
           | Inr events \<Rightarrow>
               if events = [] then stop_flush (Inr () :: ('e flush_error, unit) result) d else d\<lparr>dp_phase := Publishing events []\<rparr>)
      | Publishing (event # events) cursors \<Rightarrow>
          (case publish (dp_out d) event of
             (Some e, p) \<Rightarrow> stop_flush (Inl (PublishFailed e)) (d\<lparr>dp_out := p\<rparr>)
           | (None, p) \<Rightarrow> d\<lparr>dp_out := p, dp_phase := Publishing events (cursors @ [ev_Cursor event]),
               dp_accepted := dp_accepted d @ [event]\<rparr>)
      | Publishing [] cursors \<Rightarrow>
          (case ob_MarkPublished ops (dp_store d) cursors of
             (Inl e, s) \<Rightarrow> stop_flush (Inl (StoreFailed e) :: ('e flush_error, unit) result) (d\<lparr>dp_store := s\<rparr>)
           | (Inr _, s) \<Rightarrow>
               if length cursors < 250 then stop_flush (Inr () :: ('e flush_error, unit) result) (d\<lparr>dp_store := s\<rparr>)
               else d\<lparr>dp_store := s, dp_phase := Polling\<rparr>))"

definition dispatcher_runs :: "'s outbox_ops \<Rightarrow> ('e, 'p) publisher \<Rightarrow> ('s, 'p) dispatcher \<Rightarrow> ('s, 'p) dispatcher \<Rightarrow> bool" where
  "dispatcher_runs ops publish = (\<lambda>d d'. d' = dispatcher_next ops publish d)\<^sup>*\<^sup>*"

lemma runs_next: "dispatcher_runs ops publish (dispatcher_next ops publish d) d' \<Longrightarrow> dispatcher_runs ops publish d d'"
  unfolding dispatcher_runs_def by (rule converse_rtranclp_into_rtranclp) simp_all

lemma runs_refl [simp]: "dispatcher_runs ops publish d d"
  by (simp add: dispatcher_runs_def)

lemma runs_trans: "dispatcher_runs ops publish d d1 \<Longrightarrow> dispatcher_runs ops publish d1 d2 \<Longrightarrow> dispatcher_runs ops publish d d2"
  unfolding dispatcher_runs_def by (rule rtranclp_trans)

lemma runs_step: "dispatcher_runs ops publish d d1 \<Longrightarrow> dispatcher_next ops publish d1 = d2 \<Longrightarrow> dispatcher_runs ops publish d d2"
  unfolding dispatcher_runs_def by (rule rtranclp.rtrancl_into_rtrancl) auto

lemma publish_batch_runs:
  "publish_batch publish p events = (r, p') \<Longrightarrow> \<exists>accepted.
     dispatcher_runs ops publish (at_phase s p (Publishing events cursors) h acc)
       (case r of
          Inl e \<Rightarrow> at_phase s p' Waiting (record_flush (Inl (PublishFailed e)) h) accepted
        | Inr cs \<Rightarrow> at_phase s p' (Publishing [] (cursors @ cs)) h accepted)"
proof (induction events arbitrary: p cursors acc r)
  case Nil
  then show ?case by (auto simp: dispatcher_runs_def)
next
  case (Cons event events)
  obtain o1 p1 where 1: "publish p event = (o1, p1)" by fastforce
  show ?case
  proof (cases o1)
    case (Some e)
    with 1 Cons.prems show ?thesis
      by - (rule exI [of _ acc], rule runs_next, auto simp: dispatcher_next_def stop_flush_def)
  next
    case None
    obtain r1 p2 where 2: "publish_batch publish p1 events = (r1, p2)" by fastforce
    with 1 None Cons.prems have r: "p2 = p'" "r = (case r1 of Inl e \<Rightarrow> Inl e | Inr cs \<Rightarrow> Inr (ev_Cursor event # cs))"
      by (auto split: sum.splits)
    obtain accepted where
      a: "dispatcher_runs ops publish (at_phase s p1 (Publishing events (cursors @ [ev_Cursor event])) h (acc @ [event]))
        (case r1 of
          Inl e \<Rightarrow> at_phase s p' Waiting (record_flush (Inl (PublishFailed e)) h) accepted
        | Inr cs \<Rightarrow> at_phase s p' (Publishing [] ((cursors @ [ev_Cursor event]) @ cs)) h accepted)"
      using Cons.IH [OF 2 [unfolded r(1)], of "cursors @ [ev_Cursor event]" "acc @ [event]"] by blast
    with 1 None r(2) show ?thesis
      by - (rule exI [of _ accepted], rule runs_next, auto simp: dispatcher_next_def split: sum.splits)
  qed
qed

lemma batch_runs:
  assumes "ob_PendingEvents ops s 250 = Inr events" and "events \<noteq> []" and "publish_batch publish p events = (r, p')"
  shows "\<exists>accepted. dispatcher_runs ops publish (at_phase s p Polling h acc)
    (case r of
       Inl e \<Rightarrow> at_phase s p' Waiting (record_flush (Inl (PublishFailed e)) h) accepted
     | Inr cs \<Rightarrow> at_phase s p' (Publishing [] cs) h accepted)"
proof -
  let ?d = "at_phase s p Polling h acc"
  have n: "dispatcher_next ops publish ?d = at_phase s p (Publishing events []) h acc"
    using assms by (simp add: dispatcher_next_def)
  show ?thesis
    using publish_batch_runs [OF assms(3), of ops s "[]" h acc] unfolding append_Nil by (elim exE) (rule exI, rule runs_next, unfold n)
qed

text \<open>The end of a batch: the flush goes on after a full one that was marked, and stops otherwise.\<close>

lemma marked_runs:
  fixes publish :: "('e, 'p) publisher"
  assumes "publish_batch publish p events = (Inr cs, p')" and "ob_PendingEvents ops s 250 = Inr events" and "events \<noteq> []"
    and "ob_MarkPublished ops s cs = (m, s')"
  shows "\<exists>accepted. dispatcher_runs ops publish (at_phase s p Polling h acc)
    (if is_ok m \<and> 250 \<le> length events then at_phase s' p' Polling h accepted
     else at_phase s' p' Waiting (record_flush (map_sum StoreFailed (\<lambda>_. ()) m :: ('e flush_error, unit) result) h) accepted)"
proof -
  have len: "length cs = length events" using publish_batch_ok [OF assms(1)] by simp
  obtain acc1 where "dispatcher_runs ops publish (at_phase s p Polling h acc) (at_phase s p' (Publishing [] cs) h acc1)"
    using batch_runs [OF assms(2,3,1)] by auto
  moreover have "dispatcher_next ops publish (at_phase s p' (Publishing [] cs) h acc1) =
      (if is_ok m \<and> 250 \<le> length events then at_phase s' p' Polling h acc1
       else at_phase s' p' Waiting (record_flush (map_sum StoreFailed (\<lambda>_. ()) m :: ('e flush_error, unit) result) h) acc1)"
    using assms(4) len by (cases m) (auto simp: dispatcher_next_def stop_flush_def record_flush_def)
  ultimately show ?thesis by (intro exI) (rule runs_step)
qed

text \<open>The flush, as a loop, and the calls of the dispatcher agree.\<close>

lemma flush_body_runs:
  fixes publish :: "('e, 'p) publisher"
  assumes IH: "\<And>s' p' acc. flush s' p' = Some y \<Longrightarrow> \<exists>accepted. dispatcher_runs ops publish
      (at_phase s' p' Polling h acc) (at_phase (fst (snd y)) (snd (snd y)) Waiting (record_flush (fst y) h) accepted)"
    and step: "(case ob_PendingEvents ops s 250 of
        Inl e \<Rightarrow> Some (Inl (StoreFailed e), s, p)
      | Inr events \<Rightarrow>
          if events = [] then Some (Inr (), s, p)
          else (case publish_batch publish p events of
              (Inl e, p') \<Rightarrow> Some (Inl (PublishFailed e), s, p')
            | (Inr cursors, p') \<Rightarrow>
                (case ob_MarkPublished ops s cursors of
                   (Inl e, s') \<Rightarrow> Some (Inl (StoreFailed e), s', p')
                 | (Inr _, s') \<Rightarrow> if length events < 250 then Some (Inr (), s', p') else flush s' p'))) = Some y"
  shows "\<exists>accepted. dispatcher_runs ops publish
      (at_phase s p Polling h acc) (at_phase (fst (snd y)) (snd (snd y)) Waiting (record_flush (fst y) h) accepted)"
proof (cases "\<exists>events. ob_PendingEvents ops s 250 = Inr events \<and> events \<noteq> []")
  case False
  then have "dispatcher_next ops publish (at_phase s p Polling h acc) = at_phase (fst (snd y)) (snd (snd y)) Waiting (record_flush (fst y) h) acc"
    using step by (auto simp: dispatcher_next_def stop_flush_def record_flush_def split: sum.splits if_splits)
  then show ?thesis by (intro exI) (rule runs_step [OF runs_refl])
next
  case True
  then obtain events where pend: "ob_PendingEvents ops s 250 = Inr events" "events \<noteq> []" by blast
  obtain r p' where b: "publish_batch publish p events = (r, p')" by fastforce
  show ?thesis
  proof (cases r)
    case (Inl e)
    with batch_runs [OF pend b] step pend b show ?thesis by auto
  next
    case (Inr cs)
    obtain m s' where m: "ob_MarkPublished ops s cs = (m, s')" by fastforce
    from marked_runs [OF b [unfolded Inr] pend m] obtain acc1 where
      run: "dispatcher_runs ops publish (at_phase s p Polling h acc)
        (if is_ok m \<and> 250 \<le> length events then at_phase s' p' Polling h acc1
         else at_phase s' p' Waiting (record_flush (map_sum StoreFailed (\<lambda>_. ()) m :: ('e flush_error, unit) result) h) acc1)" by blast
    show ?thesis
    proof (cases "is_ok m \<and> 250 \<le> length events")
      case True
      then have f: "flush s' p' = Some y" using step pend b Inr m by (cases m) auto
      have "dispatcher_runs ops publish (at_phase s p Polling h acc) (at_phase s' p' Polling h acc1)" using run True by simp
      from runs_trans [OF this] IH [OF f, of acc1] show ?thesis by blast
    next
      case False
      then have "y = (map_sum StoreFailed (\<lambda>_. ()) m, s', p')" using step pend b Inr m by (cases m) auto
      with run False show ?thesis by auto
    qed
  qed
qed

lemma flush_runs:
  fixes publish :: "('e, 'p) publisher"
  assumes "Flush ops publish s p = Some y"
  shows "\<exists>accepted. dispatcher_runs ops publish
      (at_phase s p Polling h acc) (at_phase (fst (snd y)) (snd (snd y)) Waiting (record_flush (fst y) h) accepted)"
proof (rule Flush.raw_induct [OF _ assms, where P = "\<lambda>ops publish s p y. \<forall>acc. \<exists>accepted. dispatcher_runs ops publish
    (at_phase s p Polling h acc) (at_phase (fst (snd y)) (snd (snd y)) Waiting (record_flush (fst y) h) accepted)", THEN spec], rule allI)
  fix flush ops s p y acc and publish :: "('e, 'p) publisher"
  assume IH: "\<And>ops publish s p y. flush ops publish s p = Some y \<Longrightarrow> \<forall>acc. \<exists>accepted. dispatcher_runs ops publish
      (at_phase s p Polling h acc) (at_phase (fst (snd y)) (snd (snd y)) Waiting (record_flush (fst y) h) accepted)"
    and step: "(case ob_PendingEvents ops s 250 of
        Inl e \<Rightarrow> Some (Inl (StoreFailed e), s, p)
      | Inr events \<Rightarrow>
          if events = [] then Some (Inr (), s, p)
          else (case publish_batch publish p events of
              (Inl e, p') \<Rightarrow> Some (Inl (PublishFailed e), s, p')
            | (Inr cursors, p') \<Rightarrow>
                (case ob_MarkPublished ops s cursors of
                   (Inl e, s') \<Rightarrow> Some (Inl (StoreFailed e), s', p')
                 | (Inr _, s') \<Rightarrow> if length events < 250 then Some (Inr (), s', p') else flush ops publish s' p'))) = Some y"
  show "\<exists>accepted. dispatcher_runs ops publish
      (at_phase s p Polling h acc) (at_phase (fst (snd y)) (snd (snd y)) Waiting (record_flush (fst y) h) accepted)"
    by (rule flush_body_runs [where flush = "flush ops publish", OF _ step]) (use IH in blast)
qed

subsection \<open>The dispatcher beside the writers\<close>

text \<open>
  The dispatcher goes on by one call; a writer changes the store; others use the broker, the hub and the connection; the process
  crashes and is started again, with whatever broker and health it then has, and recovers from the store alone.
\<close>

inductive life_step :: "'s outbox_ops \<Rightarrow> ('e, 'p) publisher \<Rightarrow> ('s \<Rightarrow> 's \<Rightarrow> bool) \<Rightarrow> ('s, 'p) dispatcher \<Rightarrow> ('s, 'p) dispatcher \<Rightarrow> bool"
  for ops publish writer where
  dispatch: "life_step ops publish writer d (dispatcher_next ops publish d)"
| written: "writer (dp_store d) s \<Longrightarrow> life_step ops publish writer d (d\<lparr>dp_store := s\<rparr>)"
| other_use: "life_step ops publish writer d (d\<lparr>dp_out := p\<rparr>)"
| crash: "life_step ops publish writer d (d\<lparr>dp_phase := Polling, dp_out := p, dp_health := h\<rparr>)"

lemma runs_life: "dispatcher_runs ops publish d d' \<Longrightarrow> (life_step ops publish writer)\<^sup>*\<^sup>* d d'"
  unfolding dispatcher_runs_def by (erule rtranclp_mono [THEN predicate2D, rotated]) (auto intro: life_step.dispatch)

text \<open>A dispatcher that has done nothing yet, on a store whose log is all to be delivered.\<close>

definition new_dispatcher :: "'s \<Rightarrow> 'p \<Rightarrow> ('s, 'p) dispatcher" where
  "new_dispatcher s p = \<lparr>dp_store = s, dp_out = p, dp_phase = Polling, dp_health = \<lparr>oh_healthy = False, oh_errors = 0\<rparr>, dp_accepted = []\<rparr>"

text \<open>
  The contract of a store with a log: the backlog is a part of the log, marking does not change the log, and a writer appends to
  both.
\<close>

locale logged_outbox = outbox_store +
  fixes log :: "'a \<Rightarrow> SignalEvent list"
    and writer :: "'a \<Rightarrow> 'a \<Rightarrow> bool"
  assumes log_sorted: "good s \<Longrightarrow> sorted_wrt (<) (map ev_Cursor (log s))"
    and backlog_log: "good s \<Longrightarrow> \<exists>P. backlog s = filter P (log s)"
    and mark_log: "good s \<Longrightarrow> ob_MarkPublished ops s cursors = (r, s') \<Longrightarrow> log s' = log s"
    and write_good: "writer s s' \<Longrightarrow> good s \<Longrightarrow> good s'"
    and write_log: "writer s s' \<Longrightarrow> good s \<Longrightarrow> \<exists>new. log s' = log s @ new \<and> backlog s' = backlog s @ new"
begin

text \<open>
  What is no longer pending was accepted, what was accepted is closed under earlier cursors, and a batch continues it without a
  gap.
\<close>

definition batch_inv :: "'a \<Rightarrow> SignalEvent list \<Rightarrow> SignalEvent list \<Rightarrow> int list \<Rightarrow> bool" where
  "batch_inv s acc todo cursors \<longleftrightarrow> set cursors \<subseteq> ev_Cursor ` (set acc \<inter> set (backlog s)) \<and> set todo \<subseteq> set (backlog s) \<and>
     sorted_wrt (<) (map ev_Cursor todo) \<and>
     (\<forall>e \<in> set todo. \<forall>x \<in> set (log s). ev_Cursor x < ev_Cursor e \<longrightarrow> x \<in> set acc \<or> x \<in> set todo)"

definition accepted_inv :: "'a \<Rightarrow> SignalEvent list \<Rightarrow> bool" where
  "accepted_inv s acc \<longleftrightarrow> good s \<and> set (log s) \<subseteq> set (backlog s) \<union> set acc \<and> set acc \<subseteq> set (log s) \<and>
     (\<forall>a \<in> set acc. \<forall>x \<in> set (log s). ev_Cursor x < ev_Cursor a \<longrightarrow> x \<in> set acc)"

definition life_inv :: "('a, 'p) dispatcher \<Rightarrow> bool" where
  "life_inv d \<longleftrightarrow> accepted_inv (dp_store d) (dp_accepted d) \<and>
     (case dp_phase d of Publishing todo cursors \<Rightarrow> batch_inv (dp_store d) (dp_accepted d) todo cursors | _ \<Rightarrow> True)"

lemma log_cursor_unique: "good s \<Longrightarrow> x \<in> set (log s) \<Longrightarrow> y \<in> set (log s) \<Longrightarrow> ev_Cursor x = ev_Cursor y \<Longrightarrow> x = y"
  using log_sorted by (fastforce simp: strict_sorted_iff distinct_map dest: inj_onD)

lemma backlog_subset: "good s \<Longrightarrow> set (backlog s) \<subseteq> set (log s)"
  using backlog_log by fastforce

lemma poll_batch:
  assumes "accepted_inv s acc" and "ob_PendingEvents ops s 250 = Inr events"
  shows "batch_inv s acc events []"
proof -
  have good: "good s" and cover: "set (log s) \<subseteq> set (backlog s) \<union> set acc" using assms(1) by (simp_all add: accepted_inv_def)
  have e: "events = take 250 (backlog s)" using pending [OF good, of 250 events] assms(2) by simp
  obtain P where P: "backlog s = filter P (log s)" using backlog_log [OF good] by blast
  have sorted: "sorted_wrt (<) (map ev_Cursor (backlog s))"
    using log_sorted [OF good] unfolding P by (simp add: sorted_wrt_map sorted_wrt_filter)
  have "x \<in> set events" if "b \<in> set events" "x \<in> set (backlog s)" "ev_Cursor x < ev_Cursor b" for b x
  proof (rule ccontr)
    assume "x \<notin> set events"
    then have "x \<in> set (drop 250 (backlog s))" using that(2) e by (metis Un_iff append_take_drop_id set_append)
    moreover have "sorted_wrt (<) (map ev_Cursor (take 250 (backlog s) @ drop 250 (backlog s)))" using sorted by simp
    ultimately have "ev_Cursor b < ev_Cursor x" using that(1) e by (fastforce simp only: map_append sorted_wrt_append set_map)
    with that(3) show False by simp
  qed
  moreover have "set events \<subseteq> set (backlog s)" using e by (auto dest: in_set_takeD)
  moreover have "sorted_wrt (<) (map ev_Cursor events)" using sorted e by (metis sorted_wrt_take take_map)
  ultimately show ?thesis using cover by (auto simp: batch_inv_def)
qed

lemma offer_batch:
  assumes "accepted_inv s acc" and "batch_inv s acc (event # todo) cursors"
  shows "accepted_inv s (acc @ [event])" and "batch_inv s (acc @ [event]) todo (cursors @ [ev_Cursor event])"
proof -
  have good: "good s" and b: "event \<in> set (backlog s)" "set todo \<subseteq> set (backlog s)" "\<forall>e \<in> set todo. ev_Cursor event < ev_Cursor e"
    using assms by (auto simp: accepted_inv_def batch_inv_def)
  have "x \<in> set acc" if "x \<in> set (log s)" "ev_Cursor x < ev_Cursor event" for x
    using that assms(2) b(3) unfolding batch_inv_def by (auto dest: less_asym)
  then show "accepted_inv s (acc @ [event])"
    using assms(1) b(1) backlog_subset [OF good] by (auto simp: accepted_inv_def)
  show "batch_inv s (acc @ [event]) todo (cursors @ [ev_Cursor event])"
    using assms(2) by (auto simp: batch_inv_def)
qed

lemma mark_accepted:
  assumes "accepted_inv s acc" and "batch_inv s acc [] cursors" and "ob_MarkPublished ops s cursors = (r, s')"
  shows "accepted_inv s' acc"
proof -
  have good: "good s" and sub: "set acc \<subseteq> set (log s)" using assms(1) by (simp_all add: accepted_inv_def)
  have c: "set cursors \<subseteq> ev_Cursor ` set (backlog s)" using assms(2) by (auto simp: batch_inv_def)
  have l: "log s' = log s" by (rule mark_log [OF good assms(3)])
  have m: "good s' \<and> (backlog s' = backlog s \<or> backlog s' = filter (\<lambda>e. ev_Cursor e \<notin> set cursors) (backlog s))"
    using mark_ok [OF good c] mark_error [OF good c] assms(3) by (cases r) auto
  have "e \<in> set acc" if e: "e \<in> set (backlog s)" "ev_Cursor e \<in> set cursors" for e
  proof -
    obtain a where "a \<in> set acc" "ev_Cursor a = ev_Cursor e" using e(2) assms(2) by (auto simp: batch_inv_def)
    then show ?thesis using log_cursor_unique [OF good] sub backlog_subset [OF good] e(1) by blast
  qed
  then have "set (backlog s) \<subseteq> set (backlog s') \<union> set acc" using m by auto
  then have "set (log s') \<subseteq> set (backlog s') \<union> set acc" using l assms(1) by (auto simp: accepted_inv_def)
  with m l assms(1) show ?thesis by (simp add: accepted_inv_def)
qed

lemma write_accepted:
  assumes "writer s s'" and "accepted_inv s acc"
  shows "accepted_inv s' acc" and "batch_inv s acc todo cursors \<Longrightarrow> batch_inv s' acc todo cursors"
proof -
  have good: "good s" "good s'" using assms write_good by (auto simp: accepted_inv_def)
  obtain new where n: "log s' = log s @ new" "backlog s' = backlog s @ new" using write_log [OF assms(1) good(1)] by blast
  have later: "ev_Cursor x < ev_Cursor y" if "x \<in> set (log s)" "y \<in> set new" for x y
    using log_sorted [OF good(2)] that unfolding n(1) by (auto simp: sorted_wrt_append)
  show "accepted_inv s' acc"
    using assms(2) good(2) later n by (fastforce simp: accepted_inv_def)
  show "batch_inv s acc todo cursors \<Longrightarrow> batch_inv s' acc todo cursors"
    using later n backlog_subset [OF good(1)] unfolding batch_inv_def by (fastforce dest: less_asym)
qed

lemma next_inv:
  fixes d :: "('a, 'p) dispatcher" and publish :: "('e, 'p) publisher"
  assumes "life_inv d"
  shows "life_inv (dispatcher_next ops publish d)"
proof (cases "dp_phase d")
  case Waiting
  with assms show ?thesis by (simp add: life_inv_def dispatcher_next_def)
next
  case Polling
  then have a: "accepted_inv (dp_store d) (dp_accepted d)" using assms by (simp add: life_inv_def)
  show ?thesis
  proof (cases "ob_PendingEvents ops (dp_store d) 250")
    case (Inl e)
    with Polling a show ?thesis by (simp add: life_inv_def dispatcher_next_def stop_flush_def)
  next
    case (Inr events)
    with Polling a poll_batch [OF a Inr] show ?thesis by (simp add: life_inv_def dispatcher_next_def stop_flush_def)
  qed
next
  case (Publishing todo cursors)
  then have i: "accepted_inv (dp_store d) (dp_accepted d)" "batch_inv (dp_store d) (dp_accepted d) todo cursors"
    using assms by (simp_all add: life_inv_def)
  show ?thesis
  proof (cases todo)
    case Nil
    obtain r s where m: "ob_MarkPublished ops (dp_store d) cursors = (r, s)" by fastforce
    have "accepted_inv s (dp_accepted d)" using mark_accepted [OF i(1) i(2) [unfolded Nil] m] .
    with Publishing Nil m show ?thesis by (simp add: life_inv_def dispatcher_next_def stop_flush_def split: sum.splits)
  next
    case (Cons event events)
    obtain r p where m: "publish (dp_out d) event = (r, p)" by fastforce
    with Publishing Cons i(1) offer_batch [OF i(1) i(2) [unfolded Cons]]
    show ?thesis by (simp add: life_inv_def dispatcher_next_def stop_flush_def split: option.splits)
  qed
qed

lemma life_step_inv: "life_step ops publish writer d d' \<Longrightarrow> life_inv d \<Longrightarrow> life_inv d'"
proof (induction rule: life_step.induct)
  case (dispatch d)
  then show ?case by (rule next_inv)
next
  case (written d s)
  then show ?case using write_accepted [of "dp_store d" s] by (auto simp: life_inv_def split: phase.splits)
qed (auto simp: life_inv_def split: phase.splits)

text \<open>What was accepted is at every moment a prefix of the log, repetitions apart.\<close>

lemma accepted_prefix:
  assumes "accepted_inv s acc"
  shows "\<exists>n. set acc = set (take n (log s))"
proof -
  have a: "good s" "set acc \<subseteq> set (log s)" "\<forall>a \<in> set acc. \<forall>x \<in> set (log s). ev_Cursor x < ev_Cursor a \<longrightarrow> x \<in> set acc"
    using assms by (simp_all add: accepted_inv_def)
  have "sorted_wrt (<) (map ev_Cursor l) \<Longrightarrow> set acc \<inter> set l = set (takeWhile (\<lambda>e. e \<in> set acc) l)" if "set l \<subseteq> set (log s)" for l
    using that
  proof (induction l)
    case (Cons x l)
    show ?case
    proof (cases "x \<in> set acc")
      case True
      with Cons show ?thesis by auto
    next
      case False
      have "y \<notin> set acc" if "y \<in> set l" for y
        using a(3) Cons.prems that False by fastforce
      with False show ?thesis by auto
    qed
  qed simp
  from this [OF subset_refl log_sorted [OF a(1)]] a(2) have "set acc = set (takeWhile (\<lambda>e. e \<in> set acc) (log s))" by blast
  then show ?thesis by (metis takeWhile_eq_take)
qed

lemma life_delivery:
  assumes "good s" and "backlog s = log s" and "(life_step ops publish writer)\<^sup>*\<^sup>* (new_dispatcher s p) d"
  shows "good (dp_store d) \<and> (\<exists>n. set (dp_accepted d) = set (take n (log (dp_store d)))) \<and>
    set (log (dp_store d)) - set (backlog (dp_store d)) \<subseteq> set (dp_accepted d)"
proof -
  have "life_inv (new_dispatcher s p)" using assms(1,2) by (simp add: life_inv_def new_dispatcher_def accepted_inv_def)
  with assms(3) have "life_inv d" by (induction rule: rtranclp_induct) (auto intro: life_step_inv)
  then show ?thesis using accepted_prefix by (auto simp: life_inv_def accepted_inv_def)
qed

end

subsection \<open>The memory store\<close>

definition memory_writes :: "Memory \<Rightarrow> Memory \<Rightarrow> bool" where
  "memory_writes s s' \<longleftrightarrow> (\<exists>key bar evs snaps r. Memory_CommitClosed s key bar evs snaps = (r, s')) \<or>
     (\<exists>key evs snaps lastBar r. Memory_RebuildSeries s key evs snaps lastBar = (r, s'))"

lemma commit_events_new:
  "foldl commit_event (committed, s) evs = (committed', s') \<Longrightarrow> mem_next s \<le> mem_next s' \<and> mem_published s' = mem_published s \<and>
     (\<exists>new. mem_events s' = mem_events s @ new \<and> (\<forall>e \<in> set new. mem_next s < ev_Cursor e))"
proof (induction evs arbitrary: committed s)
  case (Cons e evs)
  obtain c1 s1 where 1: "commit_event (committed, s) e = (c1, s1)" by fastforce
  have "mem_next s \<le> mem_next s1 \<and> mem_published s1 = mem_published s \<and>
      (\<exists>new. mem_events s1 = mem_events s @ new \<and> (\<forall>e \<in> set new. mem_next s < ev_Cursor e))"
    using commit_event_cases [OF 1] by (auto simp: append_event_def)
  moreover have "mem_next s1 \<le> mem_next s' \<and> mem_published s' = mem_published s1 \<and>
      (\<exists>new. mem_events s' = mem_events s1 @ new \<and> (\<forall>e \<in> set new. mem_next s1 < ev_Cursor e))"
    using Cons.IH [of c1 s1] Cons.prems 1 by simp
  ultimately show ?case by fastforce
qed simp

lemma memory_grows:
  assumes "wf_memory s" and "mem_events s' = mem_events s @ new" and "\<forall>e \<in> set new. \<not> mem_published s' (ev_Cursor e)"
    and "\<forall>e \<in> set (mem_events s). mem_published s' (ev_Cursor e) = mem_published s (ev_Cursor e)"
  shows "mem_events s' = mem_events s @ new \<and> memory_backlog s' = memory_backlog s @ new"
  using assms by (auto simp: memory_backlog_def intro: filter_cong)

lemma memory_writes_grow:
  assumes "memory_writes s s'" and "wf_memory s"
  shows "\<exists>new. mem_events s' = mem_events s @ new \<and> memory_backlog s' = memory_backlog s @ new"
proof -
  have old: "ev_Cursor e \<le> mem_next s" if "e \<in> set (mem_events s)" for e
    using assms(2) that by (simp add: wf_memory_def)
  consider (commit) key bar evs snaps r where "Memory_CommitClosed s key bar evs snaps = (r, s')"
    | (rebuild) key evs snaps lastBar r where "Memory_RebuildSeries s key evs snaps lastBar = (r, s')"
    using assms(1) unfolding memory_writes_def by blast
  then show ?thesis
  proof cases
    case commit
    then show ?thesis
    proof (cases rule: Memory_CommitClosed_cases)
      case (commit committed s1)
      from commit_events_new [OF commit(2)] obtain new where n: "mem_events s1 = mem_events s @ new" "\<forall>e \<in> set new. mem_next s < ev_Cursor e"
          "mem_published s1 = mem_published s" by blast
      have f: "mem_events s' = mem_events s1" "mem_published s' = mem_published s1" unfolding commit(4) by simp_all
      have "mem_events s' = mem_events s @ new \<and> memory_backlog s' = memory_backlog s @ new"
        using n f assms(2) by (intro memory_grows) (auto simp: wf_memory_def)
      then show ?thesis by blast
    qed (auto intro: exI [of _ "[]"])
  next
    case rebuild
    then show ?thesis
    proof (cases rule: Memory_RebuildSeries_cases)
      case (rebuilt committed s1)
      have f: "mem_events s' = mem_events s1" "mem_published s' = mem_published s1" unfolding rebuilt(4) by (simp_all split: option.splits)
      have "mem_events s' = mem_events s @ committed \<and> memory_backlog s' = memory_backlog s @ committed"
        using rebuild_events_spec [OF rebuilt(2)] f old assms(2) by (intro memory_grows) auto
      then show ?thesis by blast
    qed (auto intro: exI [of _ "[]"])
  qed
qed

interpretation memory_log: logged_outbox memory_outbox memory_backlog wf_memory mem_events memory_writes
proof unfold_locales
  fix s s'
  assume w: "memory_writes s s'" and good: "wf_memory s"
  then show "\<exists>new. mem_events s' = mem_events s @ new \<and> memory_backlog s' = memory_backlog s @ new" by (rule memory_writes_grow)
  have "mem_step s s'" using w unfolding memory_writes_def by (auto intro: mem_step.intros)
  then show "wf_memory s'" using good by (rule mem_step_wf)
qed (auto simp: wf_memory_def memory_backlog_def Memory_MarkPublished_alt)

subsection \<open>The PostgreSQL store\<close>

definition pg_writes :: "'j codec \<Rightarrow> 'j Postgres \<Rightarrow> 'j Postgres \<Rightarrow> bool" where
  "pg_writes c db db' \<longleftrightarrow> (\<exists>key bar events snaps r. Postgres_CommitClosed c db key bar events snaps = (r, db')) \<or>
     (\<exists>key events snaps lastBar r. Postgres_RebuildSeries c db key events snaps lastBar = (r, db') \<and>
        (\<forall>e \<in> set events. ev_Reset e \<longrightarrow> ev_Indicator e = None)) \<or>
     (\<exists>fs. db' = db\<lparr>db_fates := fs\<rparr>)"

definition pg_log :: "'j codec \<Rightarrow> 'j Postgres \<Rightarrow> SignalEvent list" where
  "pg_log c db = map (row_event c) (pg_outbox (db_tables db))"

lemma rows_grow:
  assumes "pg_outbox (db_tables db') = pg_outbox (db_tables db) @ new" and "\<forall>r \<in> set new. \<not> or_published r"
  shows "pg_log c db' = pg_log c db @ map (row_event c) new \<and> pg_backlog c db' = pg_backlog c db @ map (row_event c) new"
  using assms by (simp add: pg_log_def pg_backlog_def)

lemma progressed_grow:
  assumes "progressed c sel events key lastBar (db_tables db) cs (db_tables db')"
  shows "\<exists>new. pg_log c db' = pg_log c db @ new \<and> pg_backlog c db' = pg_backlog c db @ new"
proof -
  obtain new where "pg_outbox (db_tables db') = pg_outbox (db_tables db) @ new" "\<forall>row \<in> set new. pg_next (db_tables db) < or_cursor row \<and>
      (\<exists>e \<in> set events. \<exists>p. sel e = Some p \<and> algorithm_text c (ev_Algorithm e) \<and> row_of c e p row)"
    using assms by (rule progressed_rows)
  then show ?thesis using rows_grow [of db' db new c] by (auto simp: row_of_def)
qed

lemma same_rows_grow: "pg_outbox (db_tables db') = pg_outbox (db_tables db) \<Longrightarrow>
    \<exists>new. pg_log c db' = pg_log c db @ new \<and> pg_backlog c db' = pg_backlog c db @ new"
  using rows_grow [of db' db "[]" c] by auto

lemma pg_writes_grow:
  assumes "pg_writes c db db'"
  shows "\<exists>new. pg_log c db' = pg_log c db @ new \<and> pg_backlog c db' = pg_backlog c db @ new"
proof -
  consider (commit) key bar events snaps r where "Postgres_CommitClosed c db key bar events snaps = (r, db')"
    | (rebuild) key events snaps lastBar r where "Postgres_RebuildSeries c db key events snaps lastBar = (r, db')"
    | (fates) fs where "db' = db\<lparr>db_fates := fs\<rparr>"
    using assms unfolding pg_writes_def by blast
  then show ?thesis
  proof cases
    case commit
    then show ?thesis
    proof (cases rule: Postgres_CommitClosed_cases)
      case (effect x t)
      from effect(1) show ?thesis
        by (cases rule: commit_closed_cases) (use effect(2) progressed_grow same_rows_grow [of db' db] in auto)
    qed (simp add: same_rows_grow)
  next
    case rebuild
    then show ?thesis
    proof (cases rule: Postgres_RebuildSeries_cases)
      case (effect x t)
      from effect(1) show ?thesis
        by (cases rule: rebuild_series_cases) (use effect(2) progressed_grow in auto)
    qed (simp add: same_rows_grow)
  qed (simp add: same_rows_grow)
qed

lemma pg_writes_step: "pg_writes c db db' \<Longrightarrow> pg_step c db db'"
  unfolding pg_writes_def by (auto intro: pg_step.intros)

lemma mark_pg_log:
  assumes "Postgres_MarkPublished db cursors = (r, db')"
  shows "pg_log c db' = pg_log c db"
  using assms by (cases rule: Postgres_MarkPublished_cases) (simp_all add: pg_log_def mark_rows_def)

definition pg_good :: "'j codec \<Rightarrow> 'j Postgres \<Rightarrow> bool" where
  "pg_good c db \<longleftrightarrow> faithful c \<and> readable c (db_tables db)"

interpretation postgres_log: logged_outbox "postgres_outbox c" "pg_backlog c" "pg_good c" "pg_log c" "pg_writes c" for c :: "'j codec"
proof unfold_locales
  fix s s' :: "'j Postgres" and cursors u
  assume "pg_good c s" "set cursors \<subseteq> ev_Cursor ` set (pg_backlog c s)" "ob_MarkPublished (postgres_outbox c) s cursors = (Inr u, s')"
  then show "pg_good c s' \<and> pg_backlog c s' = filter (\<lambda>e. ev_Cursor e \<notin> set cursors) (pg_backlog c s)"
    using postgres_outbox.mark_ok unfolding pg_good_def by blast
next
  fix s s' :: "'j Postgres" and cursors e
  assume "pg_good c s" "set cursors \<subseteq> ev_Cursor ` set (pg_backlog c s)" "ob_MarkPublished (postgres_outbox c) s cursors = (Inl e, s')"
  then show "pg_good c s' \<and> (pg_backlog c s' = pg_backlog c s \<or> pg_backlog c s' = filter (\<lambda>e. ev_Cursor e \<notin> set cursors) (pg_backlog c s))"
    using postgres_outbox.mark_error unfolding pg_good_def by blast
next
  fix s s' :: "'j Postgres"
  assume w: "pg_writes c s s'" and good: "pg_good c s"
  show "\<exists>new. pg_log c s' = pg_log c s @ new \<and> pg_backlog c s' = pg_backlog c s @ new" using w by (rule pg_writes_grow)
  have "tables_inv c (db_tables s)" using good by (simp add: pg_good_def tables_inv_def readable_def)
  with pg_step_inv [OF pg_writes_step [OF w]] show "pg_good c s'" using good by (simp add: pg_good_def tables_inv_def readable_def)
next
  show "\<And>s. pg_good c s \<Longrightarrow> \<exists>P. pg_backlog c s = filter P (pg_log c s)"
    using pg_backlog_log [of _ c] by (auto simp: pg_good_def readable_def pg_log_def memory_backlog_def log_of_def)
qed (auto simp: pg_good_def readable_def pg_log_def pg_wf_def comp_def Postgres_PendingEvents_backlog backlog_distinct mark_pg_log [unfolded pg_log_def])

lemma fresh_delivery:
  assumes "faithful c" and "pg_start db0"
  shows "pg_good c db0" "pg_backlog c db0 = pg_log c db0"
  using assms reachable_readable [OF assms(2) rtranclp.rtrancl_refl assms(1)]
  by (simp_all add: pg_good_def pg_start_def pg_backlog_def pg_log_def empty_tables_def)

subsection \<open>Properties\<close>

definition accept_all :: "(unit, SignalEvent list) publisher" where
  "accept_all p event = (None, p @ [event])"

definition sample_life :: "(SignalEvent Postgres, SignalEvent list) dispatcher" where
  "sample_life = (new_dispatcher (fresh_db []) [])\<lparr>dp_store := snd (sample_commit [])\<rparr>"

lemma sample_life_reachable:
  "(life_step (postgres_outbox plain_codec) accept_all (pg_writes plain_codec))\<^sup>*\<^sup>* (new_dispatcher (fresh_db []) []) sample_life"
proof -
  have "pg_writes plain_codec (fresh_db []) (snd (sample_commit []))"
    unfolding pg_writes_def sample_commit_def by (metis surjective_pairing)
  then have "life_step (postgres_outbox plain_codec) accept_all (pg_writes plain_codec) (new_dispatcher (fresh_db []) []) sample_life"
    unfolding sample_life_def by (intro life_step.written) (simp add: new_dispatcher_def)
  then show ?thesis by (rule r_into_rtranclp)
qed

text \<open>
  C3. Delivery is gap-free and at least once, whatever happens. Between any two calls of the dispatcher lanes may commit and
  rebuild, requests may fail or lose their acknowledgement, others may use the broker, and the process may crash and start again. At every
  moment the events that were accepted are, repetitions apart, exactly a prefix of the durable log: none is accepted before
  every earlier one was, and none that is marked as published is missing.
\<close>

theorem delivery_log_prefix:
  assumes "faithful c" and "pg_start db0" and "(life_step (postgres_outbox c) publish (pg_writes c))\<^sup>*\<^sup>* (new_dispatcher db0 p) d"
  shows "(\<exists>n. set (dp_accepted d) = set (take n (pg_log c (dp_store d)))) \<and>
    (\<forall>row \<in> set (pg_outbox (db_tables (dp_store d))). or_published row \<longrightarrow> row_event c row \<in> set (dp_accepted d))"
proof -
  note l = postgres_log.life_delivery [OF fresh_delivery [OF assms(1,2)] assms(3)]
  let ?rows = "pg_outbox (db_tables (dp_store d))"
  have "distinct (map or_cursor ?rows)" using l by (simp add: pg_good_def readable_def pg_wf_def strict_sorted_iff)
  then have "r = row" if "r \<in> set ?rows" "row \<in> set ?rows" "row_event c r = row_event c row" for r row
    using that by (metis distinct_map inj_onD row_event_cursor)
  then have "row_event c row \<in> set (pg_log c (dp_store d)) - set (pg_backlog c (dp_store d))" if "row \<in> set ?rows" "or_published row" for row
    using that by (auto simp: pg_log_def pg_backlog_def)
  with l show ?thesis by blast
qed

text \<open>The dispatcher after its poll and its first publication.\<close>

lemma sample_accepted:
  "\<exists>event. dp_accepted ((dispatcher_next (postgres_outbox plain_codec) accept_all ^^ 2) sample_life) = [event]"
proof -
  have "\<exists>event. Postgres_PendingEvents plain_codec (snd (sample_commit [])) 250 = Inr [event]"
    by (simp add: Postgres_PendingEvents_def db_query_def sample_commit_def Postgres_CommitClosed_def transact_def fresh_db_def sample_commit_defs)
  then show ?thesis
    by (auto simp: numeral_2_eq_2 dispatcher_next_def sample_life_def new_dispatcher_def accept_all_def)
qed

theorem delivery_log_prefix_witness:
  "\<exists>d n event. (life_step (postgres_outbox plain_codec) accept_all (pg_writes plain_codec))\<^sup>*\<^sup>* (new_dispatcher (fresh_db []) []) d \<and>
     dp_accepted d = [event] \<and> set (dp_accepted d) = set (take n (pg_log plain_codec (dp_store d)))"
proof -
  let ?next = "dispatcher_next (postgres_outbox plain_codec) accept_all"
  have run: "(life_step (postgres_outbox plain_codec) accept_all (pg_writes plain_codec))\<^sup>*\<^sup>* (new_dispatcher (fresh_db []) [])
      ((?next ^^ 2) sample_life)"
    unfolding numeral_2_eq_2 using sample_life_reachable
    by (auto intro: rtranclp.rtrancl_into_rtrancl life_step.dispatch)
  then show ?thesis using sample_accepted delivery_log_prefix [OF faithful_plain pg_start_fresh run] by blast
qed

text \<open>
  C17. A flush that has begun is completed. In every state that the process can reach with the dispatcher about to poll, its calls, left
  alone, carry out the flush of the outbox and come back to waiting for the ticker, with the outcome recorded as
  the health; when the flush succeeds, every event of the log has been accepted.
\<close>

theorem delivery_flush_completes:
  assumes "faithful c" and "pg_start db0" and "(life_step (postgres_outbox c) publish (pg_writes c))\<^sup>*\<^sup>* (new_dispatcher db0 p) d"
    and "dp_phase d = Polling"
  shows "\<exists>r db' p' accepted. Flush (postgres_outbox c) publish (dp_store d) (dp_out d) = Some (r, db', p') \<and>
    dispatcher_runs (postgres_outbox c) publish d
      \<lparr>dp_store = db', dp_out = p', dp_phase = Waiting, dp_health = record_flush r (dp_health d), dp_accepted = accepted\<rparr> \<and>
    (is_ok r \<longrightarrow> set accepted = set (pg_log c db'))"
proof -
  have "readable c (db_tables (dp_store d))"
    using postgres_log.life_delivery [OF fresh_delivery [OF assms(1,2)] assms(3)] by (simp add: pg_good_def)
  from postgres_outbox.flush_total [OF this, of publish "dp_out d"] obtain r db' p' where
    f: "Flush (postgres_outbox c) publish (dp_store d) (dp_out d) = Some (r, db', p')" "is_ok r \<longrightarrow> pg_backlog c db' = []" by blast
  have d: "d = \<lparr>dp_store = dp_store d, dp_out = dp_out d, dp_phase = Polling, dp_health = dp_health d, dp_accepted = dp_accepted d\<rparr>"
    using assms(4) by simp
  from flush_runs [OF f(1), of "dp_health d" "dp_accepted d"] obtain accepted where
    run: "dispatcher_runs (postgres_outbox c) publish d
      \<lparr>dp_store = db', dp_out = p', dp_phase = Waiting, dp_health = record_flush r (dp_health d), dp_accepted = accepted\<rparr>"
    unfolding d [symmetric] by auto
  from postgres_log.life_delivery [OF fresh_delivery [OF assms(1,2)] rtranclp_trans [OF assms(3) runs_life [OF run]]]
  have "is_ok r \<longrightarrow> set accepted = set (pg_log c db')" using f(2) by (auto dest: in_set_takeD)
  with f(1) run show ?thesis by (intro exI conjI)
qed

theorem delivery_flush_completes_witness:
  "\<exists>d. dispatcher_runs (postgres_outbox plain_codec) accept_all sample_life d \<and> dp_phase d = Waiting"
proof -
  have "dp_phase sample_life = Polling" by (simp add: sample_life_def new_dispatcher_def)
  from delivery_flush_completes [OF faithful_plain pg_start_fresh sample_life_reachable this] show ?thesis
    by (elim exE conjE) (rule exI, rule conjI, assumption, simp)
qed

end
