(* ===== verification/Process.thy ===== *)
theory Process
  imports Config Streams Http Input Session Postgres_Lane Postgres_Locks Delivery
begin

text \<open>
  \<^verbatim>\<open>cmd/signald/main.go\<close>: how the process is put together. The database driver, the broker client and the passing of time are
  parameters; the store is the memory store or the PostgreSQL store, the publishers of the outbox are the broker, if one is
  configured, and then the hub.
\<close>

subsection \<open>Publishers\<close>

text \<open>What the publishers act on; a hub that panicked is \<open>None\<close>.\<close>

record 'n outlets =
  ot_broker :: "'n JetStream"
  ot_hub :: "Hub option"

definition hub_publish :: "Hub option \<Rightarrow> SignalEvent \<Rightarrow> Hub option" where
  "hub_publish h event = Option.bind h (\<lambda>h. Hub_Publish h event)"

definition hubPublisher :: "('e, 'n outlets) publisher" where
  "hubPublisher p event = (None, p\<lparr>ot_hub := hub_publish (ot_hub p) event\<rparr>)"

text \<open>The clock is read off the state of the broker client.\<close>

definition broker_publish :: "('e, 'n) sender \<Rightarrow> ('n \<Rightarrow> time) \<Rightarrow> ('e broker_error, 'n JetStream) publisher" where
  "broker_publish send clock j event = JetStream_Publish send j event (clock (js_context j))"

definition brokerPublisher :: "('e, 'n) sender \<Rightarrow> ('n \<Rightarrow> time) \<Rightarrow> ('e broker_error, 'n outlets) publisher" where
  "brokerPublisher send clock p event =
     (case broker_publish send clock (ot_broker p) event of (e, j) \<Rightarrow> (e, p\<lparr>ot_broker := j\<rparr>))"

fun multiPublisher :: "('e, 'p) publisher list \<Rightarrow> ('e, 'p) publisher" where
  "multiPublisher [] p event = (None, p)"
| "multiPublisher (publish # publishers) p event =
     (case publish p event of (Some e, p') \<Rightarrow> (Some e, p') | (None, p') \<Rightarrow> multiPublisher publishers p' event)"

definition publishers :: "('e, 'n) sender \<Rightarrow> ('n \<Rightarrow> time) \<Rightarrow> Config \<Rightarrow> ('e broker_error, 'n outlets) publisher list" where
  "publishers send clock settings = (if cf_NATSURL settings \<noteq> [] then [brokerPublisher send clock] else []) @ [hubPublisher]"

text \<open>
  The live publisher of a lane. It tries until the frame is accepted, the context is cancelled or the frame is a snapshot that the next
  one replaces; \<open>pause\<close> is what happens to the client's state while a second passes. The value \<open>None\<close> is not returning; the error
  component is that of the last attempt.
\<close>

definition is_replaceable :: "'e broker_error \<Rightarrow> bool" where
  "is_replaceable e = (case e of ReplaceableEvaluation _ \<Rightarrow> True | _ \<Rightarrow> False)"

partial_function (option) evaluationBrokerPublisher ::
    "('e, 'n) sender \<Rightarrow> ('n \<Rightarrow> time) \<Rightarrow> ('n \<Rightarrow> bool) \<Rightarrow> ('n \<Rightarrow> 'n) \<Rightarrow> 'n JetStream \<Rightarrow> SignalEvent \<Rightarrow> ('e broker_error option \<times> 'n JetStream) option" where
  "evaluationBrokerPublisher send clock cancelled pause j event =
     (case PublishEvaluation send j event (clock (js_context j)) of
        (None, j') \<Rightarrow> Some (None, j')
      | (Some e, j') \<Rightarrow>
          if cancelled (js_context j') then Some (Some e, j')
          else if ev_Provisional event \<and> is_replaceable e then Some (Some e, j')
          else let j'' = j'\<lparr>js_context := pause (js_context j')\<rparr>
            in if cancelled (js_context j'') then Some (Some e, j'')
               else evaluationBrokerPublisher send clock cancelled pause j'' event)"

subsection \<open>Stores\<close>

datatype 'j service_store = MemoryStore Memory | PostgresStore "'j Postgres"

text \<open>The opening of the database, \<open>OpenPostgres\<close> on the driver, is a parameter; its errors are wrapped.\<close>

definition openStore :: "(string \<Rightarrow> int \<Rightarrow> (store_error, 'j Postgres) result) \<Rightarrow> Config \<Rightarrow> (store_error, 'j service_store) result" where
  "openStore open_postgres settings =
     (if cf_DatabaseURL settings = [] then Inr (MemoryStore NewMemory)
      else case open_postgres (cf_DatabaseURL settings) (cf_DatabaseMaxConns settings) of Inl e \<Rightarrow> Inl e | Inr db \<Rightarrow> Inr (PostgresStore db))"

definition service_outbox :: "'j codec \<Rightarrow> 'j service_store outbox_ops" where
  "service_outbox c = \<lparr>
     ob_PendingEvents = (\<lambda>s n. case s of MemoryStore m \<Rightarrow> Inr (Memory_PendingEvents m n) | PostgresStore db \<Rightarrow> Postgres_PendingEvents c db n),
     ob_MarkPublished = (\<lambda>s cursors. case s of
         MemoryStore m \<Rightarrow> (case Memory_MarkPublished m cursors of (r, m') \<Rightarrow> (r, MemoryStore m'))
       | PostgresStore db \<Rightarrow> (case Postgres_MarkPublished db cursors of (r, db') \<Rightarrow> (r, PostgresStore db')))\<rparr>"

subsection \<open>Starting\<close>

definition ohlc_options :: "Config \<Rightarrow> OHLCOptions" where
  "ohlc_options settings = \<lparr>oo_URL = cf_OHLCWebSocketURL settings, oo_Token = cf_OHLCToken settings, oo_Series = cf_Series settings,
     oo_SeedBars = cf_SeedBars settings, oo_Sink = True, oo_MinBackoff = 0, oo_MaxBackoff = 0, oo_HandshakeWait = 0\<rparr>"

definition server_options :: "Config \<Rightarrow> ServerOptions" where
  "server_options settings = \<lparr>so_Addr = cf_HTTPAddr settings, so_AuthToken = cf_APIAuthToken settings,
     so_InsecureNoAuth = cf_InsecureNoAuth settings, so_AllowedOrigins = cf_AllowedOrigins settings, so_Periods = cf_Periods settings,
     so_Parts = True, so_ShutdownTimeout = cf_ShutdownTimeout settings\<rparr>"

datatype 'e run_error = ConfigFailed config_error | StoreOpenFailed store_error | BrokerOpenFailed open_error | RegistryFailed registry_error |
  ClientFailed | ServerFailed | RecoveryFailed "'e broker_error flush_error"

record ('j, 'n) running =
  ru_settings :: Config
  ru_store :: "'j service_store"
  ru_registry :: Registry
  ru_client :: OHLCOptions
  ru_server :: ServerOptions
  ru_outlets :: "'n outlets"

definition connect_broker :: "(string \<Rightarrow> string \<Rightarrow> 'n option) \<Rightarrow> 'n stream_ops \<Rightarrow> 'n \<Rightarrow> Config \<Rightarrow> (open_error, 'n JetStream) result" where
  "connect_broker connect nats no_broker settings =
     (if cf_NATSURL settings \<noteq> [] then JetStream_Open connect nats (cf_NATSURL settings) (cf_NATSToken settings) (cf_NATSReplicas settings)
      else Inr (open_broker no_broker))"

text \<open>
  \<^verbatim>\<open>run\<close> up to the start of the goroutines: the outbox is flushed before any input is accepted. Without a broker its client is not
  opened; \<open>no_broker\<close> stands for the unused value.
\<close>

definition startup :: "'j codec \<Rightarrow> (string \<Rightarrow> int \<Rightarrow> (store_error, 'j Postgres) result) \<Rightarrow> (string \<Rightarrow> string \<Rightarrow> 'n option) \<Rightarrow> 'n stream_ops \<Rightarrow> 'n \<Rightarrow>
    ('e, 'n) sender \<Rightarrow> ('n \<Rightarrow> time) \<Rightarrow> lookupFunc \<Rightarrow> ('e run_error, ('j, 'n) running) result option" where
  "startup c open_postgres connect nats no_broker send clock lookup =
     (case load lookup of
        Inl e \<Rightarrow> Some (Inl (ConfigFailed e))
      | Inr settings \<Rightarrow>
     (case openStore open_postgres settings of
        Inl e \<Rightarrow> Some (Inl (StoreOpenFailed e))
      | Inr persistence \<Rightarrow>
     (case connect_broker connect nats no_broker settings of
        Inl e \<Rightarrow> Some (Inl (BrokerOpenFailed e))
      | Inr jetstream \<Rightarrow>
     (case NewRegistry (registry_options settings) of
        Inl e \<Rightarrow> Some (Inl (RegistryFailed e))
      | Inr registry \<Rightarrow>
     (case NewOHLCClient (ohlc_options settings) of
        None \<Rightarrow> Some (Inl ClientFailed)
      | Some upstream \<Rightarrow>
     (case NewServer (server_options settings) of
        None \<Rightarrow> Some (Inl ServerFailed)
      | Some server \<Rightarrow>
     (case Flush (service_outbox c) (multiPublisher (publishers send clock settings)) persistence
         \<lparr>ot_broker = jetstream, ot_hub = Some NewHub\<rparr> of
        None \<Rightarrow> None
      | Some (Inl e, _, _) \<Rightarrow> Some (Inl (RecoveryFailed e))
      | Some (Inr _, persistence', out) \<Rightarrow>
          Some (Inr \<lparr>ru_settings = settings, ru_store = persistence', ru_registry = registry, ru_client = upstream, ru_server = server,
            ru_outlets = out\<rparr>))))))))"

subsection \<open>The live publisher\<close>

text \<open>A frame is replaceable only when a frame of the same bar and colour was accepted before it.\<close>

definition repeats_frame :: "(string \<times> liveCursor) list \<Rightarrow> SignalEvent \<Rightarrow> bool" where
  "repeats_frame live event = (case ev_SourceBar event of None \<Rightarrow> False
     | Some bar \<Rightarrow> (case map_of live (liveKey event) of None \<Rightarrow> False
         | Some p \<Rightarrow> lc_openTime p = ev_BarOpenTime event \<and> lc_color p = bar_color bar))"

lemma evaluation_frame_replaceable:
  assumes "evaluation_frame live event now = Inr (Some (msg, True, nc))"
  shows "ev_Provisional event \<and> repeats_frame live event"
  using assms
  by (auto simp: evaluation_frame_def liveDecision_def repeats_frame_def Let_def split: if_splits option.splits sum.splits prod.splits)

lemma PublishEvaluation_error:
  fixes send :: "('e, 'n) sender"
  assumes "PublishEvaluation send j event now = (Some e, j')" and "is_ok (evaluation_frame (js_live j) event now :: ('e broker_error, _) result)"
  obtains msg x n where "send (js_context j) msg = (Some x, n)" "j' = j\<lparr>js_context := n\<rparr>"
    "e = PublishEvaluationFailed x \<or> (e = ReplaceableEvaluation x \<and> ev_Provisional event \<and> repeats_frame (js_live j) event)"
proof -
  from assms obtain msg replaceable nc where f: "(evaluation_frame (js_live j) event now :: ('e broker_error, _) result) = Inr (Some (msg, replaceable, nc))"
    by (auto simp: PublishEvaluation_def is_ok_def split: sum.splits option.splits prod.splits)
  then obtain x n where s: "send (js_context j) msg = (Some x, n)" "j' = j\<lparr>js_context := n\<rparr>"
      "e = (if replaceable then ReplaceableEvaluation x else PublishEvaluationFailed x)"
    using assms(1) by (auto simp: PublishEvaluation_def split: option.splits prod.splits)
  show thesis
  proof (cases replaceable)
    case True
    with that [OF s(1,2)] s(3) evaluation_frame_replaceable f show thesis by metis
  next
    case False
    with that [OF s(1,2)] s(3) show thesis by simp
  qed
qed

subsection \<open>Order of the publishers\<close>

definition hub_feed :: "Hub option \<Rightarrow> SignalEvent list \<Rightarrow> Hub option" where
  "hub_feed h events = foldl hub_publish h events"

lemma publishers_hub_only:
  "cf_NATSURL settings = [] \<Longrightarrow> multiPublisher (publishers send clock settings) p event = (None, p\<lparr>ot_hub := hub_publish (ot_hub p) event\<rparr>)"
  by (simp add: publishers_def hubPublisher_def)

lemma publishers_both:
  assumes "cf_NATSURL settings \<noteq> []" and "broker_publish send clock (ot_broker p) event = (e, j)"
  shows "multiPublisher (publishers send clock settings) p event =
    (case e of None \<Rightarrow> (None, p\<lparr>ot_broker := j, ot_hub := hub_publish (ot_hub p) event\<rparr>) | Some _ \<Rightarrow> (e, p\<lparr>ot_broker := j\<rparr>))"
  using assms by (simp add: publishers_def brokerPublisher_def hubPublisher_def split: option.splits)

text \<open>What was accepted by both went through the broker alone, in the same order, and was handed to the hub.\<close>

lemma accepted_through_broker:
  assumes "cf_NATSURL settings \<noteq> []"
  shows "all_accepted (multiPublisher (publishers send clock settings)) p events \<Longrightarrow>
    all_accepted (broker_publish send clock) (ot_broker p) events \<and>
    publish_all (multiPublisher (publishers send clock settings)) p events =
      p\<lparr>ot_broker := publish_all (broker_publish send clock) (ot_broker p) events, ot_hub := hub_feed (ot_hub p) events\<rparr>"
proof (induction events arbitrary: p)
  case (Cons event events)
  obtain e j where b: "broker_publish send clock (ot_broker p) event = (e, j)" by fastforce
  note m = publishers_both [OF assms b]
  have e: "e = None" using Cons.prems m by (auto split: option.splits)
  with Cons.IH [of "p\<lparr>ot_broker := j, ot_hub := hub_publish (ot_hub p) event\<rparr>"] Cons.prems m b
  show ?case by (simp add: publish_all_def hub_feed_def)
qed (simp add: publish_all_def hub_feed_def)

lemma published_through_broker:
  assumes "cf_NATSURL settings \<noteq> []" and "published_to (multiPublisher (publishers send clock settings)) p events n x p'"
  shows "published_to (broker_publish send clock) (ot_broker p) events n x (ot_broker p') \<and> ot_hub p' = hub_feed (ot_hub p) (take n events)"
proof -
  let ?m = "multiPublisher (publishers send clock settings)"
  have a: "n \<le> length events" "all_accepted ?m p (take n events)" using assms(2) by (simp_all add: published_to_def)
  note t = accepted_through_broker [OF assms(1) a(2)]
  show ?thesis
  proof (cases x)
    case None
    with assms(2) t a show ?thesis by (simp add: published_to_def)
  next
    case (Some e)
    then have s: "n < length events" "?m (publish_all ?m p (take n events)) (events ! n) = (Some e, p')" using assms(2) by (simp_all add: published_to_def)
    obtain e' j where b: "broker_publish send clock (ot_broker (publish_all ?m p (take n events))) (events ! n) = (e', j)" by fastforce
    from publishers_both [OF assms(1) b] s(2) have "e' = Some e" "p' = (publish_all ?m p (take n events))\<lparr>ot_broker := j\<rparr>"
      by (auto split: option.splits)
    with b t a s(1) Some show ?thesis by (simp add: published_to_def)
  qed
qed

lemma published_to_hub:
  assumes "cf_NATSURL settings = []" and "published_to (multiPublisher (publishers send clock settings)) p events n x p'"
  shows "x = None \<and> ot_hub p' = hub_feed (ot_hub p) (take n events)"
proof -
  let ?m = "multiPublisher (publishers send clock settings)"
  have "publish_all ?m q evs = q\<lparr>ot_hub := hub_feed (ot_hub q) evs\<rparr>" for q evs
  proof (induction evs arbitrary: q)
    case (Cons e evs)
    have "publish_all ?m q (e # evs) = publish_all ?m (q\<lparr>ot_hub := hub_publish (ot_hub q) e\<rparr>) evs"
      by (simp add: publish_all_def publishers_hub_only [OF assms(1)])
    then show ?case using Cons by (simp add: hub_feed_def)
  qed (simp add: publish_all_def hub_feed_def)
  then show ?thesis using assms(2) publishers_hub_only [OF assms(1), of send clock]
    by (auto simp: published_to_def split: option.splits)
qed

subsection \<open>The outbox of the process\<close>

definition service_backlog :: "'j codec \<Rightarrow> 'j service_store \<Rightarrow> SignalEvent list" where
  "service_backlog c s = (case s of MemoryStore m \<Rightarrow> memory_backlog m | PostgresStore db \<Rightarrow> pg_backlog c db)"

definition service_good :: "'j codec \<Rightarrow> 'j service_store \<Rightarrow> bool" where
  "service_good c s = (case s of MemoryStore m \<Rightarrow> wf_memory m | PostgresStore db \<Rightarrow> readable c (db_tables db))"

lemma service_outbox_simps [simp]:
  "ob_PendingEvents (service_outbox c) (MemoryStore m) n = ob_PendingEvents memory_outbox m n"
  "ob_PendingEvents (service_outbox c) (PostgresStore db) n = ob_PendingEvents (postgres_outbox c) db n"
  "ob_MarkPublished (service_outbox c) (MemoryStore m) cursors = (case ob_MarkPublished memory_outbox m cursors of (r, m') \<Rightarrow> (r, MemoryStore m'))"
  "ob_MarkPublished (service_outbox c) (PostgresStore db) cursors =
     (case ob_MarkPublished (postgres_outbox c) db cursors of (r, db') \<Rightarrow> (r, PostgresStore db'))"
  by (simp_all add: service_outbox_def)

lemma service_mark_cases:
  assumes "ob_MarkPublished (service_outbox c) s cursors = (r, s')"
  obtains (memory) m m' where "s = MemoryStore m" "s' = MemoryStore m'" "ob_MarkPublished memory_outbox m cursors = (r, m')"
    | (postgres) db db' where "s = PostgresStore db" "s' = PostgresStore db'" "ob_MarkPublished (postgres_outbox c) db cursors = (r, db')"
  using assms by (cases s) (auto simp del: memory_outbox_simps postgres_outbox_simps split: prod.splits)

lemmas service_defs = service_good_def service_backlog_def

interpretation service_outbox: outbox_store "service_outbox c" "service_backlog c" "service_good c" for c :: "'j codec"
proof unfold_locales
  fix s :: "'j service_store" and n events
  assume a: "service_good c s" "0 < n" "n \<le> 1000" "ob_PendingEvents (service_outbox c) s n = Inr events"
  show "events = take (nat n) (service_backlog c s)"
  proof (cases s)
    case (MemoryStore m)
    then show ?thesis using a memory_outbox.pending [of m n events] by (simp add: service_defs)
  next
    case (PostgresStore db)
    then show ?thesis using a postgres_outbox.pending [of c db n events] by (simp add: service_defs)
  qed
next
  fix s s' :: "'j service_store" and cursors u
  assume a: "service_good c s" "set cursors \<subseteq> ev_Cursor ` set (service_backlog c s)" and m: "ob_MarkPublished (service_outbox c) s cursors = (Inr u, s')"
  from m show "service_good c s' \<and> service_backlog c s' = filter (\<lambda>e. ev_Cursor e \<notin> set cursors) (service_backlog c s)"
  proof (cases rule: service_mark_cases)
    case (memory m m')
    then show ?thesis using a memory_outbox.mark_ok [OF _ _ memory(3)] by (simp add: service_defs)
  next
    case (postgres db db')
    then show ?thesis using a postgres_outbox.mark_ok [OF _ _ postgres(3)] by (simp add: service_defs)
  qed
next
  fix s s' :: "'j service_store" and cursors e
  assume a: "service_good c s" "set cursors \<subseteq> ev_Cursor ` set (service_backlog c s)" and m: "ob_MarkPublished (service_outbox c) s cursors = (Inl e, s')"
  from m show "service_good c s' \<and> (service_backlog c s' = service_backlog c s \<or>
      service_backlog c s' = filter (\<lambda>e. ev_Cursor e \<notin> set cursors) (service_backlog c s))"
  proof (cases rule: service_mark_cases)
    case (memory m m')
    then show ?thesis using a memory_outbox.mark_error [OF _ _ memory(3)] by (simp add: service_defs)
  next
    case (postgres db db')
    then show ?thesis using a postgres_outbox.mark_error [OF _ _ postgres(3)] by (simp add: service_defs)
  qed
next
  fix s :: "'j service_store"
  assume "service_good c s"
  then show "distinct (map ev_Cursor (service_backlog c s))"
    using memory_outbox.cursors_distinct postgres_outbox.cursors_distinct [of c] by (cases s) (auto simp: service_defs)
qed

subsection \<open>Credentials\<close>

text \<open>Replies that come from behind the check of the credentials.\<close>

definition reveals :: "reply \<Rightarrow> bool" where
  "reveals reply = (case reply of Catalog _ _ \<Rightarrow> True | Json _ \<Rightarrow> True | Upgraded _ \<Rightarrow> True | BadHandshake \<Rightarrow> True | _ \<Rightarrow> False)"

lemma reveals_simps [simp]: "\<not> reveals Healthy" "\<not> reveals (Readiness ry)" "\<not> reveals (Report lines)" "\<not> reveals (Unauthorized resp)"
    "\<not> reveals (PreflightReply n)" "\<not> reveals NotFound" "\<not> reveals NotAllowed"
  by (simp_all add: reveals_def)

lemma with_auth_reveals: "with_auth opts rq handler = Some reply \<Longrightarrow> reveals reply \<Longrightarrow> authorised opts rq"
  by (auto simp: with_auth_def split: if_splits)

lemma serve_reveals:
  assumes "serve opts st rq = (headers, Some reply)" and "reveals reply"
  shows "authorised opts rq"
proof -
  have "mux opts st rq = Some reply"
    using assms by (auto simp: serve_def Let_def split: prod.splits cors_outcome.splits)
  then show ?thesis
    using assms(2) unfolding mux_def Let_def
    by (simp split: if_split_asm add: with_auth_reveals) (auto dest: with_auth_reveals)
qed

lemma authorised_token: "authorised opts rq \<longleftrightarrow> so_InsecureNoAuth opts \<or> fst (requestCredentials (rq_Authorization rq) (rq_Subprotocols rq)) = so_AuthToken opts"
  by (auto simp: authorised_def auth_def Let_def)

lemma requestCredentials_header: "fst (requestCredentials (bearer_prefix @ t) protocols) = trim_space t"
  by (simp add: requestCredentials_def has_prefix_def bearer_prefix_def)

lemma requestCredentials_protocol:
  "\<not> has_prefix authorization bearer_prefix \<Longrightarrow> fst (requestCredentials authorization [protocol_prefix @ base64_encode t]) = t"
  by (simp add: requestCredentials_def has_prefix_def protocol_prefix_def base64_roundtrip)

subsection \<open>Properties\<close>

text \<open>
  C38. A live frame is never lost. As long as the frame can be encoded and the broker does not refuse for ever, the live publisher
  returns; it returns without an accepted attempt only when the process is shutting down or when the frame is a provisional snapshot of a bar and
  colour that was already published, so confirmed frames and transitions are always delivered, or found to need no frame.
\<close>

theorem evaluation_frames_delivered:
  fixes send :: "('e, 'n) sender" and patience :: "'n \<Rightarrow> nat"
  assumes "\<And>n msg e n'. send n msg = (Some e, n') \<Longrightarrow> patience (pause n') < patience n"
    and "\<And>n. is_ok (evaluation_frame (js_live j) event (clock n) :: ('e broker_error, _) result)"
  shows "\<exists>r j'. evaluationBrokerPublisher send clock cancelled pause j event = Some (r, j') \<and>
    (case r of
       None \<Rightarrow> \<exists>j0. js_live j0 = js_live j \<and> PublishEvaluation send j0 event (clock (js_context j0)) = (None, j')
     | Some e \<Rightarrow> js_live j' = js_live j \<and> (cancelled (js_context j') \<or>
         is_replaceable e \<and> ev_Provisional event \<and> repeats_frame (js_live j) event))"
  using assms(2)
proof (induction "patience (js_context j)" arbitrary: j rule: less_induct)
  case less
  obtain r1 j1 where 1: "PublishEvaluation send j event (clock (js_context j)) = (r1, j1)" by fastforce
  show ?case
  proof (cases r1)
    case None
    then have "evaluationBrokerPublisher send clock cancelled pause j event = Some (None, j1)"
      using 1 by (subst evaluationBrokerPublisher.simps) simp
    with 1 None show ?thesis by auto
  next
    case (Some e)
    with 1 have p: "PublishEvaluation send j event (clock (js_context j)) = (Some e, j1)" by simp
    from PublishEvaluation_error [OF p less.prems] obtain msg x n where x: "send (js_context j) msg = (Some x, n)" "j1 = j\<lparr>js_context := n\<rparr>"
      "e = PublishEvaluationFailed x \<or> (e = ReplaceableEvaluation x \<and> ev_Provisional event \<and> repeats_frame (js_live j) event)" by metis
    let ?j2 = "j1\<lparr>js_context := pause (js_context j1)\<rparr>"
    have live: "js_live j1 = js_live j" "js_live ?j2 = js_live j" using x(2) by simp_all
    consider (cancel) "cancelled (js_context j1)" | (replace) "\<not> cancelled (js_context j1)" "ev_Provisional event \<and> is_replaceable e"
      | (cancel2) "\<not> cancelled (js_context j1)" "\<not> (ev_Provisional event \<and> is_replaceable e)" "cancelled (js_context ?j2)"
      | (again) "\<not> cancelled (js_context j1)" "\<not> (ev_Provisional event \<and> is_replaceable e)" "\<not> cancelled (js_context ?j2)" by blast
    then show ?thesis
    proof cases
      case cancel
      then have "evaluationBrokerPublisher send clock cancelled pause j event = Some (Some e, j1)"
        using p by (subst evaluationBrokerPublisher.simps) simp
      with cancel live show ?thesis by simp
    next
      case replace
      then have "evaluationBrokerPublisher send clock cancelled pause j event = Some (Some e, j1)"
        using p by (subst evaluationBrokerPublisher.simps) simp
      with replace live x(3) show ?thesis by (auto simp: is_replaceable_def)
    next
      case cancel2
      then have "evaluationBrokerPublisher send clock cancelled pause j event = Some (Some e, ?j2)"
        using p by (subst evaluationBrokerPublisher.simps) (auto simp: Let_def)
      with cancel2 live show ?thesis by simp
    next
      case again
      then have f: "evaluationBrokerPublisher send clock cancelled pause j event = evaluationBrokerPublisher send clock cancelled pause ?j2 event"
        using p by (subst evaluationBrokerPublisher.simps) (auto simp: Let_def)
      have "patience (js_context ?j2) < patience (js_context j)" using assms(1) [OF x(1)] x(2) by simp
      moreover have "is_ok (evaluation_frame (js_live ?j2) event (clock n) :: ('e broker_error, _) result)" for n
        using less.prems [of n] by (simp only: live(2))
      ultimately show ?thesis using less.hyps [of ?j2] unfolding f live(2) by blast
    qed
  qed
qed

definition flaky_broker :: "(unit, nat) sender" where
  "flaky_broker n msg = (if n = 0 then (None, 0) else (Some (), n - 1))"

theorem evaluation_frames_delivered_witness:
  "\<exists>j'. evaluationBrokerPublisher flaky_broker (\<lambda>_. 0) (\<lambda>_. False) (\<lambda>n. n) (open_broker 2) sample_forming = Some (None, j')"
proof -
  let ?clock = "\<lambda>_ :: nat. 0 :: time"
  have sent: "patience (id n') < patience n" if "flaky_broker n msg = (Some e, n')" "patience = id" for n msg e n' and patience :: "nat \<Rightarrow> nat"
    using that by (auto simp: flaky_broker_def split: if_splits)
  have "time_encodable 0" by code_simp
  then obtain payload where e: "EncodeAnalysisEvent sample_forming 0 = Inr payload" using sample_forming_encodes by blast
  have ok: "is_ok (evaluation_frame (js_live (open_broker 2)) sample_forming (?clock n) :: (unit broker_error, _) result)" for n
    using e by (simp add: evaluation_frame_def sample_forming_def sample_event_def split: prod.splits)
  have "\<not> repeats_frame (js_live (open_broker 2)) sample_forming" by (simp add: repeats_frame_def open_broker_def split: option.splits)
  then show ?thesis
    using evaluation_frames_delivered [where send = flaky_broker and patience = id and pause = "\<lambda>n. n" and cancelled = "\<lambda>_. False"
        and clock = ?clock and j = "open_broker 2" and event = sample_forming, OF _ ok] sent
    by (fastforce simp: flaky_broker_def split: option.splits if_splits)
qed

text \<open>
  C15. The broker comes before the hub. A flush of the process's outbox, whichever store it has, returns; the clients of the hub
  have then been given exactly a prefix of the pending events in cursor order, each after the configured broker had accepted it, and
  only accepted events are no longer pending.
\<close>

theorem outbox_broker_before_hub:
  assumes "service_good c s"
  shows "\<exists>r s' n k p'. Flush (service_outbox c) (multiPublisher (publishers send clock settings)) s p = Some (r, s', p') \<and>
    ot_hub p' = hub_feed (ot_hub p) (take n (service_backlog c s)) \<and>
    (cf_NATSURL settings \<noteq> [] \<longrightarrow>
       published_to (broker_publish send clock) (ot_broker p) (service_backlog c s) n (refusal r) (ot_broker p')) \<and>
    service_backlog c s' = drop k (service_backlog c s) \<and> k \<le> n"
proof -
  obtain r s' n k p' where f: "Flush (service_outbox c) (multiPublisher (publishers send clock settings)) s p = Some (r, s', p')"
      "published_to (multiPublisher (publishers send clock settings)) p (service_backlog c s) n (refusal r) p'"
      "service_backlog c s' = drop k (service_backlog c s)" "k \<le> n"
    using service_outbox.flush_total [OF assms, of "multiPublisher (publishers send clock settings)" p] by blast
  have "ot_hub p' = hub_feed (ot_hub p) (take n (service_backlog c s))"
    using f(2) published_to_hub published_through_broker by (cases "cf_NATSURL settings = []") blast+
  moreover have "cf_NATSURL settings \<noteq> [] \<longrightarrow>
      published_to (broker_publish send clock) (ot_broker p) (service_backlog c s) n (refusal r) (ot_broker p')"
    using published_through_broker [OF _ f(2)] by simp
  ultimately show ?thesis using f by (intro exI conjI)
qed

theorem outbox_broker_before_hub_witness:
  "\<exists>settings r s' p'. cf_NATSURL settings \<noteq> [] \<and>
     Flush (service_outbox plain_codec) (multiPublisher (publishers flaky_broker (\<lambda>_. 0) settings)) (MemoryStore sample_memory)
       \<lparr>ot_broker = open_broker 1, ot_hub = Some NewHub\<rparr> = Some (r, s', p')"
proof -
  obtain settings where "load sample_env = Inr settings" using sample_env_loads by blast
  have "cf_NATSURL (settings\<lparr>cf_NATSURL := ''nats''\<rparr>) \<noteq> []" by simp
  moreover have "service_good plain_codec (MemoryStore sample_memory)" by (simp add: service_good_def sample_memory_wf)
  ultimately show ?thesis using outbox_broker_before_hub [of plain_codec "MemoryStore sample_memory"] by blast
qed

text \<open>With the configuration and the store there, the start fails before the flush or has its result.\<close>

lemma startup_flush:
  assumes "load lookup = Inr settings" and "openStore open_postgres settings = Inr s"
  shows "(\<exists>e. startup c open_postgres connect nats no_broker send clock lookup = Some (Inl e)) \<or>
    (\<exists>jetstream registry upstream server. connect_broker connect nats no_broker settings = Inr jetstream \<and>
       startup c open_postgres connect nats no_broker send clock lookup =
         (case Flush (service_outbox c) (multiPublisher (publishers send clock settings)) s \<lparr>ot_broker = jetstream, ot_hub = Some NewHub\<rparr> of
            None \<Rightarrow> None
          | Some (Inl e, _, _) \<Rightarrow> Some (Inl (RecoveryFailed e))
          | Some (Inr _, s', out) \<Rightarrow> Some (Inr \<lparr>ru_settings = settings, ru_store = s', ru_registry = registry, ru_client = upstream,
              ru_server = server, ru_outlets = out\<rparr>)))"
proof (cases "\<exists>jetstream registry upstream server. connect_broker connect nats no_broker settings = Inr jetstream \<and>
    NewRegistry (registry_options settings) = Inr registry \<and> NewOHLCClient (ohlc_options settings) = Some upstream \<and>
    NewServer (server_options settings) = Some server")
  case False
  with assms show ?thesis
    by (cases "connect_broker connect nats no_broker settings"; cases "NewRegistry (registry_options settings)";
        cases "NewOHLCClient (ohlc_options settings)"; cases "NewServer (server_options settings)") (simp_all add: startup_def)
next
  case True
  then obtain jetstream registry upstream server where "connect_broker connect nats no_broker settings = Inr jetstream"
      "NewRegistry (registry_options settings) = Inr registry" "NewOHLCClient (ohlc_options settings) = Some upstream"
      "NewServer (server_options settings) = Some server" by blast
  with assms show ?thesis by (intro disjI2 exI conjI) (assumption, simp add: startup_def)
qed

text \<open>
  C16. Starting recovers first. The start of the process always returns; when it succeeds, every event that the opened store held as
  pending was accepted by the configured broker, in order, and nothing is pending when input is first accepted.
\<close>

theorem startup_drains_outbox:
  assumes "\<And>url conns db. open_postgres url conns = Inr db \<Longrightarrow> readable c (db_tables db)"
  shows "\<exists>r. startup c open_postgres connect nats no_broker send clock lookup = Some r \<and> (\<forall>running. r = Inr running \<longrightarrow>
    (\<exists>s jetstream. load lookup = Inr (ru_settings running) \<and> openStore open_postgres (ru_settings running) = Inr s \<and>
       connect_broker connect nats no_broker (ru_settings running) = Inr jetstream \<and> service_backlog c (ru_store running) = [] \<and>
       (cf_NATSURL (ru_settings running) \<noteq> [] \<longrightarrow> published_to (broker_publish send clock) jetstream (service_backlog c s)
          (length (service_backlog c s)) None (ot_broker (ru_outlets running)))))"
proof (cases "\<exists>settings s. load lookup = Inr settings \<and> openStore open_postgres settings = Inr s")
  case False
  then show ?thesis by (auto simp: startup_def split: sum.splits)
next
  case True
  then obtain settings s where parts: "load lookup = Inr settings" "openStore open_postgres settings = Inr s" by blast
  let ?m = "multiPublisher (publishers send clock settings)"
  have good: "service_good c s"
    using parts(2) assms wf_NewMemory by (auto simp: openStore_def service_good_def split: if_splits sum.splits)
  from startup_flush [OF parts, of c connect nats no_broker send clock] show ?thesis
  proof (elim disjE exE conjE)
    fix jetstream registry upstream server
    assume j: "connect_broker connect nats no_broker settings = Inr jetstream"
      and st: "startup c open_postgres connect nats no_broker send clock lookup =
          (case Flush (service_outbox c) ?m s \<lparr>ot_broker = jetstream, ot_hub = Some NewHub\<rparr> of
            None \<Rightarrow> None
          | Some (Inl e, _, _) \<Rightarrow> Some (Inl (RecoveryFailed e))
          | Some (Inr _, s', out) \<Rightarrow> Some (Inr \<lparr>ru_settings = settings, ru_store = s', ru_registry = registry, ru_client = upstream,
              ru_server = server, ru_outlets = out\<rparr>))"
    let ?p = "\<lparr>ot_broker = jetstream, ot_hub = Some NewHub\<rparr>"
    from service_outbox.flush_total [OF good, of ?m ?p] obtain r s' n p' where f: "Flush (service_outbox c) ?m s ?p = Some (r, s', p')"
        "published_to ?m ?p (service_backlog c s) n (refusal r) p'"
        "is_ok r \<longrightarrow> service_backlog c s' = [] \<and> n = length (service_backlog c s)" by blast
    show ?thesis
    proof (cases r)
      case (Inl e)
      with st f show ?thesis by simp
    next
      case (Inr u)
      then have "cf_NATSURL settings \<noteq> [] \<longrightarrow> published_to (broker_publish send clock) jetstream (service_backlog c s)
          (length (service_backlog c s)) None (ot_broker p')"
        using published_through_broker [OF _ f(2)] f(3) by simp
      with st f Inr j parts show ?thesis by auto
    qed
  qed simp
qed

lemma sample_server:
  assumes "load sample_env = Inr settings"
  shows "NewServer (server_options settings) = Some (server_options settings)"
  using assms sample_env_loads load_ok [OF assms] by (auto simp: NewServer_def server_options_def config_ok_def)

lemma sample_client:
  assumes "load sample_env = Inr settings"
  shows "\<exists>opts. NewOHLCClient (ohlc_options settings) = Some opts"
proof -
  have "cf_Periods settings \<noteq> []" using load_ok [OF assms] by (simp add: config_ok_def)
  then obtain p where "p \<in> set (cf_Periods settings)" using hd_in_set by blast
  then have "0 < cf_SeedBars settings" using load_ok [OF assms] by (fastforce simp: config_ok_def period_list_def)
  then show ?thesis using load_ok [OF assms] sample_env_loads assms by (auto simp: NewOHLCClient_def ohlc_options_def config_ok_def Let_def)
qed

definition no_streams :: "nat stream_ops" where
  "no_streams = \<lparr>StreamInfo = (\<lambda>n _. (InspectFailed, n)), AddStream = (\<lambda>n _. (AddFailed, n)), UpdateStream = (\<lambda>n _. (False, n))\<rparr>"

definition sample_startup :: "(unit run_error, (SignalEvent, nat) running) result option" where
  "sample_startup = startup plain_codec (\<lambda>_ _. Inr (fresh_db [])) (\<lambda>_ _. None) no_streams 0 flaky_broker (\<lambda>_. 0) sample_env"

lemma sample_starts: "\<exists>running. sample_startup = Some (Inr running)"
proof -
  let ?db = "PostgresStore (fresh_db []) :: SignalEvent service_store"
  obtain settings registry where l: "load sample_env = Inr settings" "NewRegistry (registry_options settings) = Inr registry"
    using sample_env_loads registry_starts load_ok by meson
  have s: "openStore (\<lambda>_ _. Inr (fresh_db [])) settings = Inr ?db" "connect_broker (\<lambda>_ _. None) no_streams 0 settings = Inr (open_broker 0)"
    using sample_env_loads l(1) by (auto simp: openStore_def connect_broker_def)
  have "ob_PendingEvents (service_outbox plain_codec) ?db 250 = Inr []"
    by (simp add: service_outbox_def Postgres_PendingEvents_def db_query_def fresh_db_def empty_tables_def)
  then have "Flush (service_outbox plain_codec) publish ?db p = Some (Inr (), ?db, p)" for publish :: "(unit broker_error, nat outlets) publisher" and p
    by (subst Flush.simps) simp
  then show ?thesis using l s sample_server [OF l(1)] sample_client [OF l(1)] by (auto simp: sample_startup_def startup_def)
qed

theorem startup_drains_outbox_witness:
  "\<exists>running. sample_startup = Some (Inr running) \<and> service_backlog plain_codec (ru_store running) = []"
proof -
  obtain running where r: "sample_startup = Some (Inr running)" using sample_starts by blast
  have "readable plain_codec (db_tables db)" if "Inr (fresh_db []) = (Inr db :: (store_error, SignalEvent Postgres) result)" for db
    using that reachable_readable [OF pg_start_fresh rtranclp.rtrancl_refl faithful_plain] by blast
  then have "\<exists>r. sample_startup = Some r \<and> (\<forall>running. r = Inr running \<longrightarrow> service_backlog plain_codec (ru_store running) = [])"
    using startup_drains_outbox [where open_postgres = "\<lambda>_ _. Inr (fresh_db [])" and c = plain_codec and connect = "\<lambda>_ _. None" and nats = no_streams
        and no_broker = "0 :: nat" and send = flaky_broker and clock = "\<lambda>_. 0" and lookup = sample_env]
    unfolding sample_startup_def by meson
  then have "service_backlog plain_codec (ru_store running) = []" unfolding r option.inject by blast
  with r show ?thesis by blast
qed

text \<open>
  C39. The API is closed. With a configuration that asks for authentication, the server has a token; the catalogue, the snapshots, the events and
  the WebSocket are only reached by a request with that token, and the token is accepted both as a bearer credential, up to
  surrounding space, and encoded as a subprotocol.
\<close>

theorem routes_protected:
  assumes "load lookup = Inr settings" and "NewServer (server_options settings) = Some opts" and "\<not> cf_InsecureNoAuth settings"
  shows "cf_APIAuthToken settings \<noteq> [] \<and>
    (\<forall>st rq headers reply. serve opts st rq = (headers, Some reply) \<and> reveals reply \<longrightarrow>
       fst (requestCredentials (rq_Authorization rq) (rq_Subprotocols rq)) = cf_APIAuthToken settings) \<and>
    (\<forall>rq t. rq_Authorization rq = bearer_prefix @ t \<longrightarrow> (authorised opts rq \<longleftrightarrow> trim_space t = cf_APIAuthToken settings)) \<and>
    (\<forall>rq t. \<not> has_prefix (rq_Authorization rq) bearer_prefix \<and> rq_Subprotocols rq = [protocol_prefix @ base64_encode t] \<longrightarrow>
       (authorised opts rq \<longleftrightarrow> t = cf_APIAuthToken settings))"
proof -
  have o: "so_AuthToken opts = cf_APIAuthToken settings" "\<not> so_InsecureNoAuth opts"
    using assms(2,3) by (auto simp: NewServer_def server_options_def split: if_splits)
  have "cf_APIAuthToken settings \<noteq> []" using load_ok [OF assms(1)] assms(3) by (simp add: config_ok_def)
  moreover have "fst (requestCredentials (rq_Authorization rq) (rq_Subprotocols rq)) = cf_APIAuthToken settings"
    if "serve opts st rq = (headers, Some reply)" "reveals reply" for st rq headers reply
    using serve_reveals [OF that] o by (simp add: authorised_token)
  ultimately show ?thesis using o requestCredentials_header requestCredentials_protocol by (auto simp: authorised_token)
qed

definition bearer_request :: "string \<Rightarrow> request" where
  "bearer_request t = \<lparr>rq_Method = ''GET'', rq_Path = ''/v1/events'', rq_Query = (\<lambda>_. []), rq_Authorization = bearer_prefix @ t,
     rq_Origin = [], rq_Subprotocols = [], rq_Handshake = False\<rparr>"

theorem routes_protected_witness:
  "\<exists>settings opts. load sample_env = Inr settings \<and> NewServer (server_options settings) = Some opts \<and> \<not> cf_InsecureNoAuth settings \<and>
     authorised opts (bearer_request ''secret'') \<and> \<not> authorised opts (bearer_request ''guess'')"
proof -
  obtain settings where l: "load sample_env = Inr settings" "cf_APIAuthToken settings = ''secret''" "\<not> cf_InsecureNoAuth settings"
    using sample_env_loads by blast
  have guess: "trim_space ''guess'' = ''guess''" by code_simp
  have "authorised (server_options settings) (bearer_request t) \<longleftrightarrow> trim_space t = ''secret''" for t
    using routes_protected [OF l(1) sample_server [OF l(1)] l(3)] unfolding l(2) by (simp add: bearer_request_def)
  then have "authorised (server_options settings) (bearer_request ''secret'')" "\<not> authorised (server_options settings) (bearer_request ''guess'')"
    using sample_env_token(1) guess by simp_all
  with l sample_server [OF l(1)] show ?thesis by blast
qed

end
