(* ===== verification/Lane_Steps.thy ===== *)
theory Lane_Steps
  imports Registry
begin

text \<open>
  A lane as its observers see it. \<^verbatim>\<open>Run\<close> of \<^verbatim>\<open>internal/engine/lane.go\<close> handles a command call by call: it calls the store, it
  publishes (which may take as long as the broker is away), and it installs the new state of the lane under the lock, and
  between any two of these a snapshot may be taken, another command submitted, and another lane may use the store. The handlers of
  the theories \<open>Lane\<close> and \<open>Lane_Recovery\<close> are given here once more, as the sequences of these calls; they are proved to do
  together what those handlers do, and what an observer sees in between is stated over their interleavings.
\<close>

subsection \<open>Handlers as sequences of calls\<close>

text \<open>
  What is left of a handler: it has finished, with its answer and the lane it leaves, or its next call takes the world to another and
  leaves the rest. The lane is in both cases the one that a snapshot sees now.
\<close>

datatype 's act = Finish "(lane_error, unit) result" Lane | Act Lane "'s world \<Rightarrow> 's world \<times> 's act"

primrec visible :: "'s act \<Rightarrow> Lane" where
  "visible (Finish r l) = l"
| "visible (Act l call) = l"

primrec run_act :: "'s act \<Rightarrow> 's world \<Rightarrow> 's outcome" where
  "run_act (Finish r l) = (\<lambda>w. (r, l, w))"
| "run_act (Act l call) = (\<lambda>w. case (map_prod (\<lambda>w. w) run_act \<circ> call) w of (w', rest) \<Rightarrow> rest w')"

lemma run_act_simps [simp]:
  "run_act (Finish r l) w = (r, l, w)"
  "run_act (Act l call) w = (case call w of (w', rest) \<Rightarrow> run_act rest w')"
  by (simp_all add: case_prod_unfold)

declare run_act.simps [simp del]

lemma act_induct [case_names Finish Act]:
  assumes "\<And>r l. P (Finish r l)" and "\<And>l call. (\<And>w w' a. call w = (w', a) \<Longrightarrow> P a) \<Longrightarrow> P (Act l call)"
  shows "P a"
proof (induction a)
  case (Act l call)
  have "P a" if "call w = (w', a)" for w w' a
    by (rule Act [of "call w" a]) (blast, simp add: that)
  then show ?case by (rule assms(2))
qed (rule assms(1))

text \<open>Publications are calls of their own, and so is taking the lock to install a new state.\<close>

fun live_act :: "Lane \<Rightarrow> SignalEvent list \<Rightarrow> 's act \<Rightarrow> 's act" where
  "live_act l [] rest = rest"
| "live_act l (e # es) rest = Act l (\<lambda>w. (publish_live [e] w, live_act l es rest))"

fun hub_act :: "Lane \<Rightarrow> SignalEvent list \<Rightarrow> 's act \<Rightarrow> 's act" where
  "hub_act l [] rest = rest"
| "hub_act l (e # es) rest = Act l (\<lambda>w. (publish_hub [e] w, hub_act l es rest))"

definition install_act :: "Lane \<Rightarrow> 's act \<Rightarrow> 's act" where
  "install_act l rest = Act l (\<lambda>w. (w, rest))"

text \<open>The handlers, with what follows them as the last argument.\<close>

type_synonym 's follow = "(lane_error, unit) result \<Rightarrow> Lane \<Rightarrow> 's act"

definition closed_act :: "'s store_ops \<Rightarrow> Lane \<Rightarrow> Bar \<Rightarrow> 's follow \<Rightarrow> 's act" where
  "closed_act ops l bar k =
     (if \<not> bar_Closed bar then k (Inl ClosedInputOpen) l
      else case validateBar (ln_key l) bar of Some e \<Rightarrow> k (Inl e) l | None \<Rightarrow>
      (case cloneReducers (ln_periods l) (ln_reducers l) of Inl e \<Rightarrow> k (Inl e) l | Inr rs \<Rightarrow>
      (case Market_Clone (ln_market l) of Inl e \<Rightarrow> k (Inl (MarketFailed e)) l | Inr market \<Rightarrow>
      (case check_cursor l bar of Some r \<Rightarrow> k r l | None \<Rightarrow>
      (case prepare_closed l rs market bar of
         Inl e \<Rightarrow> k (Inl e) l
       | Inr (events, snapshots, rs', market', closedCount) \<Rightarrow>
      Act l (\<lambda>w. case CommitClosed ops (w_store w) (ln_key l) bar events snapshots of
          (Inl e, s) \<Rightarrow> (w\<lparr>w_store := s\<rparr>, k (Inl (CommitFailed e)) l)
        | (Inr committed, s) \<Rightarrow>
            (w\<lparr>w_store := s\<rparr>,
             live_act l (if ln_livePublisher l then filter (\<lambda>e. ev_EventType e = ''market.state'') committed else [])
               (install_act l
                 (let l' = install rs' market' (Some bar) (revisionForBar bar) closedCount l
                  in if ln_publisher l \<and> \<not> ln_outboxDelivery l then
                       hub_act l' committed
                         (Act l' (\<lambda>w. case MarkPublished ops (w_store w) (map ev_Cursor committed) of
                            (Inl e, s') \<Rightarrow> (w\<lparr>w_store := s'\<rparr>, k (Inl (MarkFailed e)) l')
                          | (Inr _, s') \<Rightarrow> (w\<lparr>w_store := s'\<rparr>, k (Inr ()) l')))
                     else k (Inr ()) l')))))))))"

fun catch_up_act :: "'s store_ops \<Rightarrow> Lane \<Rightarrow> Bar list \<Rightarrow> 's follow \<Rightarrow> 's act" where
  "catch_up_act ops l [] k = k (Inr ()) l"
| "catch_up_act ops l (bar # bars) k =
     (if \<not> bar_Closed bar then catch_up_act ops l bars k
      else let behind = (case ln_lastBar l of None \<Rightarrow> False | Some b \<Rightarrow> \<not> bar_OpenTime b < bar_OpenTime bar);
          conflict = (case ln_lastBar l of None \<Rightarrow> False
            | Some b \<Rightarrow> bar_OpenTime bar = bar_OpenTime b \<and> barFingerprint bar \<noteq> barFingerprint b)
      in if behind then (if conflict then k (Inl SeedConflictsCurrent) l else catch_up_act ops l bars k)
         else closed_act ops l bar (\<lambda>r l'. case r of Inl e \<Rightarrow> k (Inl e) l' | Inr _ \<Rightarrow> catch_up_act ops l' bars k))"

definition rebuild_act :: "'s store_ops \<Rightarrow> Lane \<Rightarrow> Bar list \<Rightarrow> bool \<Rightarrow> 's follow \<Rightarrow> 's act" where
  "rebuild_act ops l bars publishReset k =
     (case fresh_rebuilt (ln_periods l) of Inl e \<Rightarrow> k (Inl e) l | Inr st0 \<Rightarrow>
     (case rebuild_loop (ln_key l) st0 bars of Inl e \<Rightarrow> k (Inl e) l | Inr st \<Rightarrow>
     (case reducerSnapshots (rb_reducers st) (rb_market st) (rb_lastBar st) of Inl e \<Rightarrow> k (Inl e) l | Inr snapshots \<Rightarrow>
     Act l (\<lambda>w. case RebuildSeries ops (w_store w) (ln_key l) (rebuild_points (ln_key l) bars publishReset st) snapshots (rb_lastBar st) of
         (Inl e, s) \<Rightarrow> (w\<lparr>w_store := s\<rparr>, k (Inl (PersistFailed e)) l)
       | (Inr committed, s) \<Rightarrow>
           (w\<lparr>w_store := s\<rparr>,
            live_act l (if ln_livePublisher l then committed else [])
              (install_act l
                (let revision = (case rb_lastBar st of None \<Rightarrow> ln_lastClosedRevision l | Some b \<Rightarrow> revisionForBar b)
                 in k (Inr ()) (install (rb_reducers st) (rb_market st) (rb_lastBar st) revision (rb_closedCount st) l))))))))"

definition seed_act :: "'s store_ops \<Rightarrow> Lane \<Rightarrow> Bar list \<Rightarrow> 's follow \<Rightarrow> 's act" where
  "seed_act ops l seed k =
     (let bars = sort_key bar_OpenTime seed in
      if ln_lastBar l \<noteq> None then
        (if seedConflictsWithHistory l bars then rebuild_act ops l bars True k
         else catch_up_act ops l bars (\<lambda>r l'. case r of Inl _ \<Rightarrow> rebuild_act ops l' bars True k | Inr _ \<Rightarrow> k (Inr ()) l'))
      else Act l (\<lambda>w. (w, case LoadRecovery ops (w_store w) (ln_key l) of
          Inl e \<Rightarrow> k (Inl (LoadFailed e)) l
        | Inr recovery \<Rightarrow>
            if rec_HasCursor recovery then
              (case restoreRecoverySeed l recovery bars of
                 Inl _ \<Rightarrow> rebuild_act ops l bars True k
               | Inr l' \<Rightarrow> install_act l (catch_up_act ops l' bars k))
            else rebuild_act ops l bars False k)))"

definition forming_act :: "Lane \<Rightarrow> Bar \<Rightarrow> 's follow \<Rightarrow> 's act" where
  "forming_act l bar k =
     (if bar_Closed bar then k (Inl FormingInputClosed) l
      else case validateBar (ln_key l) bar of Some e \<Rightarrow> k (Inl e) l | None \<Rightarrow>
      (case cloneReducers (ln_periods l) (ln_reducers l) of Inl e \<Rightarrow> k (Inl e) l | Inr rs \<Rightarrow>
       if (case ln_lastBar l of None \<Rightarrow> False | Some b \<Rightarrow> bar_OpenTime bar < bar_OpenTime b) then k (Inr ()) l
       else let revision = revisionForBar bar;
           (projected, published) = project_loop (ln_key l) bar revision rs (ln_periods l)
       in hub_act l (if ln_publisher l then published else [])
            (case projected of
               Inl e \<Rightarrow> k (Inl e) l
             | Inr provisional \<Rightarrow>
                 live_act l (if ln_livePublisher l
                     then [forming_frame (ln_key l) bar (mk_state (ln_market l)) revision rs provisional] else [])
                   (install_act l (k (Inr ()) (l\<lparr>ln_provisional := provisional, ln_formingTime := Some (bar_OpenTime bar),
                      ln_formingBar := Some bar, ln_formingRevision := revision\<rparr>))))))"

text \<open>The body of the loop of \<^verbatim>\<open>Run\<close>: the error is recorded under the lock before the answer is sent.\<close>

definition finish_act :: "'s follow" where
  "finish_act r l = install_act l (Finish r (l\<lparr>ln_lastErr := (case r of Inl e \<Rightarrow> Some e | Inr _ \<Rightarrow> None)\<rparr>))"

definition dispatch_act :: "'s store_ops \<Rightarrow> Lane \<Rightarrow> command \<Rightarrow> 's act" where
  "dispatch_act ops l cmd =
     (case cmd of
        commandSeed bars \<Rightarrow> seed_act ops l bars finish_act
      | commandClosed bar \<Rightarrow> closed_act ops l bar finish_act
      | commandForming bar \<Rightarrow> forming_act l bar finish_act)"

subsection \<open>The calls together are the handler\<close>

lemma run_live_act: "run_act (live_act l es rest) w = run_act rest (publish_live es w)"
  by (induction es arbitrary: w) (simp_all add: publish_live_def)

lemma run_hub_act: "run_act (hub_act l es rest) w = run_act rest (publish_hub es w)"
  by (induction es arbitrary: w) (simp_all add: publish_hub_def)

lemma run_install_act [simp]: "run_act (install_act l rest) w = run_act rest w"
  by (simp add: install_act_def)

lemma publish_nothing [simp]: "publish_live [] w = w" "publish_hub [] w = w"
  by (simp_all add: publish_live_def publish_hub_def)

definition then_run :: "'s outcome \<Rightarrow> 's follow \<Rightarrow> 's outcome" where
  "then_run x k = (case x of (r, l, w) \<Rightarrow> run_act (k r l) w)"

lemma then_run_simps [simp]: "then_run (r, l, w) k = run_act (k r l) w"
  by (simp add: then_run_def)

lemma run_closed_act: "run_act (closed_act ops l bar k) w = then_run (applyClosed ops l w bar) k"
  by (simp add: closed_act_def applyClosed_def run_live_act run_hub_act Let_def split: option.split sum.split prod.split)

lemma run_catch_up_act: "run_act (catch_up_act ops l bars k) w = then_run (applyCatchUpSeed ops l w bars) k"
proof (induction bars arbitrary: l w)
  case (Cons bar bars)
  obtain r l1 w1 where "applyClosed ops l w bar = (r, l1, w1)" by (rule prod_cases3)
  then show ?case by (cases r) (simp_all add: run_closed_act Cons.IH Let_def)
qed simp

lemma run_rebuild_act: "run_act (rebuild_act ops l bars reset k) w = then_run (rebuildSeed ops l w bars reset) k"
  by (simp add: rebuild_act_def rebuildSeed_def run_live_act Let_def split: sum.split prod.split)

lemma run_seed_act: "run_act (seed_act ops l seed k) w = then_run (applySeed ops l w seed) k"
  by (simp add: seed_act_def applySeed_def run_rebuild_act run_catch_up_act then_run_def Let_def split: sum.split prod.split)

lemma run_forming_act: "run_act (forming_act l bar k) w = then_run (applyForming l w bar) k"
  by (simp add: forming_act_def applyForming_def run_live_act run_hub_act Let_def split: option.split sum.split prod.split)

theorem run_dispatch_act: "run_act (dispatch_act ops l cmd) w = dispatch ops l w cmd"
  by (simp add: dispatch_act_def dispatch_def run_seed_act run_closed_act run_forming_act then_run_def finish_act_def
      split: command.split prod.split)

subsection \<open>What a reader sees of a handler\<close>

text \<open>All the lanes that a handler shows on its way to its end, when nothing else touches the world.\<close>

inductive along :: "(Lane \<Rightarrow> bool) \<Rightarrow> 's act \<Rightarrow> 's world \<Rightarrow> bool" for P where
  Finish: "P l \<Longrightarrow> along P (Finish r l) w"
| Act: "P l \<Longrightarrow> call w = (w', a) \<Longrightarrow> along P a w' \<Longrightarrow> along P (Act l call) w"

inductive_simps along_simps [simp]: "along P (Finish r l) w" "along P (Act l call) w"

lemma along_visible: "along P a w \<Longrightarrow> P (visible a)"
  by (erule along.cases) auto

lemma along_live_act: "P l \<Longrightarrow> along P (live_act l es rest) w \<longleftrightarrow> along P rest (publish_live es w)"
  by (induction es arbitrary: w) (simp_all add: publish_live_def)

lemma along_hub_act: "P l \<Longrightarrow> along P (hub_act l es rest) w \<longleftrightarrow> along P rest (publish_hub es w)"
  by (induction es arbitrary: w) (simp_all add: publish_hub_def)

lemma along_install_act: "P l \<Longrightarrow> along P (install_act l rest) w \<longleftrightarrow> along P rest w"
  by (simp add: install_act_def)

lemmas along_acts = along_live_act along_hub_act along_install_act

lemma along_closed_act:
  assumes "applyClosed ops l w bar = (r, l', w')" and "P l" and "P l'" and "along P (k r l') w'"
  shows "along P (closed_act ops l bar k) w"
  using assms
  by (auto simp: closed_act_def applyClosed_def along_acts Let_def split: option.splits sum.splits prod.splits if_splits)

lemma along_forming_act:
  assumes "applyForming l w bar = (r, l', w')" and "P l" and "along P (k r l') w'"
  shows "along P (forming_act l bar k) w"
  using assms
  by (auto simp: forming_act_def applyForming_def along_acts Let_def split: option.splits sum.splits prod.splits if_splits)

text \<open>
  The states of a lane around a bar are the one before it and the one after it, the latter also with the error of the last
  command not yet replaced: no reader finds a lane that has taken over half a bar. A seed takes over its bars one at a time.
\<close>

definition around :: "command \<Rightarrow> Lane \<Rightarrow> Lane \<Rightarrow> Lane \<Rightarrow> bool" where
  "around cmd l l' m \<longleftrightarrow> (case cmd of commandSeed _ \<Rightarrow> True
     | _ \<Rightarrow> m = l \<or> m = l' \<or> m = l'\<lparr>ln_lastErr := ln_lastErr l\<rparr>)"

lemma handler_lastErr:
  "applyClosed ops l w bar = (r, l', w') \<Longrightarrow> ln_lastErr l' = ln_lastErr l"
  "applyForming l w bar = (r, l', w') \<Longrightarrow> ln_lastErr l' = ln_lastErr l"
  by (elim applyClosed_cases applyForming_cases; simp add: install_def)+

lemma along_dispatch_act:
  assumes "dispatch ops l w cmd = (r, l', w')"
  shows "along (around cmd l l') (dispatch_act ops l cmd) w"
proof (cases cmd)
  case (commandSeed bars)
  have "along (around cmd l l') a w" for a
  proof (induction a arbitrary: w rule: act_induct)
    case (Act m call)
    obtain w1 a where "call w = (w1, a)" by fastforce
    with Act [of w w1 a] show ?case by (simp add: around_def commandSeed)
  qed (simp add: around_def commandSeed)
  then show ?thesis .
next
  case (commandClosed bar)
  obtain m where m: "applyClosed ops l w bar = (r, m, w')" "l' = m\<lparr>ln_lastErr := case r of Inl e \<Rightarrow> Some e | Inr _ \<Rightarrow> None\<rparr>"
    using assms by (auto simp: dispatch_def commandClosed split: prod.splits)
  have "m = l'\<lparr>ln_lastErr := ln_lastErr l\<rparr>" using handler_lastErr(1) [OF m(1)] by (simp add: m(2) flip: handler_lastErr)
  then have "around cmd l l' l" "around cmd l l' m" "around cmd l l' l'" by (simp_all add: around_def commandClosed)
  then show ?thesis
    unfolding dispatch_act_def commandClosed command.case
    by (intro along_closed_act [OF m(1)]) (simp_all add: finish_act_def along_install_act m(2))
next
  case (commandForming bar)
  obtain m where m: "applyForming l w bar = (r, m, w')" "l' = m\<lparr>ln_lastErr := case r of Inl e \<Rightarrow> Some e | Inr _ \<Rightarrow> None\<rparr>"
    using assms by (auto simp: dispatch_def commandForming split: prod.splits)
  have "m = l'\<lparr>ln_lastErr := ln_lastErr l\<rparr>" using handler_lastErr(2) [OF m(1)] by (simp add: m(2))
  then have "around cmd l l' l" "around cmd l l' m" "around cmd l l' l'" by (simp_all add: around_def commandForming)
  then show ?thesis
    unfolding dispatch_act_def commandForming command.case
    by (intro along_forming_act [OF m(1)]) (simp_all add: finish_act_def along_install_act m(2))
qed

subsection \<open>A lane at work\<close>

text \<open>
  \<^verbatim>\<open>submit\<close> and \<^verbatim>\<open>Run\<close> with the handler call by call. A submission waits until the bounded channel has room; the loop takes a
  command when it is idle, makes the calls of its handler one at a time, answers on the command's own buffered channel (also
  when the submitter has given up waiting) and is idle again; it can end only when it is idle. The commands that the channel accepted are
  recorded in \<open>lr_submitted\<close>.
\<close>

record 's lane_run =
  lr_size :: int
  lr_act :: "'s act"
  lr_busy :: bool
  lr_world :: "'s world"
  lr_mailbox :: "command list"
  lr_replies :: "(lane_error, unit) result list"
  lr_submitted :: "command list"
  lr_stopped :: bool

definition start_run :: "Lane \<Rightarrow> 's world \<Rightarrow> 's lane_run" where
  "start_run l w = \<lparr>lr_size = ln_mailboxSize l, lr_act = Finish (Inr ()) l, lr_busy = False, lr_world = w, lr_mailbox = [],
     lr_replies = [], lr_submitted = [], lr_stopped = False\<rparr>"

inductive run_step :: "'s store_ops \<Rightarrow> 's lane_run \<Rightarrow> 's lane_run \<Rightarrow> bool" for ops where
  submit: "int (length (lr_mailbox f)) < lr_size f \<Longrightarrow>
    run_step ops f (f\<lparr>lr_mailbox := lr_mailbox f @ [cmd], lr_submitted := lr_submitted f @ [cmd]\<rparr>)"
| take_command: "\<not> lr_stopped f \<Longrightarrow> \<not> lr_busy f \<Longrightarrow> lr_mailbox f = cmd # rest \<Longrightarrow>
    run_step ops f (f\<lparr>lr_mailbox := rest, lr_busy := True, lr_act := dispatch_act ops (visible (lr_act f)) cmd\<rparr>)"
| advance: "lr_busy f \<Longrightarrow> lr_act f = Act l call \<Longrightarrow> call (lr_world f) = (w, a) \<Longrightarrow>
    run_step ops f (f\<lparr>lr_act := a, lr_world := w\<rparr>)"
| answer: "lr_busy f \<Longrightarrow> lr_act f = Finish r l \<Longrightarrow>
    run_step ops f (f\<lparr>lr_busy := False, lr_replies := lr_replies f @ [r]\<rparr>)"
| stop: "\<not> lr_busy f \<Longrightarrow> run_step ops f (f\<lparr>lr_stopped := True\<rparr>)"

text \<open>The commands answered were handled one after the other; the one at work will end as its handler does.\<close>

definition run_inv :: "'s store_ops \<Rightarrow> Lane \<Rightarrow> 's world \<Rightarrow> 's lane_run \<Rightarrow> bool" where
  "run_inv ops l0 w0 f \<longleftrightarrow> lr_size f = ln_mailboxSize l0 \<and> int (length (lr_mailbox f)) \<le> max 0 (lr_size f) \<and>
     length (lr_replies f) \<le> length (lr_submitted f) \<and>
     (\<exists>l w. process ops l0 w0 (take (length (lr_replies f)) (lr_submitted f)) = (lr_replies f, l, w) \<and>
       (if lr_busy f then length (lr_replies f) < length (lr_submitted f) \<and>
          lr_mailbox f = drop (Suc (length (lr_replies f))) (lr_submitted f) \<and>
          (\<exists>r l' w'. dispatch ops l w (lr_submitted f ! length (lr_replies f)) = (r, l', w') \<and>
             run_act (lr_act f) (lr_world f) = (r, l', w') \<and>
             along (around (lr_submitted f ! length (lr_replies f)) l l') (lr_act f) (lr_world f))
        else lr_mailbox f = drop (length (lr_replies f)) (lr_submitted f) \<and> visible (lr_act f) = l \<and> lr_world f = w))"

lemma run_step_inv: "run_step ops f g \<Longrightarrow> run_inv ops l0 w0 f \<Longrightarrow> run_inv ops l0 w0 g"
proof (induction rule: run_step.induct)
  case (submit f cmd)
  then show ?case by (cases "lr_busy f") (fastforce simp: run_inv_def nth_append)+
next
  case (take_command f cmd rest)
  let ?n = "length (lr_replies f)"
  have m: "cmd # rest = drop ?n (lr_submitted f)" using take_command by (simp add: run_inv_def)
  then have n: "?n < length (lr_submitted f)" by (metis drop_all list.distinct(1) not_le)
  with m have "lr_submitted f ! ?n = cmd" "rest = drop (Suc ?n) (lr_submitted f)"
    by (metis Cons_nth_drop_Suc list.inject)+
  moreover obtain r l' w' where d: "dispatch ops (visible (lr_act f)) (lr_world f) cmd = (r, l', w')" by (rule prod_cases3)
  moreover note along_dispatch_act [OF d]
  ultimately show ?case using take_command n by (auto simp: run_inv_def run_dispatch_act)
next
  case (advance f l call w a)
  then show ?case by (auto simp: run_inv_def)
next
  case (answer f r l)
  let ?n = "length (lr_replies f)"
  obtain l1 w1 where p: "process ops l0 w0 (take ?n (lr_submitted f)) = (lr_replies f, l1, w1)" "?n < length (lr_submitted f)"
      "dispatch ops l1 w1 (lr_submitted f ! ?n) = (r, l, lr_world f)"
    using answer by (auto simp: run_inv_def)
  then have "process ops l0 w0 (take (Suc ?n) (lr_submitted f)) = (lr_replies f @ [r], l, lr_world f)"
    by (simp add: take_Suc_conv_app_nth process_snoc)
  with p(2) answer show ?case by (auto simp: run_inv_def)
next
  case (stop f)
  then show ?case by (auto simp: run_inv_def)
qed

lemma run_inv_start: "run_inv ops l w (start_run l w)"
  by (simp add: run_inv_def start_run_def)

interpretation lane_at_work: transition_system "\<lambda>f. f = start_run l w" "run_step ops" "run_inv ops l w" for ops l w
  by unfold_locales (use run_step_inv run_inv_start in blast)+

text \<open>A handler at work comes to its end.\<close>

lemma run_completes:
  assumes "lr_busy f" and "run_act (lr_act f) (lr_world f) = (r, l, w)"
  shows "\<exists>g. (run_step ops)\<^sup>*\<^sup>* f g \<and> \<not> lr_busy g \<and> lr_replies g = lr_replies f @ [r] \<and> visible (lr_act g) = l \<and> lr_world g = w"
  using assms
proof (induction "lr_act f" arbitrary: f rule: act_induct)
  case (Finish q m)
  let ?g = "f\<lparr>lr_busy := False, lr_replies := lr_replies f @ [q]\<rparr>"
  have "(run_step ops)\<^sup>*\<^sup>* f ?g"
    using Finish by (intro r_into_rtranclp run_step.answer [of f q m]) simp_all
  moreover have "q = r" "m = l" "lr_world f = w" using Finish by (simp_all add: Finish(1) [symmetric])
  moreover have "visible (lr_act ?g) = m" by (simp add: Finish(1) [symmetric])
  ultimately show ?case by (intro exI [of _ ?g]) simp
next
  case (Act m call)
  obtain w1 a where c: "call (lr_world f) = (w1, a)" by fastforce
  let ?f = "f\<lparr>lr_act := a, lr_world := w1\<rparr>"
  have "run_act a w1 = (r, l, w)" using Act(4) c by (simp add: Act(2) [symmetric])
  with Act(1) [of "lr_world f" w1 ?f] c Act(3) obtain g where "(run_step ops)\<^sup>*\<^sup>* ?f g" "\<not> lr_busy g" "lr_replies g = lr_replies f @ [r]"
      "visible (lr_act g) = l" "lr_world g = w" by auto
  moreover have "run_step ops f ?f" by (rule run_step.advance [OF Act(3) Act(2) [symmetric] c])
  ultimately show ?case by (metis converse_rtranclp_into_rtranclp)
qed

subsection \<open>Lanes that share a store\<close>

text \<open>
  The lanes of a registry at work, each in its own goroutine, over one world: any lane that is idle may start on a command, any lane at
  work may make its next call, and the dispatcher of the outbox may mark events as published, in any order.
\<close>

record 's fleet =
  fl_lanes :: "(string \<times> 's act) list"
  fl_keys :: "SeriesKey list"
  fl_world :: "'s world"

definition start_fleet :: "Registry \<Rightarrow> 's world \<Rightarrow> 's fleet" where
  "start_fleet r w = \<lparr>fl_lanes = map (\<lambda>(k, l). (k, Finish (Inr ()) l)) (rg_lanes r), fl_keys = rg_keys r, fl_world = w\<rparr>"

text \<open>The registry as the readers of snapshots find it.\<close>

definition registry_of :: "'s fleet \<Rightarrow> Registry" where
  "registry_of f = \<lparr>rg_lanes = map (\<lambda>(k, a). (k, visible a)) (fl_lanes f), rg_keys = fl_keys f\<rparr>"

inductive fleet_step :: "'s store_ops \<Rightarrow> 's fleet \<Rightarrow> 's fleet \<Rightarrow> bool" for ops where
  take_command: "map_of (fl_lanes f) k = Some (Finish r l) \<Longrightarrow>
    fleet_step ops f (f\<lparr>fl_lanes := AList.update k (dispatch_act ops l cmd) (fl_lanes f)\<rparr>)"
| advance: "map_of (fl_lanes f) k = Some (Act l call) \<Longrightarrow> call (fl_world f) = (w, a) \<Longrightarrow>
    fleet_step ops f (f\<lparr>fl_lanes := AList.update k a (fl_lanes f), fl_world := w\<rparr>)"
| mark: "MarkPublished ops (w_store (fl_world f)) cursors = (r, s) \<Longrightarrow>
    fleet_step ops f (f\<lparr>fl_world := (fl_world f)\<lparr>w_store := s\<rparr>\<rparr>)"

lemma fleet_completes:
  assumes "map_of (fl_lanes f) k = Some a" and "run_act a (fl_world f) = (r, l, w)"
  shows "\<exists>g. (fleet_step ops)\<^sup>*\<^sup>* f g \<and> map_of (fl_lanes g) k = Some (Finish r l) \<and> fl_world g = w"
  using assms
proof (induction a arbitrary: f rule: act_induct)
  case (Act m call)
  obtain w1 a where c: "call (fl_world f) = (w1, a)" by fastforce
  let ?f = "f\<lparr>fl_lanes := AList.update k a (fl_lanes f), fl_world := w1\<rparr>"
  have "fleet_step ops f ?f" by (rule fleet_step.advance [OF Act(2) c])
  moreover obtain g where "(fleet_step ops)\<^sup>*\<^sup>* ?f g" "map_of (fl_lanes g) k = Some (Finish r l)" "fl_world g = w"
    using Act(1) [OF c, of ?f] Act(3) c by (auto simp: update_conv')
  ultimately show ?case by (metis converse_rtranclp_into_rtranclp)
qed auto

text \<open>How the last bar of a lane may stand to the durable cursor: at it, by time and hash, or not beyond it.\<close>

definition at_cursor :: "Bar option \<Rightarrow> Bar option \<Rightarrow> bool" where
  "at_cursor lastBar cur \<longleftrightarrow> (\<forall>b. lastBar = Some b \<longrightarrow>
     (\<exists>c. cur = Some c \<and> bar_OpenTime c = bar_OpenTime b \<and> barHash c = barHash b))"

definition not_beyond :: "Bar option \<Rightarrow> Bar option \<Rightarrow> bool" where
  "not_beyond lastBar cur \<longleftrightarrow> (\<forall>b. lastBar = Some b \<longrightarrow> (\<exists>c. cur = Some c \<and> bar_OpenTime b \<le> bar_OpenTime c))"

lemma at_cursor_not_beyond: "at_cursor lastBar cur \<Longrightarrow> not_beyond lastBar cur"
  by (auto simp: at_cursor_def not_beyond_def)

definition cursor_forward :: "Bar option \<Rightarrow> Bar option \<Rightarrow> bool" where
  "cursor_forward cur cur' \<longleftrightarrow> (\<forall>old. cur = Some old \<longrightarrow> (\<exists>c. cur' = Some c \<and> bar_OpenTime old \<le> bar_OpenTime c))"

lemma not_beyond_forward: "not_beyond lastBar cur \<Longrightarrow> cursor_forward cur cur' \<Longrightarrow> not_beyond lastBar cur'"
  unfolding not_beyond_def cursor_forward_def by (metis order_trans)

text \<open>
  A handler of the series \<open>key\<close> is safe from a durable cursor \<open>cur\<close> on if the lane it shows is never beyond the cursor, if it moves no
  cursor but that of its own series, and if it leaves the lane at the cursor. It may rely on the cursor of its series being moved by nobody else.
\<close>

inductive safe :: "('s \<Rightarrow> SeriesKey \<Rightarrow> Bar option) \<Rightarrow> SeriesKey \<Rightarrow> Bar option \<Rightarrow> 's act \<Rightarrow> bool" for cursor key where
  Finish: "ln_key l = key \<Longrightarrow> at_cursor (ln_lastBar l) cur \<Longrightarrow> safe cursor key cur (Finish r l)"
| Act: "ln_key l = key \<Longrightarrow> not_beyond (ln_lastBar l) cur \<Longrightarrow>
    (\<And>w w' a. cursor (w_store w) key = cur \<Longrightarrow> call w = (w', a) \<Longrightarrow>
       safe cursor key (cursor (w_store w') key) a \<and>
       (\<forall>k. SeriesKey_String k \<noteq> SeriesKey_String key \<longrightarrow> cursor (w_store w') k = cursor (w_store w) k)) \<Longrightarrow>
    safe cursor key cur (Act l call)"

inductive_cases safe_FinishE: "safe cursor key cur (Finish r l)"
inductive_cases safe_ActE: "safe cursor key cur (Act l call)"

lemma safe_visible: "safe cursor key cur a \<Longrightarrow> ln_key (visible a) = key \<and> not_beyond (ln_lastBar (visible a)) cur"
  by (erule safe.cases) (auto dest: at_cursor_not_beyond)

lemma safe_live_act:
  assumes "safe cursor key cur rest" and "ln_key l = key" and "not_beyond (ln_lastBar l) cur"
  shows "safe cursor key cur (live_act l es rest)"
  using assms by (induction es) (auto simp: publish_live_def intro!: safe.Act)

lemma safe_hub_act:
  assumes "safe cursor key cur rest" and "ln_key l = key" and "not_beyond (ln_lastBar l) cur"
  shows "safe cursor key cur (hub_act l es rest)"
  using assms by (induction es) (auto simp: publish_hub_def intro!: safe.Act)

lemma safe_install_act:
  assumes "safe cursor key cur rest" and "ln_key l = key" and "not_beyond (ln_lastBar l) cur"
  shows "safe cursor key cur (install_act l rest)"
  using assms by (auto simp: install_act_def intro!: safe.Act)

text \<open>What a handler may assume of what follows it: it is safe from any lane that is at the cursor.\<close>

definition safe_follow :: "('s \<Rightarrow> SeriesKey \<Rightarrow> Bar option) \<Rightarrow> SeriesKey \<Rightarrow> 's follow \<Rightarrow> bool" where
  "safe_follow cursor key k \<longleftrightarrow> (\<forall>r l cur. ln_key l = key \<and> at_cursor (ln_lastBar l) cur \<longrightarrow> safe cursor key cur (k r l))"

lemma safe_followD: "safe_follow cursor key k \<Longrightarrow> ln_key l = key \<Longrightarrow> at_cursor (ln_lastBar l) cur \<Longrightarrow> safe cursor key cur (k r l)"
  by (simp add: safe_follow_def)

lemma safe_finish_act: "safe_follow cursor key finish_act"
  unfolding safe_follow_def finish_act_def
  by (auto intro!: safe_install_act safe.Finish at_cursor_not_beyond)

context isolated_store
begin

lemma safe_commit_call:
  assumes "safe_follow cursor key k" and "ln_key l = key" and "at_cursor (ln_lastBar l) cur"
    and "\<And>committed cur'. at_cursor (Some bar) cur' \<Longrightarrow> not_beyond (ln_lastBar l) cur' \<Longrightarrow> safe cursor key cur' (rest committed)"
  shows "safe cursor key cur (Act l (\<lambda>w. case CommitClosed ops (w_store w) (ln_key l) bar evs snaps of
      (Inl e, s) \<Rightarrow> (w\<lparr>w_store := s\<rparr>, k (Inl (CommitFailed e)) l) | (Inr committed, s) \<Rightarrow> (w\<lparr>w_store := s\<rparr>, rest committed)))"
proof (rule safe.Act [OF assms(2) at_cursor_not_beyond [OF assms(3)]])
  fix w w' a
  assume cur: "cursor (w_store w) key = cur" and call: "(case CommitClosed ops (w_store w) (ln_key l) bar evs snaps of
      (Inl e, s) \<Rightarrow> (w\<lparr>w_store := s\<rparr>, k (Inl (CommitFailed e)) l) | (Inr committed, s) \<Rightarrow> (w\<lparr>w_store := s\<rparr>, rest committed)) = (w', a)"
  obtain r s where c: "CommitClosed ops (w_store w) key bar evs snaps = (r, s)" by fastforce
  have other: "\<forall>k. SeriesKey_String k \<noteq> SeriesKey_String key \<longrightarrow> cursor s k = cursor (w_store w) k" using commit_other [OF c] by blast
  show "safe cursor key (cursor (w_store w') key) a \<and>
      (\<forall>k. SeriesKey_String k \<noteq> SeriesKey_String key \<longrightarrow> cursor (w_store w') k = cursor (w_store w) k)"
  proof (cases r)
    case (Inl e)
    then have "s = w_store w" using commit_error c by blast
    with Inl c call cur assms(2) show ?thesis using safe_followD [OF assms(1,2,3)] by auto
  next
    case (Inr committed)
    have "at_cursor (Some bar) (cursor s key)" using commit_cursor c Inr by (auto simp: at_cursor_def)
    moreover have "cursor_forward cur (cursor s key)" using commit_forward [OF c] cur by (auto simp: cursor_forward_def)
    then have "not_beyond (ln_lastBar l) (cursor s key)" by (rule not_beyond_forward [OF at_cursor_not_beyond [OF assms(3)]])
    ultimately have "safe cursor key (cursor s key) (rest committed)" by (rule assms(4))
    with Inr c call assms(2) other show ?thesis by auto
  qed
qed

lemma safe_mark_call:
  assumes "safe_follow cursor key k" and "ln_key l = key" and "at_cursor (ln_lastBar l) cur"
  shows "safe cursor key cur (Act l (\<lambda>w. case MarkPublished ops (w_store w) cs of
      (Inl e, s) \<Rightarrow> (w\<lparr>w_store := s\<rparr>, k (Inl (MarkFailed e)) l) | (Inr _, s) \<Rightarrow> (w\<lparr>w_store := s\<rparr>, k (Inr ()) l)))"
proof (rule safe.Act [OF assms(2) at_cursor_not_beyond [OF assms(3)]])
  fix w w' a
  assume cur: "cursor (w_store w) key = cur" and call: "(case MarkPublished ops (w_store w) cs of
      (Inl e, s) \<Rightarrow> (w\<lparr>w_store := s\<rparr>, k (Inl (MarkFailed e)) l) | (Inr _, s) \<Rightarrow> (w\<lparr>w_store := s\<rparr>, k (Inr ()) l)) = (w', a)"
  obtain r s where m: "MarkPublished ops (w_store w) cs = (r, s)" by fastforce
  then have "w' = w\<lparr>w_store := s\<rparr>" "\<exists>q. a = k q l" using call by (auto split: sum.splits)
  then show "safe cursor key (cursor (w_store w') key) a \<and>
      (\<forall>k. SeriesKey_String k \<noteq> SeriesKey_String key \<longrightarrow> cursor (w_store w') k = cursor (w_store w) k)"
    using mark_cursor [OF m] cur safe_followD [OF assms] by auto
qed

lemma safe_closed_act:
  assumes "safe_follow cursor key k" and "ln_key l = key" and "at_cursor (ln_lastBar l) cur"
  shows "safe cursor key cur (closed_act ops l bar k)"
proof -
  note here = safe_followD [OF assms]
  have after: "safe cursor key cur' (live_act l es (install_act l
      (let l' = install rs market (Some bar) revision n l
       in if p then hub_act l' committed
              (Act l' (\<lambda>w. case MarkPublished ops (w_store w) cs of
                 (Inl e, s') \<Rightarrow> (w\<lparr>w_store := s'\<rparr>, k (Inl (MarkFailed e)) l')
               | (Inr _, s') \<Rightarrow> (w\<lparr>w_store := s'\<rparr>, k (Inr ()) l')))
          else k (Inr ()) l')))"
    if "at_cursor (Some bar) cur'" "not_beyond (ln_lastBar l) cur'" for es rs market revision n p committed cs cur'
  proof -
    let ?l = "install rs market (Some bar) revision n l"
    have l: "ln_key ?l = key" "at_cursor (ln_lastBar ?l) cur'" using assms(2) that(1) by (simp_all add: install_def)
    from safe_hub_act [OF safe_mark_call [OF assms(1) l] l(1) at_cursor_not_beyond [OF l(2)]] safe_followD [OF assms(1) l]
    show ?thesis using assms(2) that(2) by (auto simp: Let_def intro!: safe_live_act safe_install_act)
  qed
  show ?thesis
    unfolding closed_act_def
    using here safe_commit_call [OF assms after]
    by (auto split: option.split sum.split prod.split simp del: split_paired_All)
qed

lemma safe_catch_up_act:
  "safe_follow cursor key k \<Longrightarrow> ln_key l = key \<Longrightarrow> at_cursor (ln_lastBar l) cur \<Longrightarrow> safe cursor key cur (catch_up_act ops l bars k)"
proof (induction bars arbitrary: l cur)
  case Nil
  then show ?case by (simp add: safe_followD)
next
  case (Cons bar bars)
  have "safe_follow cursor key (\<lambda>r l'. case r of Inl e \<Rightarrow> k (Inl e) l' | Inr _ \<Rightarrow> catch_up_act ops l' bars k)"
    using Cons.IH [OF Cons.prems(1)] safe_followD [OF Cons.prems(1)] by (auto simp: safe_follow_def split: sum.split)
  from safe_closed_act [OF this Cons.prems(2,3)] Cons.IH [OF Cons.prems] safe_followD [OF Cons.prems] show ?case
    by (simp add: Let_def)
qed

lemma safe_rebuild_call:
  assumes "safe_follow cursor key k" and "ln_key l = key" and "at_cursor (ln_lastBar l) cur"
    and "\<And>committed cur'. at_cursor lastBar cur' \<Longrightarrow> not_beyond (ln_lastBar l) cur' \<Longrightarrow> safe cursor key cur' (rest committed)"
  shows "safe cursor key cur (Act l (\<lambda>w. case RebuildSeries ops (w_store w) (ln_key l) evs snaps lastBar of
      (Inl e, s) \<Rightarrow> (w\<lparr>w_store := s\<rparr>, k (Inl (PersistFailed e)) l) | (Inr committed, s) \<Rightarrow> (w\<lparr>w_store := s\<rparr>, rest committed)))"
proof (rule safe.Act [OF assms(2) at_cursor_not_beyond [OF assms(3)]])
  fix w w' a
  assume cur: "cursor (w_store w) key = cur" and call: "(case RebuildSeries ops (w_store w) (ln_key l) evs snaps lastBar of
      (Inl e, s) \<Rightarrow> (w\<lparr>w_store := s\<rparr>, k (Inl (PersistFailed e)) l) | (Inr committed, s) \<Rightarrow> (w\<lparr>w_store := s\<rparr>, rest committed)) = (w', a)"
  obtain r s where c: "RebuildSeries ops (w_store w) key evs snaps lastBar = (r, s)" by fastforce
  have other: "\<forall>k. SeriesKey_String k \<noteq> SeriesKey_String key \<longrightarrow> cursor s k = cursor (w_store w) k" using rebuild_other [OF c] by blast
  show "safe cursor key (cursor (w_store w') key) a \<and>
      (\<forall>k. SeriesKey_String k \<noteq> SeriesKey_String key \<longrightarrow> cursor (w_store w') k = cursor (w_store w) k)"
  proof (cases r)
    case (Inl e)
    then have "s = w_store w" using rebuild_error c by blast
    with Inl c call cur assms(2) show ?thesis using safe_followD [OF assms(1,2,3)] by auto
  next
    case (Inr committed)
    have "at_cursor lastBar (cursor s key)" using rebuild_cursor c Inr by (auto simp: at_cursor_def)
    moreover have "cursor_forward cur (cursor s key)" using rebuild_forward [OF c] cur by (auto simp: cursor_forward_def)
    then have "not_beyond (ln_lastBar l) (cursor s key)" by (rule not_beyond_forward [OF at_cursor_not_beyond [OF assms(3)]])
    ultimately have "safe cursor key (cursor s key) (rest committed)" by (rule assms(4))
    with Inr c call assms(2) other show ?thesis by auto
  qed
qed

lemma safe_rebuild_act:
  assumes "safe_follow cursor key k" and "ln_key l = key" and "at_cursor (ln_lastBar l) cur"
  shows "safe cursor key cur (rebuild_act ops l bars reset k)"
proof -
  have after: "safe cursor key cur' (live_act l es (install_act l
      (let revision = v in k (Inr ()) (install rs market lastBar revision n l))))"
    if "at_cursor lastBar cur'" "not_beyond (ln_lastBar l) cur'" for es rs market v n lastBar cur'
  proof -
    have "safe cursor key cur' (k (Inr ()) (install rs market lastBar v n l))"
      using that assms(2) by (intro safe_followD [OF assms(1)]) (simp_all add: install_def)
    then show ?thesis using that assms(2) by (simp add: Let_def safe_live_act safe_install_act)
  qed
  show ?thesis
    unfolding rebuild_act_def
    using safe_followD [OF assms] safe_rebuild_call [OF assms after] by (auto split: sum.split)
qed

lemma safe_seed_act:
  assumes "safe_follow cursor key k" and "ln_key l = key" and "at_cursor (ln_lastBar l) cur"
  shows "safe cursor key cur (seed_act ops l seed k)"
proof (cases "ln_lastBar l = None")
  case False
  let ?bars = "sort_key bar_OpenTime seed"
  have "safe_follow cursor key (\<lambda>r l'. case r of Inl _ \<Rightarrow> rebuild_act ops l' ?bars True k | Inr _ \<Rightarrow> k (Inr ()) l')"
    using safe_rebuild_act [OF assms(1)] safe_followD [OF assms(1)] by (auto simp: safe_follow_def split: sum.split)
  from safe_catch_up_act [OF this assms(2,3)] False safe_rebuild_act [OF assms] show ?thesis
    by (simp add: seed_act_def Let_def)
next
  case True
  let ?bars = "sort_key bar_OpenTime seed"
  let ?next = "\<lambda>w. case LoadRecovery ops (w_store w) (ln_key l) of
      Inl e \<Rightarrow> k (Inl (LoadFailed e)) l
    | Inr recovery \<Rightarrow>
        if rec_HasCursor recovery then
          (case restoreRecoverySeed l recovery ?bars of
             Inl _ \<Rightarrow> rebuild_act ops l ?bars True k
           | Inr l' \<Rightarrow> install_act l (catch_up_act ops l' ?bars k))
        else rebuild_act ops l ?bars False k"
  have "safe cursor key cur (?next w)" if cur: "cursor (w_store w) key = cur" for w
  proof -
    have "safe cursor key cur (install_act l (catch_up_act ops l' ?bars k))"
      if load: "LoadRecovery ops (w_store w) key = Inr recovery" "rec_HasCursor recovery" "restoreRecoverySeed l recovery ?bars = Inr l'"
      for recovery l'
    proof -
      have "sorted (map bar_OpenTime ?bars)" by simp
      note r = restoreRecoverySeed_cursor [OF load(3) this]
      have "at_cursor (ln_lastBar l') cur" using r(1) load_cursor [OF load(1,2)] cur by (auto simp: at_cursor_def)
      from safe_catch_up_act [OF assms(1) _ this] r(2) assms(2) show ?thesis
        using at_cursor_not_beyond [OF assms(3)] by (intro safe_install_act) auto
    qed
    then show ?thesis using safe_followD [OF assms] safe_rebuild_act [OF assms] assms(2) by (auto split: sum.split)
  qed
  then have "safe cursor key cur (Act l (\<lambda>w. (w, ?next w)))"
    using assms(2) at_cursor_not_beyond [OF assms(3)] by (intro safe.Act) auto
  then show ?thesis using True by (simp add: seed_act_def Let_def)
qed

lemma safe_forming_act:
  assumes "safe_follow cursor key k" and "ln_key l = key" and "at_cursor (ln_lastBar l) cur"
  shows "safe cursor key cur (forming_act l bar k)"
proof -
  note here = safe_followD [OF assms] and behind = at_cursor_not_beyond [OF assms(3)]
  have "safe cursor key cur (k (Inr ()) (l\<lparr>ln_provisional := p, ln_formingTime := t, ln_formingBar := b, ln_formingRevision := v\<rparr>))" for p t b v
    using assms by (intro safe_followD [OF assms(1)]) simp_all
  then have "safe cursor key cur (hub_act l es (case projected of
       Inl e \<Rightarrow> k (Inl e) l
     | Inr provisional \<Rightarrow> live_act l (fs provisional) (install_act l (k (Inr ())
         (l\<lparr>ln_provisional := provisional, ln_formingTime := t, ln_formingBar := b, ln_formingRevision := v\<rparr>)))))" for es fs projected t b v
    using here behind assms(2) by (auto intro!: safe_hub_act safe_live_act safe_install_act split: sum.split)
  then show ?thesis unfolding forming_act_def using here by (auto simp: Let_def split: option.split sum.split prod.split)
qed

lemma safe_dispatch_act:
  assumes "ln_key l = key" and "at_cursor (ln_lastBar l) cur"
  shows "safe cursor key cur (dispatch_act ops l cmd)"
  unfolding dispatch_act_def
  using safe_seed_act [OF safe_finish_act assms] safe_closed_act [OF safe_finish_act assms] safe_forming_act [OF safe_finish_act assms]
  by (simp split: command.split)

subsubsection \<open>The lanes of a registry\<close>

text \<open>Every lane is found under the key of its series, and is safe from the cursor of its series on.\<close>

definition fleet_safe :: "SeriesKey list \<Rightarrow> 'a fleet \<Rightarrow> bool" where
  "fleet_safe series f \<longleftrightarrow> distinct (map fst (fl_lanes f)) \<and>
     (\<forall>(k, a) \<in> set (fl_lanes f). \<exists>key \<in> set series. k = lookup_of key \<and> safe cursor key (cursor (w_store (fl_world f)) key) a)"

lemma fleet_safe_entry:
  assumes "fleet_safe series f" and "map_of (fl_lanes f) k = Some a"
  shows "\<exists>key \<in> set series. k = lookup_of key \<and> safe cursor key (cursor (w_store (fl_world f)) key) a"
  using assms(1) map_of_SomeD [OF assms(2)] by (auto simp: fleet_safe_def)

text \<open>A step of the lane under \<open>k\<close> that moves no other cursor.\<close>

lemma fleet_safe_update:
  assumes "fleet_safe series f" and "distinct (map SeriesKey_String series)" and "key \<in> set series" and "k = lookup_of key"
    and "safe cursor key (cursor (w_store w) key) a"
    and "\<forall>k. SeriesKey_String k \<noteq> SeriesKey_String key \<longrightarrow> cursor (w_store w) k = cursor (w_store (fl_world f)) k"
  shows "fleet_safe series (f\<lparr>fl_lanes := AList.update k a (fl_lanes f), fl_world := w\<rparr>)"
proof -
  have "\<exists>key \<in> set series. i = lookup_of key \<and> safe cursor key (cursor (w_store w) key) b"
    if e: "(i, b) \<in> set (AList.update k a (fl_lanes f))" for i b
  proof -
    consider "i = k" "b = a" | "i \<noteq> k" "(i, b) \<in> set (fl_lanes f)"
      using update_entry [OF _ e] assms(1) by (auto simp: fleet_safe_def)
    then show ?thesis
    proof cases
      case 1
      then show ?thesis using assms(3,4,5) by blast
    next
      case 2
      obtain key' where k': "key' \<in> set series" "i = lookup_of key'" "safe cursor key' (cursor (w_store (fl_world f)) key') b"
        using assms(1) 2(2) by (auto simp: fleet_safe_def)
      then have "SeriesKey_String key' \<noteq> SeriesKey_String key"
        using 2(1) assms(2,3,4) by (auto simp: distinct_map dest: inj_onD)
      with assms(6) k' show ?thesis by auto
    qed
  qed
  moreover have "distinct (map fst (AList.update k a (fl_lanes f)))" using assms(1) by (simp add: fleet_safe_def distinct_update)
  ultimately show ?thesis by (auto simp: fleet_safe_def)
qed

lemma fleet_step_safe:
  assumes "fleet_step ops f g" and "fleet_safe series f" and "distinct (map SeriesKey_String series)"
  shows "fleet_safe series g"
  using assms(1)
proof cases
  case (take_command k r l cmd)
  obtain key where k: "key \<in> set series" "k = lookup_of key" "safe cursor key (cursor (w_store (fl_world f)) key) (Finish r l)"
    using fleet_safe_entry [OF assms(2) take_command(2)] by blast
  from k(3) have "safe cursor key (cursor (w_store (fl_world f)) key) (dispatch_act ops l cmd)"
    by (rule safe_FinishE) (rule safe_dispatch_act)
  from fleet_safe_update [OF assms(2,3) k(1,2) this] show ?thesis by (simp add: take_command(1))
next
  case (advance k l call w a)
  obtain key where k: "key \<in> set series" "k = lookup_of key" "safe cursor key (cursor (w_store (fl_world f)) key) (Act l call)"
    using fleet_safe_entry [OF assms(2) advance(2)] by blast
  from k(3) advance(3) have "safe cursor key (cursor (w_store w) key) a \<and>
      (\<forall>k. SeriesKey_String k \<noteq> SeriesKey_String key \<longrightarrow> cursor (w_store w) k = cursor (w_store (fl_world f)) k)"
    by (elim safe_ActE) blast
  with fleet_safe_update [OF assms(2,3) k(1,2)] show ?thesis by (simp add: advance(1))
next
  case (mark cursors r s)
  with assms(2) mark_cursor [OF mark(2)] show ?thesis by (auto simp: fleet_safe_def)
qed

lemma fleet_steps_safe:
  "(fleet_step ops)\<^sup>*\<^sup>* f g \<Longrightarrow> fleet_safe series f \<Longrightarrow> distinct (map SeriesKey_String series) \<Longrightarrow> fleet_safe series g"
  by (induction rule: rtranclp_induct) (auto intro: fleet_step_safe)

end

lemma start_fleet_safe:
  assumes "NewRegistry opts = Inr r"
  shows "memory_isolated.fleet_safe (ro_Series opts) (start_fleet r w)"
proof -
  have inv: "registry_inv (ro_Series opts) r" by (rule NewRegistry_inv [OF assms])
  have "ln_lastBar l = None" if "(k, l) \<in> set (rg_lanes r)" for k l
    by (rule NewRegistry_fresh [OF assms that])
  then have "\<exists>key \<in> set (ro_Series opts). k = lookup_of key \<and> safe cursor_of key (c key) (Finish (Inr ()) l)"
    if "(k, l) \<in> set (rg_lanes r)" for k l c
    using that registry_inv_entry [OF inv that] by (auto simp: at_cursor_def intro!: safe.Finish)
  moreover have "distinct (map fst (rg_lanes r))" by (rule registry_inv_distinct [OF inv])
  then have "distinct (map fst (fl_lanes (start_fleet r w)))" by (simp add: start_fleet_def case_prod_unfold comp_def)
  ultimately show ?thesis unfolding memory_isolated.fleet_safe_def by (auto simp: start_fleet_def)
qed

lemma registry_of_lane:
  "map_of (rg_lanes (registry_of f)) k = map_option visible (map_of (fl_lanes f) k)"
  by (simp add: registry_of_def map_of_map)

subsection \<open>Properties\<close>

text \<open>
  C10. The mailbox loses nothing and reorders nothing, and readers see whole bars, however the calls of the handlers interleave with
  submissions and snapshots. Let a lane work alone on its store. At any moment the commands answered are a prefix of those the channel
  accepted, and their answers are those of handling them one after the other, each to its end. When the loop is idle, the lane and the world are
  also those of this sequence, and the mailbox holds the commands that follow. When it is at work, it is on the command that follows, the
  mailbox holds those after it, and the handler comes to its end, with the answer, the lane and the world of handling that command as a
  whole; if the command is a bar, the lane that a snapshot finds meanwhile is the one before the bar or the one after it, apart from the error
  of the last command. The backlog never exceeds the mailbox size.
\<close>

theorem actor_sequential:
  assumes "(run_step ops)\<^sup>*\<^sup>* (start_run l w) f" and "0 < ln_mailboxSize l"
  shows "\<exists>n l1 w1. n \<le> length (lr_submitted f) \<and> process ops l w (take n (lr_submitted f)) = (lr_replies f, l1, w1) \<and>
    int (length (lr_mailbox f)) \<le> ln_mailboxSize l \<and>
    (if lr_busy f then
       n < length (lr_submitted f) \<and> lr_mailbox f = drop (Suc n) (lr_submitted f) \<and>
       (\<exists>r l2 w2 g. dispatch ops l1 w1 (lr_submitted f ! n) = (r, l2, w2) \<and> around (lr_submitted f ! n) l1 l2 (visible (lr_act f)) \<and>
          (run_step ops)\<^sup>*\<^sup>* f g \<and> \<not> lr_busy g \<and> lr_replies g = lr_replies f @ [r] \<and> visible (lr_act g) = l2 \<and> lr_world g = w2)
     else lr_mailbox f = drop n (lr_submitted f) \<and> visible (lr_act f) = l1 \<and> lr_world f = w1)"
proof -
  let ?n = "length (lr_replies f)"
  have inv: "run_inv ops l w f" by (rule lane_at_work.reachable_inv [OF refl assms(1)])
  then obtain l1 w1 where p: "process ops l w (take ?n (lr_submitted f)) = (lr_replies f, l1, w1)"
      "\<not> lr_busy f \<Longrightarrow> lr_mailbox f = drop ?n (lr_submitted f) \<and> visible (lr_act f) = l1 \<and> lr_world f = w1"
      "lr_busy f \<Longrightarrow> ?n < length (lr_submitted f) \<and> lr_mailbox f = drop (Suc ?n) (lr_submitted f) \<and>
         (\<exists>r l' w'. dispatch ops l1 w1 (lr_submitted f ! ?n) = (r, l', w') \<and> run_act (lr_act f) (lr_world f) = (r, l', w') \<and>
            along (around (lr_submitted f ! ?n) l1 l') (lr_act f) (lr_world f))"
    unfolding run_inv_def by (auto split: if_splits)
  have bounds: "?n \<le> length (lr_submitted f)" "int (length (lr_mailbox f)) \<le> ln_mailboxSize l"
    using inv assms(2) by (auto simp: run_inv_def)
  show ?thesis
  proof (cases "lr_busy f")
    case True
    obtain r l' w' where d: "dispatch ops l1 w1 (lr_submitted f ! ?n) = (r, l', w')" "run_act (lr_act f) (lr_world f) = (r, l', w')"
        "around (lr_submitted f ! ?n) l1 l' (visible (lr_act f))" using p(3) [OF True] along_visible by blast
    obtain g where "(run_step ops)\<^sup>*\<^sup>* f g" "\<not> lr_busy g" "lr_replies g = lr_replies f @ [r]" "visible (lr_act g) = l'" "lr_world g = w'"
      using run_completes [OF True d(2)] by blast
    with True p(1,3) bounds d(1,3) show ?thesis by (intro exI [of _ ?n] exI [of _ l1] exI [of _ w1]) auto
  next
    case False
    with p(1,2) bounds show ?thesis by (intro exI [of _ ?n] exI [of _ l1] exI [of _ w1]) auto
  qed
qed

text \<open>The sample lane at work on its first closed bar, which is committed and not yet taken over.\<close>

lemma sample_commit:
  obtains committed s where "Memory_CommitClosed NewMemory sample_key (sample_bar 1 3) [sample_first_event] [] = (Inr committed, s)"
    "cursor_of s sample_key = Some (sample_bar 1 3)"
proof -
  have "\<exists>committed s. Memory_CommitClosed NewMemory sample_key (sample_bar 1 3) [sample_first_event] [] = (Inr committed, s)"
    by (simp add: Memory_CommitClosed_def cursor_of_def NewMemory_def split: prod.split)
  then obtain committed s where c: "Memory_CommitClosed NewMemory sample_key (sample_bar 1 3) [sample_first_event] [] = (Inr committed, s)"
    by blast
  then have "cursor_of s sample_key = Some (sample_bar 1 3)"
    by (auto simp: Memory_CommitClosed_def cursor_of_def NewMemory_def set_cursor_def update_conv' split: prod.splits)
  with c that show ?thesis by blast
qed

lemma sample_act:
  obtains call s a where "closed_act memory_ops sample_lane (sample_bar 1 3) k = Act sample_lane call"
    "call sample_world = (sample_world\<lparr>w_store := s\<rparr>, a)" "visible a = sample_lane" "cursor_of s sample_key = Some (sample_bar 1 3)"
proof (rule sample_prepared, rule sample_commit)
  fix m committed s
  assume "bar_Closed (sample_bar 1 3)" "validateBar sample_key (sample_bar 1 3) = None" "Market_Clone (market_after []) = Inr m"
    "prepare_closed sample_lane (reducers_of [2] []) m (sample_bar 1 3) =
       Inr ([sample_first_event], [], reducers_of [2] [sample_bar 1 3], market_after [sample_bar 1 3], 1)"
    and c: "Memory_CommitClosed NewMemory sample_key (sample_bar 1 3) [sample_first_event] [] = (Inr committed, s)"
      "cursor_of s sample_key = Some (sample_bar 1 3)"
  then obtain call where call: "closed_act memory_ops sample_lane (sample_bar 1 3) k = Act sample_lane call"
      "\<exists>es rest. call sample_world = (sample_world\<lparr>w_store := s\<rparr>, live_act sample_lane es (install_act sample_lane rest))"
    by (auto simp: closed_act_def sample_clone check_cursor_def sample_world_def)
  have "visible (live_act sample_lane es (install_act sample_lane rest)) = sample_lane" for es and rest :: "Memory act"
    by (cases es) (simp_all add: install_act_def)
  with call c(2) that show ?thesis by metis
qed

theorem actor_sequential_witness:
  "\<exists>f g r. (run_step memory_ops)\<^sup>*\<^sup>* (start_run sample_lane sample_world) f \<and> lr_busy f \<and> visible (lr_act f) = sample_lane \<and>
     cursor_of (w_store (lr_world f)) sample_key = Some (sample_bar 1 3) \<and>
     (run_step memory_ops)\<^sup>*\<^sup>* f g \<and> lr_replies g = [r] \<and> ln_lastBar (visible (lr_act g)) = Some (sample_bar 1 3)"
proof (rule sample_act [of finish_act])
  fix call s a
  assume act: "closed_act memory_ops sample_lane (sample_bar 1 3) finish_act = Act sample_lane call"
    "call sample_world = (sample_world\<lparr>w_store := s\<rparr>, a)" "visible a = sample_lane" "cursor_of s sample_key = Some (sample_bar 1 3)"
  let ?cmd = "commandClosed (sample_bar 1 3)" and ?s = "start_run sample_lane sample_world"
  let ?f1 = "?s\<lparr>lr_mailbox := lr_mailbox ?s @ [?cmd], lr_submitted := lr_submitted ?s @ [?cmd]\<rparr>"
  let ?f2 = "?f1\<lparr>lr_mailbox := [], lr_busy := True, lr_act := dispatch_act memory_ops (visible (lr_act ?f1)) ?cmd\<rparr>"
  let ?f = "?f2\<lparr>lr_act := a, lr_world := sample_world\<lparr>w_store := s\<rparr>\<rparr>"
  have "run_step memory_ops ?s ?f1" by (rule run_step.submit) (simp add: start_run_def)
  moreover have "run_step memory_ops ?f1 ?f2" by (rule run_step.take_command) (simp_all add: start_run_def)
  moreover have "run_step memory_ops ?f2 ?f"
    by (rule run_step.advance [where l = sample_lane and call = call]) (simp_all add: act start_run_def dispatch_act_def)
  ultimately have run: "(run_step memory_ops)\<^sup>*\<^sup>* ?s ?f"
    by (intro converse_rtranclp_into_rtranclp [of _ ?s ?f1] converse_rtranclp_into_rtranclp [of _ ?f1 ?f2] r_into_rtranclp)
  have f: "lr_busy ?f" "lr_submitted ?f = [?cmd]" "lr_replies ?f = []" by (simp_all add: start_run_def)
  obtain w where "applyClosed memory_ops sample_lane sample_world (sample_bar 1 3) = (Inr (), canonical sample_lane [sample_bar 1 3], w)"
    using sample_closed by blast
  then have d: "ln_lastBar (fst (snd (dispatch memory_ops sample_lane sample_world ?cmd))) = Some (sample_bar 1 3)"
    by (simp add: dispatch_def)
  obtain r l2 w2 g where "dispatch memory_ops sample_lane sample_world ?cmd = (r, l2, w2)" "(run_step memory_ops)\<^sup>*\<^sup>* ?f g"
      "lr_replies g = [r]" "visible (lr_act g) = l2"
    using actor_sequential [OF run] f by auto
  with d run f act(3,4) show ?thesis by (intro exI [of _ ?f] exI [of _ g] exI [of _ r]) simp
qed

text \<open>
  C32. The lanes share one store without running ahead of it or into each other. Consider a registry over the memory store whose configured series
  have different names in the store, in any state that its lanes reach, with their calls interleaved with each other and
  with the dispatcher of the outbox. The last closed bar in a snapshot of a configured series is never beyond the durable cursor of
  that series, also while the lane of the series is between its commit and taking it over; and when that lane is idle, the bar is
  the durable cursor, by time and hash.
\<close>

theorem registry_cursors_durable:
  assumes "NewRegistry opts = Inr r0" and "distinct (map SeriesKey_String (ro_Series opts))"
    and "(fleet_step memory_ops)\<^sup>*\<^sup>* (start_fleet r0 w0) f" and "key \<in> set (ro_Series opts)"
    and "Registry_Snapshot (registry_of f) (key_Symbol key) (key_Timeframe key) = Some s" and "ss_LastClosedBar s = Some b"
  shows "\<exists>c. cursor_of (w_store (fl_world f)) key = Some c \<and> bar_OpenTime b \<le> bar_OpenTime c \<and>
    (\<forall>r l. map_of (fl_lanes f) (lookup_of key) = Some (Finish r l) \<longrightarrow> bar_OpenTime c = bar_OpenTime b \<and> barHash c = barHash b)"
proof -
  have f: "memory_isolated.fleet_safe (ro_Series opts) f"
    by (rule memory_isolated.fleet_steps_safe [OF assms(3) start_fleet_safe [OF assms(1)] assms(2)])
  obtain a where a: "map_of (fl_lanes f) (lookup_of key) = Some a" "ln_lastBar (visible a) = Some b"
    using assms(5,6) by (auto simp: Registry_Snapshot_def registry_lane_def registry_of_lane Lane_Snapshot_def
        makeSeriesSnapshot_def Let_def split: option.splits sum.splits simp flip: lookup_of_def)
  obtain key' where k: "key' \<in> set (ro_Series opts)" "lookup_of key = lookup_of key'"
      "safe cursor_of key' (cursor_of (w_store (fl_world f)) key') a"
    using memory_isolated.fleet_safe_entry [OF f a(1)] by blast
  have "key' = key"
    using NewRegistry_inv [OF assms(1)] k(1,2) assms(4) by (auto simp: registry_inv_def distinct_map dest: inj_onD)
  with k(3) have safe: "safe cursor_of key (cursor_of (w_store (fl_world f)) key) a" by simp
  have "not_beyond (Some b) (cursor_of (w_store (fl_world f)) key)" using safe_visible [OF safe] a(2) by simp
  moreover have "at_cursor (Some b) (cursor_of (w_store (fl_world f)) key)" if "a = Finish r l" for r l
    using safe a(2) that by (auto elim: safe_FinishE)
  ultimately show ?thesis using a(1) by (auto simp: not_beyond_def at_cursor_def)
qed

theorem registry_cursors_durable_witness:
  "\<exists>f s r l c. (fleet_step memory_ops)\<^sup>*\<^sup>* (start_fleet sample_registry sample_world) f \<and>
     Registry_Snapshot (registry_of f) ''BTC'' ''1m'' = Some s \<and> ss_LastClosedBar s = Some (sample_bar 1 3) \<and>
     map_of (fl_lanes f) (lookup_of sample_key) = Some (Finish r l) \<and>
     cursor_of (w_store (fl_world f)) sample_key = Some c \<and> bar_OpenTime c = bar_OpenTime (sample_bar 1 3)"
proof -
  let ?s = "start_fleet sample_registry sample_world" and ?k = "lookup_of sample_key" and ?cmd = "commandClosed (sample_bar 1 3)"
  let ?l = "(canonical sample_lane [sample_bar 1 3])\<lparr>ln_lastErr := None\<rparr>"
  obtain w where w: "applyClosed memory_ops sample_lane sample_world (sample_bar 1 3) = (Inr (), canonical sample_lane [sample_bar 1 3], w)"
    using sample_closed by blast
  have k: "map_of (fl_lanes ?s) ?k = Some (Finish (Inr ()) sample_lane)" "fl_world ?s = sample_world"
    "key_Symbol sample_key = ''BTC''" "key_Timeframe sample_key = ''1m''" "lookupKey ''BTC'' ''1m'' = ?k"
    by (simp_all add: start_fleet_def sample_registry_def lookup_of_def sample_key_def)
  let ?f = "?s\<lparr>fl_lanes := AList.update ?k (dispatch_act memory_ops sample_lane ?cmd) (fl_lanes ?s)\<rparr>"
  have first: "fleet_step memory_ops ?s ?f" by (rule fleet_step.take_command [OF k(1)])
  have "run_act (dispatch_act memory_ops sample_lane ?cmd) (fl_world ?f) = (Inr (), ?l, w)"
    using w k(2) by (simp add: run_dispatch_act dispatch_def)
  then obtain g where g: "(fleet_step memory_ops)\<^sup>*\<^sup>* ?f g" "map_of (fl_lanes g) ?k = Some (Finish (Inr ()) ?l)"
    using fleet_completes [of ?f ?k "dispatch_act memory_ops sample_lane ?cmd" "Inr ()" ?l w memory_ops] by (auto simp: update_conv')
  have run: "(fleet_step memory_ops)\<^sup>*\<^sup>* ?s g" by (rule converse_rtranclp_into_rtranclp [OF first g(1)])
  obtain s where s: "Registry_Snapshot (registry_of g) ''BTC'' ''1m'' = Some s" "ss_LastClosedBar s = Some (sample_bar 1 3)"
    by (simp add: Registry_Snapshot_def registry_lane_def registry_of_lane k g(2) Lane_Snapshot_def makeSeriesSnapshot_def Let_def)
  obtain c where c: "cursor_of (w_store (fl_world g)) sample_key = Some c" "bar_OpenTime c = bar_OpenTime (sample_bar 1 3)"
    using registry_cursors_durable [OF sample_registry_new _ run _ _ s(2), of sample_key] s(1) k g(2)
    by (auto simp: sample_registry_options_def)
  show ?thesis
    by (intro exI conjI, rule run, rule s(1), rule s(2), rule g(2), rule c(1), rule c(2))
qed

end
