(* ===== verification/Spec2Isabelle.thy ===== *)
theory Spec2Isabelle
  imports Process Lane_Steps
begin

text \<open>
  \<^bold>\<open>signald\<close>: a verification library of the market signal service.

  \<^bold>\<open>The program.\<close> signald reads candles (OHLC bars) from a WebSocket, keeps one \<^emph>\<open>lane\<close> per series, computes
  exponential moving averages and a market analysis from the closed bars, stores the resulting events
  with a durable cursor per series, and delivers them to WebSocket clients and to a message broker. The
  input hands bars to the registry, the registry to the lane of the series; a lane commits its events to the
  store before it installs its new state, and publishes forming (provisional) events directly; the outbox
  dispatcher delivers what the store holds to the hub and the broker; the public contract turns stored events and lane
  snapshots into the documents clients see.

  \<^bold>\<open>Foundations.\<close>
  \<^item> \<open>Prelude\<close>: results (\<open>error + value\<close>), lists, the locale \<open>transition_system\<close> for invariants of reachable states.
  \<^item> \<open>Float64\<close>: Go's \<^verbatim>\<open>float64\<close>: exact rational values with round-to-nearest-even, infinities, NaN and a negative
    zero; rounding is monotone and exact on representable numbers. The exponent is found by counting with a bound of
    400 steps, enough for every exponent of a double.
  \<^item> \<open>GoStd\<close>, \<open>GoStrings\<close>: what the sources use of Go's standard library: decimal numbers, times and their RFC 3339 text,
    SHA-256, JSON documents, sorting, channels, trimming and splitting, durations, base64 and FNV-1a.

  \<^bold>\<open>Components and their sources under \<^verbatim>\<open>src/\<close>.\<close>
  \<^item> \<open>Model\<close> (\<^verbatim>\<open>internal/model\<close>): bars, events, market state as records; timeframe durations with the 64-bit product; series keys.
  \<^item> \<open>EMA\<close> (\<^verbatim>\<open>internal/indicator/ema.go\<close>): the reducer refines a reference average, is monotone in the closes with rounding
    included, and its snapshots restore to a state that replays like the original.
  \<^item> \<open>Market_Zones\<close>, \<open>Market_Structure\<close> (\<^verbatim>\<open>internal/indicator/market.go\<close>): gaps, order blocks, patterns; zigzag, pullbacks,
    breakouts, ranges, levels, trend: the gaps reported are exactly the last open gaps of the bars, the swings of the zigzag are the extremes of the legs
    between them, and every list is bounded by the window of bars. The loop that merges pullbacks terminates because each round removes swings.
  \<^item> \<open>Market\<close> (\<^verbatim>\<open>internal/indicator/market_reducer.go\<close>): the incremental reducer refines the evaluation of the whole history;
    zone transitions; snapshot and restore. The order in which a Go map is ranged over is an argument (\<open>Market_OnClosed_in\<close>), and the
    results hold for every order, up to the order of the transitions of one bar, which does vary.
  \<^item> \<open>Lane\<close>, \<open>Lane_Recovery\<close> (\<^verbatim>\<open>internal/engine/lane.go\<close>): closed and forming bars, events and their identities, checkpoints,
    the three paths of a seed. \<open>Lane_Invariant\<close> states that a lane is the canonical function of its history, \<open>Lane_Restart\<close> that a
    checkpoint with a covering seed restores it, \<open>Actor\<close> is the mailbox and its loop as a step relation, with a command as one step, and
    \<open>Lane_Properties\<close> collects the results. \<open>Lane_Steps\<close> has the handlers once more as the sequences of their calls on the store and the
    publishers, equal to the handlers when run to their end, and interleaves these calls with submissions, snapshots and other lanes.
  \<^item> \<open>Registry\<close> (\<^verbatim>\<open>internal/engine/registry.go\<close>): one lane per series, routing, readiness; \<open>Lane_Steps\<close> has the lanes of a registry
    at work on one shared store, and what snapshots show of their cursors meanwhile.
  \<^item> \<open>Store\<close> (\<^verbatim>\<open>internal/store/memory.go\<close>, the filters of \<^verbatim>\<open>postgres.go\<close>): the log, cursors, idempotent commits and pages.
    The locales \<open>series_store\<close> and \<open>isolated_store\<close> are what lanes and registries rely on.
  \<^item> \<open>Postgres\<close> (\<^verbatim>\<open>internal/store/postgres.go\<close> and its migrations): the tables as lists of rows and every SQL statement as the function
    it describes. How a transaction ends is a \<open>fate\<close>: completed, aborted, or committed with the acknowledgement lost; the sequence of the
    cursors is not rolled back. \<open>Postgres_Properties\<close> has the invariant of the tables and the store as an outbox,
    \<open>Postgres_Results\<close> the outcomes of a commit, retries, the pages that agree with the memory store and the resets that are kept back,
    \<open>Postgres_Lane\<close> a lane over this store, where an error may hide a commit: the durable cursor then covers the lane (locale
    \<open>tracked_store\<close>), and \<open>Postgres_Locks\<close> the advisory locks, the migrations and the opening.
  \<^item> \<open>Outbox\<close> (\<^verbatim>\<open>internal/outbox/dispatcher.go\<close>): a flush is a \<^theory_text>\<open>partial_function (option)\<close>, proved to return on every store that keeps
    the contract of the locale \<open>outbox_store\<close>. \<open>Delivery\<close> cuts the same loops at each call and lets writers, failures and crashes come
    in between: the broker always has a prefix of the log (locale \<open>logged_outbox\<close>, interpreted on both stores).
  \<^item> \<open>Hub\<close> (\<^verbatim>\<open>internal/api/hub.go\<close>): clients, buffering until activation, no send on a closed channel, cursor order.
  \<^item> \<open>Contract\<close> (\<^verbatim>\<open>internal/api/contract.go\<close>): the public events; snapshots and live events agree.
  \<^item> \<open>Server\<close>, \<open>Session\<close>, \<open>Http\<close> (\<^verbatim>\<open>internal/api/server.go\<close>): subscriptions and their validation; a WebSocket session beside the store, the
    dispatcher and the hub as a step relation, without a gap between snapshot, replay and live delivery; pages, catalogue, readiness,
    credentials, origins and routes. A response whose value has no JSON form reaches the client with its status and an empty body (\<open>writeJSON\<close>).
  \<^item> \<open>Metrics\<close> (\<^verbatim>\<open>internal/monitor/metrics.go\<close>): the counters and their report.
  \<^item> \<open>Broker\<close>, \<open>Streams\<close> (\<^verbatim>\<open>internal/broker/jetstream.go\<close>): publications, coalescing of forming frames, reconciliation of the streams, with
    a server that answers as it likes.
  \<^item> \<open>Config\<close> (\<^verbatim>\<open>internal/config/config.go\<close>): parsing and validation of the environment.
  \<^item> \<open>Input\<close> (\<^verbatim>\<open>internal/input/ohlc.go\<close>): messages, connections over a registry, reconnect delays.
  \<^item> \<open>Process\<close> (\<^verbatim>\<open>cmd/signald/main.go\<close>): the publishers in their order, the live publisher with its retries, the choice of the store, and the
    start of the process up to its goroutines, with the outbox drained before any input.

  \<^bold>\<open>Interfaces.\<close> The locales are \<open>transition_system\<close> (invariants of reachable states), \<open>weak_order\<close> (what sorting relies on), \<open>checkpointed\<close> (reducers that are saved and
  restored), \<open>series_store\<close>, \<open>isolated_store\<close>, \<open>tracked_store\<close> (what lanes rely on), \<open>outbox_store\<close> and \<open>logged_outbox\<close> (what the dispatcher
  relies on); each is interpreted on the definitions that model the code.

  \<^bold>\<open>Parameters and bounds.\<close> Code that is not in the repository is a parameter: the NATS client (a function that sends a message and the
  three calls on streams), the PostgreSQL driver (the record \<open>codec\<close>: resolution of times, storable texts, JSON documents; the
  property \<open>faithful\<close> states that a stored event reads back with the fields it is filed under), the WebSocket library (what its
  reads and writes return), the clock and the environment. Loops that may not end are partial functions whose value \<open>None\<close> is not
  returning, and are proved to return; the only fuel is the bound on exponents in \<open>Float64\<close>. The counter of the memory store (an \<^verbatim>\<open>int64\<close>) and the
  sequence of the database (a \<^verbatim>\<open>bigserial\<close>) are unbounded here: both stand for stores with fewer than \<open>2 ^ 63\<close> events.

  \<^bold>\<open>Not modelled.\<close> Listening for connections, deadlines and pings; the decoding of JSON and of WebSocket frames by their libraries;
  the generation of random identifiers; logging; the ticker and the waiting of goroutines for each other. Goroutines appear as
  the steps of the relations named above. A section under a mutex (an operation of the memory store or of the hub, the installation of a lane's new
  state) and a transaction under its advisory locks are one step each. The relations of \<open>Actor\<close> and \<open>Registry\<close> take a whole command as a
  step, which is how its submitter sees it; readers of snapshots see the steps of \<open>Lane_Steps\<close>.
\<close>

end
